(* ===== verification/Prelude.thy ===== *)
theory Prelude
  imports Main "HOL-Library.Word" "HOL-Library.Multiset" "HOL-Library.Char_ord"
begin

text \<open>
  Shared vocabulary of the development: the machine integer types of the C++ sources, the
  error values that stand for failed assertions, undefined behaviour and exceptions, the
  closures (\<open>std::function<void()>\<close> objects) the components hand to each other, and the
  generic lemmas on lists, results and words that more than one component uses.
\<close>

named_theorems result_simps \<open>rewrite rules for the error sum\<close>
named_theorems inv_intros \<open>preservation of component invariants\<close>

section \<open>Machine integers\<close>

type_synonym u8 = "8 word"
type_synonym u16 = "16 word"
type_synonym u32 = "32 word"
type_synonym u64 = "64 word"

text \<open>Division of signed numbers by a positive one: the quotient is rounded towards zero and the remainder has
  the sign of the dividend.\<close>

definition c_div :: "int \<Rightarrow> int \<Rightarrow> int" where
  "c_div a b = (if a < 0 then - ((- a) div b) else a div b)"

definition c_mod :: "int \<Rightarrow> int \<Rightarrow> int" where
  "c_mod a b = a - c_div a b * b"

lemma c_div_nonneg [simp]: "0 \<le> a \<Longrightarrow> c_div a b = a div b"
  by (simp add: c_div_def)

lemma c_mod_nonneg [simp]: "0 \<le> a \<Longrightarrow> c_mod a b = a mod b"
  by (simp add: c_mod_def minus_div_mult_eq_mod)

lemma c_div_mult [simp]: "0 < b \<Longrightarrow> c_div (a * b) b = a"
  using nonzero_mult_div_cancel_right [of b "- a"] by (auto simp: c_div_def mult_less_0_iff)

lemma c_div_mod: "c_div a b * b + c_mod a b = a"
  by (simp add: c_mod_def)

lemma c_div_bounds: "0 < b \<Longrightarrow> - c \<le> a \<and> a \<le> c \<Longrightarrow> - (c div b) \<le> c_div a b \<and> c_div a b \<le> c div b"
  using zdiv_mono1 [of a c b] zdiv_mono1 [of "- a" c b] pos_imp_zdiv_nonneg_iff [of b a]
    pos_imp_zdiv_nonneg_iff [of b "- a"] pos_imp_zdiv_nonneg_iff [of b c]
  by (auto simp: c_div_def)

section \<open>Errors as values\<close>

text \<open>
  \<open>SYLAR_ASSERT\<close> aborts the process (\<open>AssertFailed\<close>), an access the C++ standard gives no
  meaning to is \<open>Undefined\<close>, and an exception that leaves a function is \<open>Thrown\<close>. The
  string says where.
\<close>

datatype error =
    AssertFailed string
  | Undefined string
  | Thrown string

type_synonym 'a result = "error + 'a"

definition rbind :: "'a result \<Rightarrow> ('a \<Rightarrow> 'b result) \<Rightarrow> 'b result" where
  "rbind m f = (case m of Inl e \<Rightarrow> Inl e | Inr a \<Rightarrow> f a)"

definition sylar_assert :: "bool \<Rightarrow> string \<Rightarrow> unit result" where
  "sylar_assert b msg = (if b then Inr () else Inl (AssertFailed msg))"

lemma rbind_Inl [simp, result_simps]: "rbind (Inl e) f = Inl e"
  by (simp add: rbind_def)

lemma rbind_Inr [simp, result_simps]: "rbind (Inr a) f = f a"
  by (simp add: rbind_def)

lemma rbind_eq_Inr [result_simps]: "rbind m f = Inr b \<longleftrightarrow> (\<exists>a. m = Inr a \<and> f a = Inr b)"
  by (cases m) simp_all

lemma rbind_cong [fundef_cong]:
  "m = m' \<Longrightarrow> (\<And>a. m' = Inr a \<Longrightarrow> f a = f' a) \<Longrightarrow> rbind m f = rbind m' f'"
  by (cases m') simp_all

lemma sylar_assert_simps [simp, result_simps]:
  "sylar_assert True msg = Inr ()"
  "sylar_assert False msg = Inl (AssertFailed msg)"
  by (simp_all add: sylar_assert_def)

lemma sylar_assert_eq_Inr [result_simps]: "sylar_assert b msg = Inr u \<longleftrightarrow> b"
  by (simp add: sylar_assert_def)

lemma rbind_assert_eq_Inr [result_simps]:
  "rbind (sylar_assert b msg) f = Inr r \<longleftrightarrow> b \<and> f () = Inr r"
  by (cases b) simp_all

section \<open>Closures\<close>

text \<open>
  The \<open>std::function<void()>\<close> values that travel between the timer manager, the scheduler,
  the event loop and the system call hooks. A user function is known by a number only; the
  other constructors are the closures the library itself builds:
  \<^item> \<open>OnTimer w c\<close> is \<open>std::bind(&OnTimer, weak_cond, cb)\<close> of \<open>timer.cpp\<close>;
  \<^item> \<open>ScheduleFiber f t\<close> is \<open>std::bind(&Scheduler::schedule, iom, fiber, thread)\<close> of the
    sleep hooks in \<open>hook.cpp\<close>;
  \<^item> \<open>TimeoutCancel w fd ev\<close> is the lambda of \<open>do_io\<close> and \<open>connect_with_timeout\<close>, which
    captures the weak \<open>timer_info\<close>, the descriptor and the event;
  \<^item> \<open>SchedulerRun\<close> and \<open>SchedulerIdle\<close> are the member functions bound to a scheduler.
\<close>

datatype closure =
    UserFn nat
  | OnTimer nat closure
  | ScheduleFiber nat int
  | TimeoutCancel nat int u32
  | SchedulerRun
  | SchedulerIdle

section \<open>Lists\<close>

lemma sorted_wrt_cong_on:
  assumes "\<And>x y. x \<in> set xs \<Longrightarrow> y \<in> set xs \<Longrightarrow> P x y = Q x y"
  shows "sorted_wrt P xs = sorted_wrt Q xs"
  using assms by (induction xs) auto

lemma takeWhile_eq_filter_sorted:
  assumes "sorted_wrt R xs"
    and "\<And>y z. y \<in> set xs \<Longrightarrow> z \<in> set xs \<Longrightarrow> R y z \<Longrightarrow> P z \<Longrightarrow> P y"
  shows "takeWhile P xs = filter P xs"
  using assms
proof (induction xs)
  case (Cons a xs)
  show ?case
  proof (cases "P a")
    case True
    with Cons show ?thesis by auto
  next
    case False
    then have "filter P xs = []"
      using Cons.prems by (auto simp: filter_empty_conv)
    with False show ?thesis by simp
  qed
qed simp

lemma dropWhile_eq_filter_sorted:
  assumes "sorted_wrt R xs"
    and "\<And>y z. y \<in> set xs \<Longrightarrow> z \<in> set xs \<Longrightarrow> R y z \<Longrightarrow> P z \<Longrightarrow> P y"
  shows "dropWhile P xs = filter (\<lambda>x. \<not> P x) xs"
  using assms
proof (induction xs)
  case (Cons a xs)
  show ?case
  proof (cases "P a")
    case True
    with Cons show ?thesis by auto
  next
    case False
    then have "filter (\<lambda>x. \<not> P x) xs = xs"
      using Cons.prems by (auto simp: filter_id_conv)
    with False show ?thesis by simp
  qed
qed simp

lemma take_length_takeWhile [simp]: "take (length (takeWhile P xs)) xs = takeWhile P xs"
  by (induction xs) auto

lemma drop_length_takeWhile [simp]: "drop (length (takeWhile P xs)) xs = dropWhile P xs"
  by (induction xs) auto

section \<open>Words\<close>

lemma unat_bound: "unat (w :: 'a::len word) < 2 ^ LENGTH('a)"
  by (rule unsigned_less)

lemma word_plus_no_wrap:
  fixes a b :: "'a::len word"
  assumes "unat a + unat b < 2 ^ LENGTH('a)"
  shows "a \<le> a + b" and "unat (a + b) = unat a + unat b"
  using assms by (simp_all add: word_le_nat_alt unat_word_ariths)

section \<open>Decimal numbers\<close>

text \<open>Streaming a number into a \<open>std::ostream\<close> and \<open>std::to_string\<close>, and the value of a string
  of digits.\<close>

definition digit_char :: "nat \<Rightarrow> char" where
  "digit_char d = char_of (48 + d)"

fun show_nat :: "nat \<Rightarrow> string" where
  "show_nat n = (if n < 10 then [digit_char n] else show_nat (n div 10) @ [digit_char (n mod 10)])"

declare show_nat.simps [simp del]

definition show_int :: "int \<Rightarrow> string" where
  "show_int i = (if i < 0 then ''-'' @ show_nat (nat (- i)) else show_nat (nat i))"

definition digit_value :: "char \<Rightarrow> nat" where
  "digit_value c = of_char c - 48"

definition is_digit :: "char \<Rightarrow> bool" where
  "is_digit c \<longleftrightarrow> CHR ''0'' \<le> c \<and> c \<le> CHR ''9''"

definition value_of_digits :: "string \<Rightarrow> nat" where
  "value_of_digits cs = foldl (\<lambda>n c. 10 * n + digit_value c) 0 cs"

lemma digit_value_char [simp]: "d < 10 \<Longrightarrow> digit_value (digit_char d) = d"
  by (simp add: digit_value_def digit_char_def)

lemma value_of_digits_snoc [simp]:
  "value_of_digits (cs @ [c]) = 10 * value_of_digits cs + digit_value c"
  by (simp add: value_of_digits_def)

lemma value_of_show_nat [simp]: "value_of_digits (show_nat n) = n"
proof (induction n rule: show_nat.induct)
  case (1 n)
  show ?case
  proof (cases "n < 10")
    case True
    then show ?thesis by (subst show_nat.simps) (simp add: value_of_digits_def)
  next
    case False
    then show ?thesis using 1 by (subst show_nat.simps) simp
  qed
qed

lemma show_nat_inject [simp]: "show_nat m = show_nat n \<longleftrightarrow> m = n"
  by (metis value_of_show_nat)

lemma show_nat_nonempty [simp]: "show_nat n \<noteq> []"
  by (subst show_nat.simps) simp

lemma show_nat_digits: "c \<in> set (show_nat n) \<Longrightarrow> is_digit c"
proof (induction n rule: show_nat.induct)
  case (1 n)
  have "is_digit (digit_char d)" if "d < 10" for d
    using that by (simp add: is_digit_def digit_char_def less_eq_char_def)
  then show ?case
    using 1 by (cases "n < 10") (subst (asm) (2) show_nat.simps, auto)+
qed

text \<open>Where the first occurrence of a separator splits a string.\<close>

lemma split_at_first:
  assumes "c \<notin> set xs" and "c \<notin> set xs'"
  shows "xs @ c # ys = xs' @ c # ys' \<longleftrightarrow> xs = xs' \<and> ys = ys'"
  using assms
proof (induction xs arbitrary: xs')
  case (Cons a xs)
  then show ?case by (cases xs') auto
qed (auto simp: Cons_eq_append_conv)

end
