(* ===== verification/Fiber.thy ===== *)
theory Fiber
  imports Prelude
begin

text \<open>
  Coroutines (\<open>sylar/fiber.h\<close>, \<open>sylar/fiber.cpp\<close>). The state is the store of \<open>Fiber\<close>
  objects, the two process-wide counters and the thread-local pointers of one thread,
  together with \<open>control\<close>: the fiber whose stack the thread is executing. A
  \<open>ucontext_t\<close> is an entry point prepared by \<open>makecontext\<close>, a flow of control saved by
  \<open>swapcontext\<close>, or stale (its flow is running). What a fiber's callback does between
  two switches is not fixed: it may yield, return or throw, and each of these is an
  operation below.
\<close>

section \<open>Data\<close>

text \<open>\<open>Fiber::State\<close>; the source's \<open>TERM\<close> is written out, since it is a token of the logic.\<close>

datatype fiber_state = INIT | HOLD | EXEC | TERMINATED | READY | EXCEPT

datatype entry = EntryMainFunc | EntryCallerMainFunc

text \<open>\<open>Saved k\<close> resumes the flow of fiber \<open>k\<close>; \<open>Finished\<close> is the context saved by the last
  \<open>swapOut\<close> of \<open>MainFunc\<close>, which resumes at the \<open>never reach\<close> assertion.\<close>

datatype ucontext = Entry entry | Saved nat | Finished | Stale

record fiber =
  f_id :: u64
  f_stacksize :: u32
  f_state :: fiber_state
  f_ctx :: ucontext
  f_stack :: bool
  f_cb :: "closure option"

record fiber_world =
  fibers :: "nat \<rightharpoonup> fiber"
  s_fiber_id :: u64
  s_fiber_count :: u64
  t_fiber :: "nat option"
  t_threadFiber :: "nat option"
  t_scheduler_fiber :: "nat option"
  control :: nat

definition null_fiber :: fiber where
  "null_fiber = \<lparr>f_id = 0, f_stacksize = 0, f_state = INIT, f_ctx = Stale, f_stack = False,
     f_cb = None\<rparr>"

definition fiber_at :: "fiber_world \<Rightarrow> nat \<Rightarrow> fiber" where
  "fiber_at w a = (case fibers w a of Some f \<Rightarrow> f | None \<Rightarrow> null_fiber)"

definition upd_fiber :: "nat \<Rightarrow> (fiber \<Rightarrow> fiber) \<Rightarrow> fiber_world \<Rightarrow> fiber_world" where
  "upd_fiber a g w = w\<lparr>fibers := (fibers w)(a \<mapsto> g (fiber_at w a))\<rparr>"

section \<open>Context switching\<close>

definition swapcontext :: "nat \<Rightarrow> nat \<Rightarrow> fiber_world \<Rightarrow> fiber_world result" where
  "swapcontext from to w =
     (let w1 = upd_fiber from (\<lambda>f. f\<lparr>f_ctx := Saved (control w)\<rparr>) w;
          w2 = upd_fiber to (\<lambda>f. f\<lparr>f_ctx := Stale\<rparr>) w1
      in case f_ctx (fiber_at w1 to) of
           Entry e \<Rightarrow> Inr (w2\<lparr>control := to\<rparr>)
         | Saved k \<Rightarrow> Inr (w2\<lparr>control := k\<rparr>)
         | Finished \<Rightarrow> Inl (AssertFailed ''never reach fiber_id'')
         | Stale \<Rightarrow> Inl (Undefined ''swapcontext to a running context''))"

definition Fiber_SetThis :: "nat option \<Rightarrow> fiber_world \<Rightarrow> fiber_world" where
  "Fiber_SetThis f w = w\<lparr>t_fiber := f\<rparr>"

text \<open>Dereferencing \<open>Scheduler::GetMainFiber()\<close> and \<open>t_threadFiber\<close>.\<close>

definition deref :: "nat option \<Rightarrow> string \<Rightarrow> nat result" where
  "deref p msg = (case p of Some a \<Rightarrow> Inr a | None \<Rightarrow> Inl (Undefined msg))"

definition Fiber_swapIn :: "nat \<Rightarrow> fiber_world \<Rightarrow> fiber_world result" where
  "Fiber_swapIn this w =
     (let w1 = Fiber_SetThis (Some this) w in
      rbind (sylar_assert (f_state (fiber_at w1 this) \<noteq> EXEC) ''state_ != EXEC'') (\<lambda>_.
      let w2 = upd_fiber this (\<lambda>f. f\<lparr>f_state := EXEC\<rparr>) w1 in
      rbind (deref (t_scheduler_fiber w2) ''GetMainFiber()'') (\<lambda>main.
      swapcontext main this w2)))"

definition Fiber_swapOut :: "nat \<Rightarrow> fiber_world \<Rightarrow> fiber_world result" where
  "Fiber_swapOut this w =
     (let w1 = Fiber_SetThis (t_scheduler_fiber w) w in
      rbind (deref (t_scheduler_fiber w1) ''GetMainFiber()'') (\<lambda>main.
      swapcontext this main w1))"

definition Fiber_call :: "nat \<Rightarrow> fiber_world \<Rightarrow> fiber_world result" where
  "Fiber_call this w =
     (let w1 = Fiber_SetThis (Some this) w in
      rbind (deref (t_threadFiber w1) ''t_threadFiber'') (\<lambda>main.
      swapcontext main this w1))"

definition Fiber_back :: "nat \<Rightarrow> fiber_world \<Rightarrow> fiber_world result" where
  "Fiber_back this w =
     (let w1 = Fiber_SetThis (t_threadFiber w) w in
      rbind (deref (t_threadFiber w1) ''t_threadFiber'') (\<lambda>main.
      swapcontext this main w1))"

section \<open>Construction and destruction\<close>

text \<open>The private constructor: the fiber of the thread's own stack, at address \<open>a\<close>.\<close>

definition Fiber_new_main :: "nat \<Rightarrow> fiber_world \<Rightarrow> fiber_world" where
  "Fiber_new_main a w =
     (let f = null_fiber\<lparr>f_state := EXEC\<rparr>;
          w1 = Fiber_SetThis (Some a) (w\<lparr>fibers := (fibers w)(a \<mapsto> f)\<rparr>)
      in w1\<lparr>s_fiber_count := s_fiber_count w1 + 1\<rparr>)"

text \<open>\<open>stack_size\<close> is the value of the configuration variable \<open>fiber.stack_size\<close>; the size is
  stored in 32 bits.\<close>

definition Fiber_new ::
  "nat \<Rightarrow> closure option \<Rightarrow> u64 \<Rightarrow> bool \<Rightarrow> u32 \<Rightarrow> fiber_world \<Rightarrow> fiber_world" where
  "Fiber_new a cb stacksize use_caller stack_size w =
     (let i = s_fiber_id w + 1;
          f = \<lparr>f_id = i,
               f_stacksize = (if stacksize \<noteq> 0 then ucast stacksize else stack_size),
               f_state = INIT,
               f_ctx = Entry (if \<not> use_caller then EntryMainFunc else EntryCallerMainFunc),
               f_stack = True,
               f_cb = cb\<rparr>
      in w\<lparr>fibers := (fibers w)(a \<mapsto> f), s_fiber_id := i, s_fiber_count := s_fiber_count w + 1\<rparr>)"

definition resettable :: "fiber_state \<Rightarrow> bool" where
  "resettable s \<longleftrightarrow> s = TERMINATED \<or> s = EXCEPT \<or> s = INIT"

definition Fiber_destroy :: "nat \<Rightarrow> fiber_world \<Rightarrow> fiber_world result" where
  "Fiber_destroy this w =
     (let f = fiber_at w this;
          w1 = w\<lparr>s_fiber_count := s_fiber_count w - 1\<rparr>;
          gone = (\<lambda>w. w\<lparr>fibers := (fibers w)(this := None)\<rparr>)
      in if f_stack f then
           rbind (sylar_assert (resettable (f_state f)) ''state_ == TERM || EXCEPT || INIT'') (\<lambda>_.
           Inr (gone w1))
         else
           rbind (sylar_assert (f_cb f = None) ''!cb_'') (\<lambda>_.
           rbind (sylar_assert (f_state f = EXEC) ''state_ == EXEC'') (\<lambda>_.
           Inr (gone (if t_fiber w1 = Some this then Fiber_SetThis None w1 else w1)))))"

definition Fiber_reset :: "nat \<Rightarrow> closure option \<Rightarrow> fiber_world \<Rightarrow> fiber_world result" where
  "Fiber_reset this cb w =
     (let f = fiber_at w this in
      rbind (sylar_assert (f_stack f) ''stack_'') (\<lambda>_.
      rbind (sylar_assert (resettable (f_state f)) ''state_ == TERM || EXCEPT || INIT'') (\<lambda>_.
      Inr (upd_fiber this (\<lambda>f. f\<lparr>f_cb := cb, f_ctx := Entry EntryMainFunc, f_state := INIT\<rparr>) w))))"

section \<open>The static interface\<close>

definition Fiber_GetFiberId :: "fiber_world \<Rightarrow> u64" where
  "Fiber_GetFiberId w = (case t_fiber w of Some a \<Rightarrow> f_id (fiber_at w a) | None \<Rightarrow> 0)"

text \<open>\<open>sylar::GetFiberId()\<close> of \<open>util.cpp\<close> narrows the id to 32 bits.\<close>

definition util_GetFiberId :: "fiber_world \<Rightarrow> u32" where
  "util_GetFiberId w = ucast (Fiber_GetFiberId w)"

text \<open>\<open>GetThis\<close> creates the thread's main fiber on first use, at the address \<open>a\<close> that
  \<open>new\<close> returns.\<close>

definition Fiber_GetThis :: "nat \<Rightarrow> fiber_world \<Rightarrow> (nat \<times> fiber_world) result" where
  "Fiber_GetThis a w =
     (case t_fiber w of
        Some f \<Rightarrow> Inr (f, w)
      | None \<Rightarrow>
          let w1 = Fiber_new_main a w in
          rbind (sylar_assert (t_fiber w1 = Some a) ''t_fiber == main_fiber.get()'') (\<lambda>_.
          Inr (a, w1\<lparr>t_threadFiber := Some a\<rparr>)))"

definition Fiber_YieldToReady :: "nat \<Rightarrow> fiber_world \<Rightarrow> fiber_world result" where
  "Fiber_YieldToReady a w =
     rbind (Fiber_GetThis a w) (\<lambda>(cur, w1).
     rbind (sylar_assert (f_state (fiber_at w1 cur) = EXEC) ''cur->state_ == EXEC'') (\<lambda>_.
     Fiber_swapOut cur (upd_fiber cur (\<lambda>f. f\<lparr>f_state := READY\<rparr>) w1)))"

text \<open>Unlike the comment in \<open>fiber.h\<close>, the state stays \<open>EXEC\<close> here.\<close>

definition Fiber_YieldToHold :: "nat \<Rightarrow> fiber_world \<Rightarrow> fiber_world result" where
  "Fiber_YieldToHold a w =
     rbind (Fiber_GetThis a w) (\<lambda>(cur, w1).
     rbind (sylar_assert (f_state (fiber_at w1 cur) = EXEC) ''cur->state_ == EXEC'') (\<lambda>_.
     Fiber_swapOut cur w1))"

definition Fiber_TotalFibers :: "fiber_world \<Rightarrow> u64" where
  "Fiber_TotalFibers w = s_fiber_count w"

text \<open>
  The end of \<open>MainFunc\<close> and of \<open>CallerMainFunc\<close>, after the callback has returned
  (\<open>ok\<close>) or thrown: the current fiber becomes \<open>TERMINATED\<close> or \<open>EXCEPT\<close> and leaves its stack for
  good, to the scheduler's fiber or to the thread's own.
\<close>

definition mark_done :: "bool \<Rightarrow> fiber \<Rightarrow> fiber" where
  "mark_done ok f = (if ok then f\<lparr>f_cb := None, f_state := TERMINATED\<rparr> else f\<lparr>f_state := EXCEPT\<rparr>)"

definition Fiber_MainFunc_end :: "bool \<Rightarrow> nat \<Rightarrow> fiber_world \<Rightarrow> fiber_world result" where
  "Fiber_MainFunc_end ok a w =
     rbind (Fiber_GetThis a w) (\<lambda>(cur, w1).
     rbind (Fiber_swapOut cur (upd_fiber cur (mark_done ok) w1)) (\<lambda>w2.
     Inr (upd_fiber cur (\<lambda>f. f\<lparr>f_ctx := Finished\<rparr>) w2)))"

definition Fiber_CallerMainFunc_end :: "bool \<Rightarrow> nat \<Rightarrow> fiber_world \<Rightarrow> fiber_world result" where
  "Fiber_CallerMainFunc_end ok a w =
     rbind (Fiber_GetThis a w) (\<lambda>(cur, w1).
     rbind (Fiber_back cur (upd_fiber cur (mark_done ok) w1)) (\<lambda>w2.
     Inr (upd_fiber cur (\<lambda>f. f\<lparr>f_ctx := Finished\<rparr>) w2)))"

text \<open>\<open>Scheduler::run\<close> marks a fiber that yielded without becoming \<open>READY\<close>.\<close>

definition Fiber_set_hold :: "nat \<Rightarrow> fiber_world \<Rightarrow> fiber_world" where
  "Fiber_set_hold a w = upd_fiber a (\<lambda>f. f\<lparr>f_state := HOLD\<rparr>) w"

section \<open>Lemmas on the store\<close>

lemma fibers_upd_fiber [simp]:
  "fibers (upd_fiber a g w) = (fibers w)(a \<mapsto> g (fiber_at w a))"
  by (simp add: upd_fiber_def)

lemma upd_fiber_fields [simp]:
  "t_fiber (upd_fiber a g w) = t_fiber w" "t_threadFiber (upd_fiber a g w) = t_threadFiber w"
  "t_scheduler_fiber (upd_fiber a g w) = t_scheduler_fiber w" "control (upd_fiber a g w) = control w"
  "s_fiber_id (upd_fiber a g w) = s_fiber_id w" "s_fiber_count (upd_fiber a g w) = s_fiber_count w"
  by (simp_all add: upd_fiber_def)

lemma fiber_at_upd_fiber [simp]:
  "fiber_at (upd_fiber a g w) b = (if b = a then g (fiber_at w a) else fiber_at w b)"
  by (simp add: fiber_at_def)

lemma SetThis_fields [simp]:
  "fibers (Fiber_SetThis f w) = fibers w" "t_fiber (Fiber_SetThis f w) = f"
  "t_threadFiber (Fiber_SetThis f w) = t_threadFiber w"
  "t_scheduler_fiber (Fiber_SetThis f w) = t_scheduler_fiber w"
  "control (Fiber_SetThis f w) = control w" "s_fiber_id (Fiber_SetThis f w) = s_fiber_id w"
  "s_fiber_count (Fiber_SetThis f w) = s_fiber_count w"
  "fiber_at (Fiber_SetThis f w) a = fiber_at w a"
  by (simp_all add: Fiber_SetThis_def fiber_at_def)

lemma fiber_at_cong: "fibers w = fibers w' \<Longrightarrow> fiber_at w a = fiber_at w' a"
  by (simp add: fiber_at_def)

lemma fiber_at_control [simp]: "fiber_at (w\<lparr>control := k\<rparr>) a = fiber_at w a"
  by (simp add: fiber_at_def)

lemma deref_Inr [simp]: "deref p msg = Inr a \<longleftrightarrow> p = Some a"
  by (simp add: deref_def split: option.splits)

lemma deref_Some [simp]: "deref (Some a) msg = Inr a"
  by (simp add: deref_def)

section \<open>The control invariant\<close>

text \<open>
  The flow that runs belongs to \<open>t_fiber\<close> and its own context is the stale one; every other
  fiber's context is an entry point, its own saved flow, or finished. So a switch can never
  resume one fiber's flow through another fiber's context.
\<close>

definition own_context :: "fiber_world \<Rightarrow> nat \<Rightarrow> bool" where
  "own_context w a \<longleftrightarrow>
     (case f_ctx (fiber_at w a) of Entry e \<Rightarrow> True | Saved k \<Rightarrow> k = a | Finished \<Rightarrow> True | Stale \<Rightarrow> False)"

definition control_inv :: "fiber_world \<Rightarrow> bool" where
  "control_inv w \<longleftrightarrow>
     control w \<in> dom (fibers w) \<and> t_fiber w = Some (control w) \<and>
     f_ctx (fiber_at w (control w)) = Stale \<and>
     (\<forall>a \<in> dom (fibers w). a \<noteq> control w \<longrightarrow> own_context w a)"

lemma control_invD:
  assumes "control_inv w"
  shows "control w \<in> dom (fibers w)" and "t_fiber w = Some (control w)"
    and "f_ctx (fiber_at w (control w)) = Stale"
    and "a \<in> dom (fibers w) \<Longrightarrow> a \<noteq> control w \<Longrightarrow> own_context w a"
  using assms by (auto simp: control_inv_def)

text \<open>A switch from the running fiber to another live one succeeds unless that one has
  finished, and moves control exactly there.\<close>

lemma swapcontext_from_control:
  assumes "control_inv w" and "a \<in> dom (fibers w)" and "a \<noteq> control w"
    and "swapcontext (control w) a (w\<lparr>t_fiber := t\<rparr>) = Inr w'"
  shows "control w' = a"
    and "fibers w' = (fibers w)(control w \<mapsto> (fiber_at w (control w))\<lparr>f_ctx := Saved (control w)\<rparr>,
           a \<mapsto> (fiber_at w a)\<lparr>f_ctx := Stale\<rparr>)"
    and "t_fiber w' = t" "t_threadFiber w' = t_threadFiber w"
    "t_scheduler_fiber w' = t_scheduler_fiber w"
    "s_fiber_id w' = s_fiber_id w" "s_fiber_count w' = s_fiber_count w"
  using assms control_invD(4) [OF assms(1-3)]
  by (auto simp: swapcontext_def Let_def own_context_def fiber_at_def upd_fiber_def
      split: ucontext.splits)

lemma swapcontext_control_inv:
  assumes "control_inv w" and "a \<in> dom (fibers w)" and "a \<noteq> control w"
    and "swapcontext (control w) a (w\<lparr>t_fiber := Some a\<rparr>) = Inr w'"
  shows "control_inv w'"
proof -
  note sc = swapcontext_from_control [OF assms]
  have at: "fiber_at w' b =
      (if b = a then (fiber_at w a)\<lparr>f_ctx := Stale\<rparr>
       else if b = control w then (fiber_at w b)\<lparr>f_ctx := Saved b\<rparr> else fiber_at w b)" for b
    by (auto simp: fiber_at_def sc(2))
  have "own_context w' b" if "b \<in> dom (fibers w')" "b \<noteq> a" for b
  proof (cases "b = control w")
    case True
    with that(2) show ?thesis by (auto simp: own_context_def at)
  next
    case False
    with that have "own_context w b"
      using control_invD(4) [OF assms(1)] by (auto simp: sc(2))
    with False that(2) show ?thesis by (simp add: own_context_def at)
  qed
  then show ?thesis
    using sc(1,3) at by (auto simp: control_inv_def sc(2))
qed

text \<open>Changing the data of a fiber, but not its context, is harmless.\<close>

lemma control_inv_upd_data:
  assumes "control_inv w" and "a \<in> dom (fibers w)" and "\<And>f. f_ctx (g f) = f_ctx f"
  shows "control_inv (upd_fiber a g w)"
  using assms by (auto simp: control_inv_def own_context_def)

lemma control_inv_upd_ctx:
  assumes "control_inv w" and "a \<noteq> control w" and "own_context (upd_fiber a g w) a"
  shows "control_inv (upd_fiber a g w)"
  using assms by (auto simp: control_inv_def own_context_def)

section \<open>Steps of one thread\<close>

text \<open>
  The ways the callers use the operations: \<open>swapIn\<close> runs on the scheduler's fiber,
  \<open>call\<close> on the thread's own; a fiber yields or ends while it runs itself; only a fiber that
  is not running is reset, marked or destroyed, and the two fibers the thread-local
  pointers refer to stay alive. \<open>set_sched\<close> is the assignment to \<open>t_scheduler_fiber\<close> in
  \<open>Scheduler::Scheduler\<close> and \<open>Scheduler::run\<close>.
\<close>

inductive fiber_step :: "fiber_world \<Rightarrow> fiber_world \<Rightarrow> bool" where
  create: "fibers w a = None \<Longrightarrow> s_fiber_id w \<noteq> - 1 \<Longrightarrow>
    fiber_step w (Fiber_new a cb stacksize use_caller stack_size w)"
| set_sched: "a \<in> dom (fibers w) \<Longrightarrow> fiber_step w (w\<lparr>t_scheduler_fiber := Some a\<rparr>)"
| swap_in: "t_scheduler_fiber w = Some (control w) \<Longrightarrow> a \<in> dom (fibers w) \<Longrightarrow> a \<noteq> control w \<Longrightarrow>
    Fiber_swapIn a w = Inr w' \<Longrightarrow> fiber_step w w'"
| yield_ready: "t_scheduler_fiber w \<noteq> Some (control w) \<Longrightarrow>
    Fiber_YieldToReady a w = Inr w' \<Longrightarrow> fiber_step w w'"
| yield_hold: "t_scheduler_fiber w \<noteq> Some (control w) \<Longrightarrow>
    Fiber_YieldToHold a w = Inr w' \<Longrightarrow> fiber_step w w'"
| main_end: "t_scheduler_fiber w \<noteq> Some (control w) \<Longrightarrow>
    Fiber_MainFunc_end ok a w = Inr w' \<Longrightarrow> fiber_step w w'"
| call: "t_threadFiber w = Some (control w) \<Longrightarrow> a \<in> dom (fibers w) \<Longrightarrow> a \<noteq> control w \<Longrightarrow>
    Fiber_call a w = Inr w' \<Longrightarrow> fiber_step w w'"
| caller_end: "t_threadFiber w \<noteq> Some (control w) \<Longrightarrow>
    Fiber_CallerMainFunc_end ok a w = Inr w' \<Longrightarrow> fiber_step w w'"
| hold: "a \<in> dom (fibers w) \<Longrightarrow> a \<noteq> control w \<Longrightarrow> f_state (fiber_at w a) = EXEC \<Longrightarrow>
    fiber_step w (Fiber_set_hold a w)"
| reset: "a \<in> dom (fibers w) \<Longrightarrow> a \<noteq> control w \<Longrightarrow> Fiber_reset a cb w = Inr w' \<Longrightarrow> fiber_step w w'"
| destroy: "a \<in> dom (fibers w) \<Longrightarrow> a \<noteq> control w \<Longrightarrow> t_scheduler_fiber w \<noteq> Some a \<Longrightarrow>
    t_threadFiber w \<noteq> Some a \<Longrightarrow> Fiber_destroy a w = Inr w' \<Longrightarrow> fiber_step w w'"

definition empty_world :: fiber_world where
  "empty_world = \<lparr>fibers = Map.empty, s_fiber_id = 0, s_fiber_count = 0, t_fiber = None,
     t_threadFiber = None, t_scheduler_fiber = None, control = 0\<rparr>"

text \<open>A thread after its first \<open>Fiber::GetThis()\<close>: its own stack is running.\<close>

definition thread_start :: "nat \<Rightarrow> fiber_world" where
  "thread_start a = (Fiber_new_main a empty_world)\<lparr>t_threadFiber := Some a, control := a\<rparr>"

inductive fiber_reachable :: "fiber_world \<Rightarrow> bool" where
  start: "fiber_reachable (thread_start a)"
| step: "fiber_reachable w \<Longrightarrow> fiber_step w w' \<Longrightarrow> fiber_reachable w'"

section \<open>Identity and accounting\<close>

definition pointers_inv :: "fiber_world \<Rightarrow> bool" where
  "pointers_inv w \<longleftrightarrow>
     (\<forall>a. t_scheduler_fiber w = Some a \<longrightarrow> a \<in> dom (fibers w)) \<and>
     (\<forall>a. t_threadFiber w = Some a \<longrightarrow> a \<in> dom (fibers w))"

definition ident_inv :: "fiber_world \<Rightarrow> bool" where
  "ident_inv w \<longleftrightarrow>
     finite (dom (fibers w)) \<and> s_fiber_count w = of_nat (card (dom (fibers w))) \<and>
     (\<forall>a \<in> dom (fibers w). f_stack (fiber_at w a) \<longrightarrow>
        f_id (fiber_at w a) \<noteq> 0 \<and> f_id (fiber_at w a) \<le> s_fiber_id w) \<and>
     (\<forall>a \<in> dom (fibers w). \<forall>b \<in> dom (fibers w).
        f_stack (fiber_at w a) \<and> f_stack (fiber_at w b) \<and>
        f_id (fiber_at w a) = f_id (fiber_at w b) \<longrightarrow> a = b)"

text \<open>The steps that only switch or mark fibers keep the population as it is.\<close>

definition same_population :: "fiber_world \<Rightarrow> fiber_world \<Rightarrow> bool" where
  "same_population w w' \<longleftrightarrow>
     dom (fibers w') = dom (fibers w) \<and>
     (\<forall>a. f_id (fiber_at w' a) = f_id (fiber_at w a) \<and>
          f_stack (fiber_at w' a) = f_stack (fiber_at w a)) \<and>
     s_fiber_id w' = s_fiber_id w \<and> s_fiber_count w' = s_fiber_count w \<and>
     t_threadFiber w' = t_threadFiber w \<and> t_scheduler_fiber w' = t_scheduler_fiber w"

lemma same_population_trans:
  "same_population w w' \<Longrightarrow> same_population w' w'' \<Longrightarrow> same_population w w''"
  by (simp add: same_population_def)

lemma same_population_inv:
  "same_population w w' \<Longrightarrow> ident_inv w \<and> pointers_inv w \<Longrightarrow> ident_inv w' \<and> pointers_inv w'"
  by (simp add: same_population_def ident_inv_def pointers_inv_def)

lemma upd_fiber_population:
  "a \<in> dom (fibers w) \<Longrightarrow> f_id (g (fiber_at w a)) = f_id (fiber_at w a) \<Longrightarrow>
   f_stack (g (fiber_at w a)) = f_stack (fiber_at w a) \<Longrightarrow> same_population w (upd_fiber a g w)"
  by (auto simp: same_population_def)

lemma SetThis_population: "same_population w (Fiber_SetThis f w)"
  by (simp add: same_population_def)

text \<open>\<open>GetThis\<close> on a thread that has a current fiber returns it and changes nothing.\<close>

lemma GetThis_control:
  "control_inv w \<Longrightarrow> Fiber_GetThis a w = Inr (control w, w)"
  by (simp add: Fiber_GetThis_def control_invD(2))

lemma SetThis_conv: "Fiber_SetThis t w = w\<lparr>t_fiber := t\<rparr>"
  by (simp add: Fiber_SetThis_def)

text \<open>One switch away from the running fiber, from a state in which the data of a fiber has
  just been changed.\<close>

lemma switch_step:
  assumes ctl: "control_inv w" and a: "a \<in> dom (fibers w)" "a \<noteq> control w"
    and sw: "swapcontext (control w) a (Fiber_SetThis (Some a) w) = Inr w'"
  shows "control_inv w'" and "same_population w w'"
    and "f_state (fiber_at w' b) = f_state (fiber_at w b)"
    and "f_ctx (fiber_at w' b) =
      (if b = a then Stale else if b = control w then Saved b else f_ctx (fiber_at w b))"
    and "control w' = a" and "f_ctx (fiber_at w a) \<noteq> Finished"
proof -
  note sw' = sw [unfolded SetThis_conv]
  note sc = swapcontext_from_control [OF ctl a sw']
  show "control_inv w'" by (rule swapcontext_control_inv [OF ctl a sw'])
  show "same_population w w'"
    using a control_invD(1) [OF ctl] by (auto simp: same_population_def sc fiber_at_def)
  show "f_state (fiber_at w' b) = f_state (fiber_at w b)"
    by (simp add: sc(2) fiber_at_def)
  show "f_ctx (fiber_at w' b) =
      (if b = a then Stale else if b = control w then Saved b else f_ctx (fiber_at w b))"
    by (auto simp: sc(2) fiber_at_def)
  show "control w' = a" by (rule sc(1))
  show "f_ctx (fiber_at w a) \<noteq> Finished"
    using sw a(2) by (auto simp: swapcontext_def Let_def)
qed

section \<open>Life cycle\<close>

text \<open>A fiber is in \<open>TERM\<close> or \<open>EXCEPT\<close> exactly when its context has finished.\<close>

definition ended :: "fiber_state \<Rightarrow> bool" where
  "ended s \<longleftrightarrow> s = TERMINATED \<or> s = EXCEPT"

definition life_inv :: "fiber_world \<Rightarrow> bool" where
  "life_inv w \<longleftrightarrow> (\<forall>a \<in> dom (fibers w).
     ended (f_state (fiber_at w a)) \<longleftrightarrow> f_ctx (fiber_at w a) = Finished)"

definition fiber_inv :: "fiber_world \<Rightarrow> bool" where
  "fiber_inv w \<longleftrightarrow> control_inv w \<and> ident_inv w \<and> pointers_inv w \<and> life_inv w"

lemma fiber_invD:
  assumes "fiber_inv w"
  shows "control_inv w" "ident_inv w" "pointers_inv w" "life_inv w"
  using assms by (simp_all add: fiber_inv_def)

text \<open>The transitions of one fiber's state.\<close>

definition legal_change :: "fiber_state \<Rightarrow> fiber_state \<Rightarrow> bool" where
  "legal_change s s' \<longleftrightarrow>
     s' = s \<or>
     s \<in> {INIT, HOLD, READY} \<and> s' = EXEC \<or>
     s = EXEC \<and> s' \<in> {READY, HOLD} \<or>
     s \<in> {EXEC, INIT, HOLD, READY} \<and> s' \<in> {TERMINATED, EXCEPT} \<or>
     s \<in> {TERMINATED, EXCEPT} \<and> s' = INIT"

lemma upd_fiber_SetThis: "upd_fiber a g (Fiber_SetThis t w) = Fiber_SetThis t (upd_fiber a g w)"
  by (simp add: upd_fiber_def Fiber_SetThis_def fiber_at_def)

lemma switch_life_inv:
  assumes ctl: "control_inv w" and a: "a \<in> dom (fibers w)" "a \<noteq> control w"
    and sw: "swapcontext (control w) a (Fiber_SetThis (Some a) w) = Inr w'" and life: "life_inv w"
  shows "life_inv w'"
proof -
  note st = switch_step [OF ctl a sw]
  have "dom (fibers w') = dom (fibers w)"
    using st(2) by (simp add: same_population_def)
  moreover have "\<not> ended (f_state (fiber_at w (control w)))" "\<not> ended (f_state (fiber_at w a))"
    using life control_invD(1,3) [OF ctl] a(1) st(6) by (auto simp: life_inv_def)
  ultimately show ?thesis
    using life by (auto simp: life_inv_def st(3,4))
qed

lemma swapIn_step:
  assumes inv: "fiber_inv w" and sched: "t_scheduler_fiber w = Some (control w)"
    and a: "a \<in> dom (fibers w)" "a \<noteq> control w" and sw: "Fiber_swapIn a w = Inr w'"
  shows "control_inv w'" "same_population w w'" "control w' = a"
    "f_state (fiber_at w' b) = (if b = a then EXEC else f_state (fiber_at w b))"
    "f_state (fiber_at w a) \<in> {INIT, HOLD, READY}" "life_inv w'"
proof -
  note ctl = fiber_invD(1) [OF inv]
  let ?w = "upd_fiber a (\<lambda>f. f\<lparr>f_state := EXEC\<rparr>) w"
  have ne: "f_state (fiber_at w a) \<noteq> EXEC"
    and sw1: "swapcontext (control w) a (Fiber_SetThis (Some a) ?w) = Inr w'"
    using sw sched by (auto simp: Fiber_swapIn_def Let_def result_simps upd_fiber_SetThis)
  have pop: "same_population w ?w"
    using a(1) by (intro upd_fiber_population) simp_all
  have "control_inv ?w" and dom: "a \<in> dom (fibers ?w)"
    using control_inv_upd_data [OF ctl a(1)] by simp_all
  note st = switch_step [of ?w, OF this, simplified, OF a(2) sw1]
  show "control_inv w'" "control w' = a" using st(1,5) by simp_all
  show "same_population w w'" using pop st(2) by (rule same_population_trans)
  show states: "f_state (fiber_at w' b) = (if b = a then EXEC else f_state (fiber_at w b))" for b
    using st(3) [of b] by simp
  have notfin: "f_ctx (fiber_at w a) \<noteq> Finished"
    using st(6) by simp
  then have live: "\<not> ended (f_state (fiber_at w a))"
    using fiber_invD(4) [OF inv] a(1) by (simp add: life_inv_def)
  with ne show "f_state (fiber_at w a) \<in> {INIT, HOLD, READY}"
    by (cases "f_state (fiber_at w a)") (auto simp: ended_def)
  have "life_inv ?w"
    using fiber_invD(4) [OF inv] notfin by (auto simp: life_inv_def ended_def)
  then show "life_inv w'"
    using \<open>control_inv ?w\<close> dom a(2) sw1 switch_life_inv [of ?w a w'] by simp
qed

text \<open>Leaving the running fiber for the fiber a thread-local pointer refers to, after its
  own data has been changed by \<open>g\<close>: the common part of the two yields and of the two
  main functions.\<close>

lemma leave_step:
  assumes inv: "fiber_inv w" and s: "s \<in> dom (fibers w)" "s \<noteq> control w"
    and g: "\<And>f. f_ctx (g f) = f_ctx f" "\<And>f. f_id (g f) = f_id f" "\<And>f. f_stack (g f) = f_stack f"
    and sw: "swapcontext (control w) s
      (Fiber_SetThis (Some s) (upd_fiber (control w) g w)) = Inr w'"
  shows "control_inv w'" "same_population w w'" "control w' = s"
    "f_state (fiber_at w' b) =
       (if b = control w then f_state (g (fiber_at w b)) else f_state (fiber_at w b))"
    "f_ctx (fiber_at w' b) =
      (if b = s then Stale else if b = control w then Saved b else f_ctx (fiber_at w b))"
    "f_ctx (fiber_at w s) \<noteq> Finished"
proof -
  note ctl = fiber_invD(1) [OF inv]
  note c = control_invD(1) [OF ctl]
  let ?w = "upd_fiber (control w) g w"
  have "control_inv ?w" "s \<in> dom (fibers ?w)"
    using control_inv_upd_data [OF ctl c g(1)] s(1) by simp_all
  note st = switch_step [of ?w s, OF this, simplified, OF s(2) sw]
  have "same_population w ?w"
    using c g(2,3) by (intro upd_fiber_population) simp_all
  then show "same_population w w'" using st(2) by (rule same_population_trans)
  show "control_inv w'" "control w' = s" using st(1,5) by simp_all
  show "f_state (fiber_at w' b) =
       (if b = control w then f_state (g (fiber_at w b)) else f_state (fiber_at w b))"
    using st(3) [of b] by (simp split: if_splits)
  show "f_ctx (fiber_at w' b) =
      (if b = s then Stale else if b = control w then Saved b else f_ctx (fiber_at w b))"
    using st(4) [of b] by (simp split: if_splits)
  show "f_ctx (fiber_at w s) \<noteq> Finished" using st(6) s(2) by simp
qed

lemma running_not_ended: "fiber_inv w \<Longrightarrow> \<not> ended (f_state (fiber_at w (control w)))"
  using fiber_invD(1,4) [of w] control_invD(1,3) [of w] by (auto simp: life_inv_def)

lemma leave_life_inv:
  assumes inv: "fiber_inv w" and s: "s \<in> dom (fibers w)" "s \<noteq> control w"
    and g: "\<And>f. f_ctx (g f) = f_ctx f" "\<And>f. f_id (g f) = f_id f" "\<And>f. f_stack (g f) = f_stack f"
    and sw: "swapcontext (control w) s
      (Fiber_SetThis (Some s) (upd_fiber (control w) g w)) = Inr w'"
  shows "\<not> ended (f_state (g (fiber_at w (control w)))) \<Longrightarrow> life_inv w'"
    and "ended (f_state (g (fiber_at w (control w)))) \<Longrightarrow>
      life_inv (upd_fiber (control w) (\<lambda>f. f\<lparr>f_ctx := Finished\<rparr>) w')"
proof -
  note st = leave_step [OF inv s g sw]
  note life = fiber_invD(4) [OF inv]
  have "dom (fibers w') = dom (fibers w)"
    using st(2) by (simp add: same_population_def)
  moreover have "\<not> ended (f_state (fiber_at w s))"
    using life s(1) st(6) by (auto simp: life_inv_def)
  ultimately show "\<not> ended (f_state (g (fiber_at w (control w)))) \<Longrightarrow> life_inv w'"
    and "ended (f_state (g (fiber_at w (control w)))) \<Longrightarrow>
      life_inv (upd_fiber (control w) (\<lambda>f. f\<lparr>f_ctx := Finished\<rparr>) w')"
    using life s(2) by (auto simp: life_inv_def st(4,5))
qed

lemma mark_done_simps [simp]:
  "f_ctx (mark_done ok f) = f_ctx f" "f_id (mark_done ok f) = f_id f"
  "f_stack (mark_done ok f) = f_stack f"
  "f_state (mark_done ok f) = (if ok then TERMINATED else EXCEPT)"
  by (simp_all add: mark_done_def)

lemma YieldToReady_leaves:
  assumes "fiber_inv w" and "Fiber_YieldToReady a w = Inr w'"
  obtains s where "t_scheduler_fiber w = Some s" and "f_state (fiber_at w (control w)) = EXEC"
    and "swapcontext (control w) s (Fiber_SetThis (Some s)
      (upd_fiber (control w) (\<lambda>f. f\<lparr>f_state := READY\<rparr>) w)) = Inr w'"
  using assms by (auto simp: Fiber_YieldToReady_def GetThis_control fiber_invD result_simps
      Fiber_swapOut_def Let_def)

lemma YieldToHold_leaves:
  assumes "fiber_inv w" and "Fiber_YieldToHold a w = Inr w'"
  obtains s where "t_scheduler_fiber w = Some s" and "f_state (fiber_at w (control w)) = EXEC"
    and "swapcontext (control w) s (Fiber_SetThis (Some s) (upd_fiber (control w) id w)) = Inr w'"
proof -
  have "upd_fiber (control w) id w = w"
    using control_invD(1) [OF fiber_invD(1) [OF assms(1)]]
    by (auto simp: upd_fiber_def fiber_at_def fun_upd_idem split: option.splits)
  with assms that show ?thesis
    by (auto simp: Fiber_YieldToHold_def GetThis_control fiber_invD result_simps
        Fiber_swapOut_def Let_def)
qed

lemma MainFunc_end_leaves:
  assumes "fiber_inv w" and "Fiber_MainFunc_end ok a w = Inr w'"
  obtains s w1 where "t_scheduler_fiber w = Some s"
    and "swapcontext (control w) s (Fiber_SetThis (Some s) (upd_fiber (control w) (mark_done ok) w))
      = Inr w1"
    and "w' = upd_fiber (control w) (\<lambda>f. f\<lparr>f_ctx := Finished\<rparr>) w1"
  using assms by (auto simp: Fiber_MainFunc_end_def GetThis_control fiber_invD result_simps
      Fiber_swapOut_def Let_def)

lemma CallerMainFunc_end_leaves:
  assumes "fiber_inv w" and "Fiber_CallerMainFunc_end ok a w = Inr w'"
  obtains s w1 where "t_threadFiber w = Some s"
    and "swapcontext (control w) s (Fiber_SetThis (Some s) (upd_fiber (control w) (mark_done ok) w))
      = Inr w1"
    and "w' = upd_fiber (control w) (\<lambda>f. f\<lparr>f_ctx := Finished\<rparr>) w1"
  using assms by (auto simp: Fiber_CallerMainFunc_end_def GetThis_control fiber_invD result_simps
      Fiber_back_def Let_def)

text \<open>Ending the running fiber.\<close>

lemma end_step:
  assumes inv: "fiber_inv w" and s: "s \<in> dom (fibers w)" "s \<noteq> control w"
    and sw: "swapcontext (control w) s
      (Fiber_SetThis (Some s) (upd_fiber (control w) (mark_done ok) w)) = Inr w1"
    and w': "w' = upd_fiber (control w) (\<lambda>f. f\<lparr>f_ctx := Finished\<rparr>) w1"
  shows "fiber_inv w'" and "same_population w w'" and "control w' = s"
    and "f_state (fiber_at w' b) =
      (if b = control w then (if ok then TERMINATED else EXCEPT) else f_state (fiber_at w b))"
proof -
  note st = leave_step [OF inv s mark_done_simps(1-3) sw]
  have dom: "control w \<in> dom (fibers w1)"
    using st(2) control_invD(1) [OF fiber_invD(1) [OF inv]] by (auto simp: same_population_def)
  have "same_population w1 w'"
    unfolding w' using dom by (intro upd_fiber_population) simp_all
  with st(2) show pop: "same_population w w'" by (rule same_population_trans)
  have "control_inv w'"
    unfolding w' using st(1,3) s(2) by (intro control_inv_upd_ctx) (auto simp: own_context_def)
  moreover have "life_inv w'"
    unfolding w' by (rule leave_life_inv(2) [OF inv s mark_done_simps(1-3) sw]) (simp add: ended_def)
  ultimately show "fiber_inv w'"
    using same_population_inv [OF pop] fiber_invD(2,3) [OF inv] by (simp add: fiber_inv_def)
  show "control w' = s" by (simp add: w' st(3))
  show "f_state (fiber_at w' b) =
      (if b = control w then (if ok then TERMINATED else EXCEPT) else f_state (fiber_at w b))"
    using st(4) [of b] by (cases "b = control w") (simp_all add: w')
qed

section \<open>Every step keeps the invariant and changes states legally\<close>

definition legal_world :: "fiber_world \<Rightarrow> fiber_world \<Rightarrow> bool" where
  "legal_world w w' \<longleftrightarrow> (\<forall>a \<in> dom (fibers w) \<inter> dom (fibers w').
     legal_change (f_state (fiber_at w a)) (f_state (fiber_at w' a)))"

lemma word_Suc_bounds:
  fixes i :: u64
  assumes "i \<noteq> - 1"
  shows "i + 1 \<noteq> 0" "i < i + 1" "x \<le> i \<Longrightarrow> x \<le> i + 1 \<and> x \<noteq> i + 1"
proof -
  have "unat i \<noteq> unat (- 1 :: u64)" using assms by (simp add: word_unat_eq_iff)
  then have "unat i + 1 < 2 ^ 64"
    using unat_bound [of i] by (simp add: unsigned_minus_1_eq_mask mask_eq_exp_minus_1)
  then have un: "unat (i + 1) = unat i + 1"
    using word_plus_no_wrap(2) [of i 1] by simp
  then show "i + 1 \<noteq> 0" by force
  from un show "i < i + 1" by (simp add: word_less_nat_alt)
  then show "x \<le> i \<Longrightarrow> x \<le> i + 1 \<and> x \<noteq> i + 1" by auto
qed

lemma ident_invD:
  assumes "ident_inv w"
  shows "finite (dom (fibers w))" "s_fiber_count w = of_nat (card (dom (fibers w)))"
    "a \<in> dom (fibers w) \<Longrightarrow> f_stack (fiber_at w a) \<Longrightarrow>
      f_id (fiber_at w a) \<noteq> 0 \<and> f_id (fiber_at w a) \<le> s_fiber_id w"
    "a \<in> dom (fibers w) \<Longrightarrow> b \<in> dom (fibers w) \<Longrightarrow> f_stack (fiber_at w a) \<Longrightarrow>
      f_stack (fiber_at w b) \<Longrightarrow> f_id (fiber_at w a) = f_id (fiber_at w b) \<Longrightarrow> a = b"
  using assms by (simp_all add: ident_inv_def)

lemma create_inv:
  assumes inv: "fiber_inv w" and new: "fibers w a = None" and ids: "s_fiber_id w \<noteq> - 1"
  shows "fiber_inv (Fiber_new a cb stacksize use_caller stack_size w)" (is "fiber_inv ?w")
    and "legal_world w (Fiber_new a cb stacksize use_caller stack_size w)"
proof -
  note b = word_Suc_bounds [OF ids]
  have at: "c \<in> dom (fibers w) \<Longrightarrow> fiber_at ?w c = fiber_at w c" for c
    using new by (auto simp: Fiber_new_def Let_def fiber_at_def)
  have ata: "f_id (fiber_at ?w a) = s_fiber_id w + 1" "f_state (fiber_at ?w a) = INIT"
    "\<exists>e. f_ctx (fiber_at ?w a) = Entry e" "f_stack (fiber_at ?w a)"
    by (simp_all add: Fiber_new_def Let_def fiber_at_def)
  have fields: "dom (fibers ?w) = insert a (dom (fibers w))" "t_fiber ?w = t_fiber w"
    "control ?w = control w" "s_fiber_id ?w = s_fiber_id w + 1"
    "s_fiber_count ?w = s_fiber_count w + 1" "t_scheduler_fiber ?w = t_scheduler_fiber w"
    "t_threadFiber ?w = t_threadFiber w"
    by (auto simp: Fiber_new_def Let_def)
  have notin: "a \<notin> dom (fibers w)" "a \<noteq> control w"
    using new control_invD(1) [OF fiber_invD(1) [OF inv]] by auto
  have "control_inv ?w"
    using fiber_invD(1) [OF inv] ata(3) notin at
    by (auto simp: control_inv_def own_context_def fields iff del: domIff)
  moreover have "ident_inv ?w"
  proof -
    note ids = ident_invD [OF fiber_invD(2) [OF inv]]
    have newid: "f_id (fiber_at w c) \<noteq> s_fiber_id w + 1 \<and> f_id (fiber_at w c) \<le> s_fiber_id w + 1 \<and>
        f_id (fiber_at w c) \<noteq> 0"
      if "c \<in> dom (fibers w)" "f_stack (fiber_at w c)" for c
      using ids(3) [OF that] b(3) by blast
    have "c = d" if "c \<in> insert a (dom (fibers w))" "d \<in> insert a (dom (fibers w))"
      "f_stack (fiber_at ?w c)" "f_stack (fiber_at ?w d)"
      "f_id (fiber_at ?w c) = f_id (fiber_at ?w d)" for c d
      using that ids(4) newid ata(1) at by (metis insertE)
    moreover have "f_id (fiber_at ?w c) \<noteq> 0 \<and> f_id (fiber_at ?w c) \<le> s_fiber_id w + 1"
      if "c \<in> insert a (dom (fibers w))" "f_stack (fiber_at ?w c)" for c
      using that newid ata(1) at b(1) by (metis insertE order_refl)
    ultimately show ?thesis
      using ids(1,2) notin(1) unfolding ident_inv_def fields by (simp add: card_insert_if)
  qed
  moreover have "pointers_inv ?w"
    using fiber_invD(3) [OF inv] by (auto simp: pointers_inv_def fields)
  moreover have "life_inv ?w"
    using fiber_invD(4) [OF inv] ata at notin(1)
    by (auto simp: life_inv_def fields ended_def iff del: domIff)
  ultimately show "fiber_inv ?w" by (simp add: fiber_inv_def)
  show "legal_world w ?w"
    using at notin(1) by (auto simp: legal_world_def legal_change_def fields iff del: domIff)
qed

lemma destroy_inv:
  assumes inv: "fiber_inv w" and a: "a \<in> dom (fibers w)" "a \<noteq> control w"
    and ptr: "t_scheduler_fiber w \<noteq> Some a" "t_threadFiber w \<noteq> Some a"
    and res: "Fiber_destroy a w = Inr w'"
  shows "fiber_inv w'" and "legal_world w w'"
proof -
  have w': "w' = w\<lparr>s_fiber_count := s_fiber_count w - 1, fibers := (fibers w)(a := None)\<rparr>"
    using res a(2) control_invD(2) [OF fiber_invD(1) [OF inv]]
    by (auto simp: Fiber_destroy_def Let_def result_simps split: if_splits)
  have at: "c \<noteq> a \<Longrightarrow> fiber_at w' c = fiber_at w c" for c
    by (simp add: w' fiber_at_def)
  have dom: "dom (fibers w') = dom (fibers w) - {a}" "t_fiber w' = t_fiber w"
    "control w' = control w" "s_fiber_id w' = s_fiber_id w"
    "s_fiber_count w' = s_fiber_count w - 1" "t_scheduler_fiber w' = t_scheduler_fiber w"
    "t_threadFiber w' = t_threadFiber w"
    by (auto simp: w')
  note ids = ident_invD [OF fiber_invD(2) [OF inv]]
  have "0 < card (dom (fibers w))"
    using a(1) ids(1) card_gt_0_iff by blast
  then have cnt: "s_fiber_count w - 1 = of_nat (card (dom (fibers w) - {a}))"
    using a(1) by (simp add: ids(2) card_Diff_singleton of_nat_diff)
  have "control_inv w'"
    using fiber_invD(1) [OF inv] a(2) at
    by (simp add: control_inv_def own_context_def dom)
  moreover have "ident_inv w'"
    using ids(1,3,4) cnt at unfolding ident_inv_def dom by (auto iff del: domIff)
  moreover have "pointers_inv w'"
    using fiber_invD(3) [OF inv] ptr by (auto simp: pointers_inv_def dom)
  moreover have "life_inv w'"
    using fiber_invD(4) [OF inv] at by (simp add: life_inv_def dom)
  ultimately show "fiber_inv w'" by (simp add: fiber_inv_def)
  show "legal_world w w'"
    using at by (auto simp: legal_world_def legal_change_def dom)
qed

text \<open>Changing a fiber that is not running.\<close>

lemma upd_other_inv:
  assumes inv: "fiber_inv w" and a: "a \<in> dom (fibers w)" "a \<noteq> control w"
    and g: "f_id (g (fiber_at w a)) = f_id (fiber_at w a)"
      "f_stack (g (fiber_at w a)) = f_stack (fiber_at w a)"
      "own_context (upd_fiber a g w) a"
      "ended (f_state (g (fiber_at w a))) \<longleftrightarrow> f_ctx (g (fiber_at w a)) = Finished"
      "legal_change (f_state (fiber_at w a)) (f_state (g (fiber_at w a)))"
  shows "fiber_inv (upd_fiber a g w)" and "legal_world w (upd_fiber a g w)"
proof -
  have pop: "same_population w (upd_fiber a g w)"
    using a(1) g(1,2) by (intro upd_fiber_population) simp_all
  have "control_inv (upd_fiber a g w)"
    using fiber_invD(1) [OF inv] a(2) g(3) by (rule control_inv_upd_ctx)
  moreover have "life_inv (upd_fiber a g w)"
    using fiber_invD(4) [OF inv] g(4) by (auto simp: life_inv_def)
  ultimately show "fiber_inv (upd_fiber a g w)"
    using same_population_inv [OF pop] fiber_invD(2,3) [OF inv] by (simp add: fiber_inv_def)
  show "legal_world w (upd_fiber a g w)"
    using g(5) by (auto simp: legal_world_def legal_change_def)
qed

lemma reset_inv:
  assumes inv: "fiber_inv w" and a: "a \<in> dom (fibers w)" "a \<noteq> control w"
    and res: "Fiber_reset a cb w = Inr w'"
  shows "fiber_inv w' \<and> legal_world w w'"
proof -
  have "resettable (f_state (fiber_at w a))"
    and "w' = upd_fiber a (\<lambda>f. f\<lparr>f_cb := cb, f_ctx := Entry EntryMainFunc, f_state := INIT\<rparr>) w"
    using res by (auto simp: Fiber_reset_def Let_def result_simps)
  then show ?thesis
    using upd_other_inv [OF inv a]
    by (auto simp: own_context_def ended_def legal_change_def resettable_def)
qed

lemma hold_inv:
  assumes inv: "fiber_inv w" and a: "a \<in> dom (fibers w)" "a \<noteq> control w"
    and "f_state (fiber_at w a) = EXEC"
  shows "fiber_inv (Fiber_set_hold a w) \<and> legal_world w (Fiber_set_hold a w)"
proof -
  have "own_context w a" using fiber_invD(1) [OF inv] a by (rule control_invD(4))
  moreover have "f_ctx (fiber_at w a) \<noteq> Finished"
    using fiber_invD(4) [OF inv] a(1) assms(4) unfolding life_inv_def
    by (metis ended_def fiber_state.distinct(19) fiber_state.distinct(23))
  ultimately show ?thesis
    using upd_other_inv [OF inv a] assms(4)
    by (auto simp: Fiber_set_hold_def own_context_def ended_def legal_change_def)
qed

lemma population_dom: "same_population w w' \<Longrightarrow> dom (fibers w') = dom (fibers w)"
  by (simp add: same_population_def)

lemma fiber_inv_from_switch:
  "fiber_inv w \<Longrightarrow> control_inv w' \<Longrightarrow> same_population w w' \<Longrightarrow> life_inv w' \<Longrightarrow> fiber_inv w'"
  using same_population_inv by (simp add: fiber_inv_def)

lemma scheduler_fiber_live:
  "fiber_inv w \<Longrightarrow> t_scheduler_fiber w = Some s \<Longrightarrow> s \<in> dom (fibers w)"
  "fiber_inv w \<Longrightarrow> t_threadFiber w = Some s \<Longrightarrow> s \<in> dom (fibers w)"
  by (auto simp: fiber_inv_def pointers_inv_def)

lemma end_legal:
  assumes inv: "fiber_inv w" and "same_population w w'"
    and "\<And>b. f_state (fiber_at w' b) =
      (if b = control w then (if ok then TERMINATED else EXCEPT) else f_state (fiber_at w b))"
  shows "legal_world w w'"
  using running_not_ended [OF inv] assms(3)
  by (cases "f_state (fiber_at w (control w))")
    (auto simp: legal_world_def legal_change_def ended_def)

lemma fiber_step_inv:
  assumes "fiber_step w w'" and inv: "fiber_inv w"
  shows "fiber_inv w' \<and> legal_world w w'"
  using assms(1)
proof (cases rule: fiber_step.cases)
  case (create a cb stacksize use_caller stack_size)
  with create_inv [OF inv] show ?thesis by simp
next
  case (set_sched a)
  then have at: "fiber_at w' = fiber_at w" by (simp add: fiber_at_def fun_eq_iff)
  with set_sched inv show ?thesis
    by (simp add: fiber_inv_def control_inv_def own_context_def ident_inv_def pointers_inv_def
        life_inv_def legal_world_def legal_change_def fiber_at_def)
next
  case (swap_in a)
  note st = swapIn_step [OF inv swap_in(1-4)]
  from st(5) have "legal_world w w'"
    by (auto simp: legal_world_def legal_change_def st(4))
  with fiber_inv_from_switch [OF inv st(1,2,6)] show ?thesis by simp
next
  case (yield_ready a)
  obtain s where s: "t_scheduler_fiber w = Some s" and ex: "f_state (fiber_at w (control w)) = EXEC"
    and sw: "swapcontext (control w) s (Fiber_SetThis (Some s)
      (upd_fiber (control w) (\<lambda>f. f\<lparr>f_state := READY\<rparr>) w)) = Inr w'"
    using YieldToReady_leaves [OF inv yield_ready(2)] .
  have ne: "s \<noteq> control w" using yield_ready(1) s by simp
  note dom = scheduler_fiber_live(1) [OF inv s]
  note st = leave_step [OF inv dom ne _ _ _ sw, simplified]
  have "life_inv w'"
    using leave_life_inv(1) [OF inv dom ne _ _ _ sw] by (simp add: ended_def)
  moreover have "legal_world w w'"
    using ex by (auto simp: legal_world_def legal_change_def st(4))
  ultimately show ?thesis
    using fiber_inv_from_switch [OF inv st(1,2)] by simp
next
  case (yield_hold a)
  obtain s where s: "t_scheduler_fiber w = Some s"
    and sw: "swapcontext (control w) s (Fiber_SetThis (Some s) (upd_fiber (control w) id w)) = Inr w'"
    using YieldToHold_leaves [OF inv yield_hold(2)] .
  have ne: "s \<noteq> control w" using yield_hold(1) s by simp
  note dom = scheduler_fiber_live(1) [OF inv s]
  note st = leave_step [OF inv dom ne _ _ _ sw, simplified]
  have "life_inv w'"
    using leave_life_inv(1) [OF inv dom ne _ _ _ sw] running_not_ended [OF inv] by simp
  moreover have "legal_world w w'"
    by (auto simp: legal_world_def legal_change_def st(4))
  ultimately show ?thesis
    using fiber_inv_from_switch [OF inv st(1,2)] by simp
next
  case (main_end ok a)
  obtain s w1 where s: "t_scheduler_fiber w = Some s"
    and sw: "swapcontext (control w) s (Fiber_SetThis (Some s)
      (upd_fiber (control w) (mark_done ok) w)) = Inr w1"
    and w': "w' = upd_fiber (control w) (\<lambda>f. f\<lparr>f_ctx := Finished\<rparr>) w1"
    using MainFunc_end_leaves [OF inv main_end(2)] .
  have "s \<noteq> control w" using main_end(1) s by simp
  note st = end_step [OF inv scheduler_fiber_live(1) [OF inv s] this sw w']
  with end_legal [OF inv st(2,4)] show ?thesis by simp
next
  case (call a)
  have sw: "swapcontext (control w) a (Fiber_SetThis (Some a) w) = Inr w'"
    using call by (simp add: Fiber_call_def Let_def)
  note st = switch_step [OF fiber_invD(1) [OF inv] call(2,3) sw]
  have "life_inv w'"
    by (rule switch_life_inv [OF fiber_invD(1) [OF inv] call(2,3) sw fiber_invD(4) [OF inv]])
  moreover have "legal_world w w'"
    by (auto simp: legal_world_def legal_change_def st(3))
  ultimately show ?thesis
    using fiber_inv_from_switch [OF inv st(1,2)] by simp
next
  case (caller_end ok a)
  obtain s w1 where s: "t_threadFiber w = Some s"
    and sw: "swapcontext (control w) s (Fiber_SetThis (Some s)
      (upd_fiber (control w) (mark_done ok) w)) = Inr w1"
    and w': "w' = upd_fiber (control w) (\<lambda>f. f\<lparr>f_ctx := Finished\<rparr>) w1"
    using CallerMainFunc_end_leaves [OF inv caller_end(2)] .
  have "s \<noteq> control w" using caller_end(1) s by simp
  note st = end_step [OF inv scheduler_fiber_live(2) [OF inv s] this sw w']
  with end_legal [OF inv st(2,4)] show ?thesis by simp
next
  case (hold a)
  with hold_inv [OF inv] show ?thesis by simp
next
  case (reset a cb)
  with reset_inv [OF inv] show ?thesis by simp
next
  case (destroy a)
  with destroy_inv [OF inv] show ?thesis by simp
qed

lemma thread_start_inv: "fiber_inv (thread_start a)"
  by (simp add: fiber_inv_def control_inv_def ident_inv_def pointers_inv_def life_inv_def
      thread_start_def Fiber_new_main_def empty_world_def Let_def null_fiber_def fiber_at_def
      ended_def Fiber_SetThis_def)

lemma fiber_reachable_inv: "fiber_reachable w \<Longrightarrow> fiber_inv w"
  by (induction rule: fiber_reachable.induct) (use thread_start_inv fiber_step_inv in blast)+

section \<open>Properties\<close>

lemma swapIn_result:
  assumes inv: "fiber_inv w" and sched: "t_scheduler_fiber w = Some (control w)"
    and a: "a \<in> dom (fibers w)" "a \<noteq> control w" and st: "f_state (fiber_at w a) \<in> {INIT, HOLD, READY}"
  shows "\<exists>w'. Fiber_swapIn a w = Inr w'"
proof -
  have own: "own_context w a" using fiber_invD(1) [OF inv] a by (rule control_invD(4))
  have "f_ctx (fiber_at w a) \<noteq> Finished"
    using fiber_invD(4) [OF inv] a(1) st by (auto simp: life_inv_def ended_def iff del: domIff)
  with own st sched a(2) show ?thesis
    by (auto simp: Fiber_swapIn_def Let_def swapcontext_def own_context_def split: ucontext.splits)
qed


text \<open>A thread with one task fiber at address 2, scheduled from the thread's own fiber 1.\<close>

definition sample_world :: fiber_world where
  "sample_world = (Fiber_new 2 (Some (UserFn 7)) 0 False 131072 (thread_start 1))
     \<lparr>t_scheduler_fiber := Some 1\<rparr>"

lemma sample_world_reachable: "fiber_reachable sample_world"
proof -
  let ?w = "Fiber_new 2 (Some (UserFn 7)) 0 False 131072 (thread_start 1)"
  have "fibers (thread_start 1) 2 = None" "s_fiber_id (thread_start 1) \<noteq> - 1"
    by (simp_all add: thread_start_def Fiber_new_main_def empty_world_def Let_def)
  then have "fiber_reachable ?w"
    by (rule fiber_reachable.step [OF fiber_reachable.start fiber_step.create])
  moreover have "1 \<in> dom (fibers ?w)"
    by (simp add: Fiber_new_def thread_start_def Fiber_new_main_def Let_def)
  ultimately show ?thesis
    unfolding sample_world_def by (rule fiber_reachable.step [OF _ fiber_step.set_sched])
qed

lemma sample_world_facts:
  "t_scheduler_fiber sample_world = Some (control sample_world)" "control sample_world = 1"
  "2 \<in> dom (fibers sample_world)" "f_state (fiber_at sample_world 2) = INIT"
  by (simp_all add: sample_world_def Fiber_new_def thread_start_def Fiber_new_main_def Let_def
      fiber_at_def empty_world_def)


text \<open>On the scheduler's fiber, \<open>swapIn\<close> of a live fiber succeeds exactly when its state is
  \<open>INIT\<close>, \<open>HOLD\<close> or \<open>READY\<close>: a running fiber trips the assertion, and a fiber that has ended
  would run into the \<open>never reach\<close> assertion. When it succeeds, that fiber is the one
  executing, in state \<open>EXEC\<close>, and no other fiber's state changes.\<close>

theorem swapIn_succeeds_iff:
  assumes "fiber_inv w" and "t_scheduler_fiber w = Some (control w)"
    and "a \<in> dom (fibers w)" and "a \<noteq> control w"
  shows "if f_state (fiber_at w a) \<in> {INIT, HOLD, READY}
    then \<exists>w'. Fiber_swapIn a w = Inr w' \<and> control w' = a \<and> t_fiber w' = Some a \<and> fiber_inv w' \<and>
      (\<forall>b. f_state (fiber_at w' b) = (if b = a then EXEC else f_state (fiber_at w b)))
    else \<exists>msg. Fiber_swapIn a w = Inl (AssertFailed msg)"
proof (cases "f_state (fiber_at w a) \<in> {INIT, HOLD, READY}")
  case True
  then obtain w' where sw: "Fiber_swapIn a w = Inr w'" using swapIn_result [OF assms] by blast
  note st = swapIn_step [OF assms sw]
  show ?thesis
    using True sw st(3,4) control_invD(2) [OF st(1)] fiber_inv_from_switch [OF assms(1) st(1,2,6)]
    by simp
next
  case False
  then have "ended (f_state (fiber_at w a)) \<or> f_state (fiber_at w a) = EXEC"
    by (cases "f_state (fiber_at w a)") (simp_all add: ended_def)
  moreover have "f_ctx (fiber_at w a) = Finished" if "ended (f_state (fiber_at w a))"
    using fiber_invD(4) [OF assms(1)] assms(3) that by (auto simp: life_inv_def iff del: domIff)
  ultimately have "\<exists>msg. Fiber_swapIn a w = Inl (AssertFailed msg)"
    using assms(2,4) by (auto simp: Fiber_swapIn_def Let_def swapcontext_def ended_def)
  with False show ?thesis by simp
qed

theorem swapIn_succeeds_iff_witness:
  "\<exists>w'. Fiber_swapIn 2 sample_world = Inr w' \<and> control w' = 2 \<and>
     f_state (fiber_at sample_world 2) = INIT \<and> f_state (fiber_at w' 2) = EXEC"
  using swapIn_succeeds_iff [OF fiber_reachable_inv [OF sample_world_reachable]
      sample_world_facts(1,3)] sample_world_facts(2,4) by auto



text \<open>A fiber that leaves through \<open>YieldToHold\<close> gives control back to the scheduler's fiber
  with its flow saved, but its state stays \<open>EXEC\<close>: swapping it in again fails the assertion
  \<open>state_ != EXEC\<close> until somebody (\<open>Scheduler::run\<close>) has stored \<open>HOLD\<close>, after which it
  resumes.\<close>

theorem YieldToHold_round_trip:
  assumes "fiber_inv w" and "t_scheduler_fiber w = Some s" and "s \<noteq> control w"
    and "Fiber_YieldToHold a w = Inr w1"
  shows "control w1 = s \<and> f_ctx (fiber_at w1 (control w)) = Saved (control w) \<and>
    f_state (fiber_at w1 (control w)) = EXEC \<and>
    Fiber_swapIn (control w) w1 = Inl (AssertFailed ''state_ != EXEC'') \<and>
    (\<exists>w2. Fiber_swapIn (control w) (Fiber_set_hold (control w) w1) = Inr w2 \<and>
      control w2 = control w \<and> fiber_inv w2)"
proof -
  let ?c = "control w"
  have ex: "f_state (fiber_at w ?c) = EXEC"
    and sw: "swapcontext ?c s (Fiber_SetThis (Some s) (upd_fiber ?c id w)) = Inr w1"
    using YieldToHold_leaves [OF assms(1,4)] assms(2) by auto
  note dom = scheduler_fiber_live(1) [OF assms(1,2)]
  note st = leave_step [OF assms(1) dom assms(3) _ _ _ sw, simplified]
  have w1: "f_ctx (fiber_at w1 ?c) = Saved ?c" "f_state (fiber_at w1 ?c) = EXEC"
    using st(4,5) assms(3) ex by auto
  have step: "fiber_step w w1"
    using assms(2-4) by (intro fiber_step.yield_hold) auto
  have inv1: "fiber_inv w1" using fiber_step_inv [OF step assms(1)] by simp
  have c: "?c \<in> dom (fibers w1)" "?c \<noteq> control w1"
    using st(3) assms(3) population_dom [OF st(2)] control_invD(1) [OF fiber_invD(1) [OF assms(1)]]
    by auto
  have inv2: "fiber_inv (Fiber_set_hold ?c w1)"
    using hold_inv [OF inv1 c w1(2)] by simp
  have sch: "t_scheduler_fiber (Fiber_set_hold ?c w1) = Some (control (Fiber_set_hold ?c w1))"
    using st(2,3) assms(2) by (simp add: Fiber_set_hold_def same_population_def)
  have c2: "?c \<in> dom (fibers (Fiber_set_hold ?c w1))" "?c \<noteq> control (Fiber_set_hold ?c w1)"
    "f_state (fiber_at (Fiber_set_hold ?c w1) ?c) \<in> {INIT, HOLD, READY}"
    using c by (auto simp: Fiber_set_hold_def)
  obtain w2 where w2: "Fiber_swapIn ?c (Fiber_set_hold ?c w1) = Inr w2"
    using swapIn_result [OF inv2 sch c2] by blast
  note in2 = swapIn_step [OF inv2 sch c2(1,2) w2]
  have "Fiber_swapIn ?c w1 = Inl (AssertFailed ''state_ != EXEC'')"
    using w1(2) by (simp add: Fiber_swapIn_def Let_def)
  with w1 st(3) w2 in2(3) fiber_inv_from_switch [OF inv2 in2(1,2,6)] show ?thesis by auto
qed

theorem YieldToHold_round_trip_witness:
  "\<exists>w w1. Fiber_swapIn 2 sample_world = Inr w \<and> Fiber_YieldToHold 0 w = Inr w1 \<and>
     Fiber_swapIn 2 w1 = Inl (AssertFailed ''state_ != EXEC'')"
proof -
  have ne: "2 \<noteq> control sample_world" by (simp add: sample_world_facts)
  note inv = fiber_reachable_inv [OF sample_world_reachable]
  obtain w where w: "Fiber_swapIn 2 sample_world = Inr w"
    using swapIn_result [OF inv sample_world_facts(1,3) ne] sample_world_facts(4) by auto
  note st = swapIn_step [OF inv sample_world_facts(1,3) ne w]
  note inv' = fiber_inv_from_switch [OF inv st(1,2,6)]
  have sched: "t_scheduler_fiber w = Some 1" "control w = 2"
    using st(2,3) sample_world_facts(1,2) by (simp_all add: same_population_def)
  have "f_ctx (fiber_at w 1) = Saved 1"
    using w by (auto simp: Fiber_swapIn_def Let_def sample_world_def Fiber_new_def thread_start_def
        Fiber_new_main_def swapcontext_def fiber_at_def upd_fiber_def empty_world_def
        Fiber_SetThis_def)
  then obtain w1 where "Fiber_YieldToHold 0 w = Inr w1"
    using st(4) [of 2] sched control_invD(2) [OF st(1)]
    by (auto simp: Fiber_YieldToHold_def Fiber_GetThis_def Fiber_swapOut_def swapcontext_def Let_def)
  with YieldToHold_round_trip [OF inv' sched(1) _ this] sched(2) w show ?thesis by auto
qed

end
