(* ===== verification/Scheduler.thy ===== *)
theory Scheduler
  imports Fiber
begin

text \<open>
  The coroutine scheduler (\<open>sylar/scheduler.h\<close>, \<open>sylar/scheduler.cpp\<close>): the task queue, the
  loop \<open>Scheduler::run\<close> that every worker thread executes, and \<open>start\<close>, \<open>stop\<close> and
  \<open>switchTo\<close>. The first part has the operations; the second the interleaving of any number
  of worker threads with each other and with the threads that schedule tasks, where the
  section under \<open>mutex_\<close> is one step and everything outside it may be interrupted.

  Of the fibers the scheduler sees only their states: \<open>sched_swapIn\<close>, \<open>sched_reset\<close> and
  \<open>sched_hold\<close> are the effect of \<open>Fiber::swapIn\<close>, \<open>Fiber::reset\<close> and of storing \<open>HOLD\<close> on
  them, and the refinement lemmas at the end tie them to the operations of \<open>Fiber\<close>.
  \<open>tickle\<close> is virtual; \<open>sc_tickles\<close> counts its calls.
\<close>

section \<open>Data\<close>

text \<open>\<open>Scheduler::FiberAndThread\<close>.\<close>

record task =
  tk_fiber :: "nat option"
  tk_cb :: "closure option"
  tk_thread :: int

record scheduler =
  sc_name :: string
  sc_threads :: "int list"
  sc_fibers :: "task list"
  sc_rootFiber :: "nat option"
  sc_threadIds :: "int list"
  sc_threadCount :: nat
  sc_activeThreadCount :: u64
  sc_idleThreadCount :: u64
  sc_stopping :: bool
  sc_autoStop :: bool
  sc_rootThread :: int
  sc_states :: "nat \<rightharpoonup> fiber_state"
  sc_tickles :: nat

text \<open>The constructors from a fiber and from a function, the default one, and \<open>reset\<close>. The two
  constructors from a pointer swap the pointed-to object with a null one.\<close>

definition FiberAndThread_fiber :: "nat option \<Rightarrow> int \<Rightarrow> task" where
  "FiberAndThread_fiber f thread = \<lparr>tk_fiber = f, tk_cb = None, tk_thread = thread\<rparr>"

definition FiberAndThread_cb :: "closure option \<Rightarrow> int \<Rightarrow> task" where
  "FiberAndThread_cb c thread = \<lparr>tk_fiber = None, tk_cb = c, tk_thread = thread\<rparr>"

definition FiberAndThread_swap_fiber :: "nat option \<Rightarrow> int \<Rightarrow> task \<times> nat option" where
  "FiberAndThread_swap_fiber f thread = (FiberAndThread_fiber f thread, None)"

definition FiberAndThread_swap_cb :: "closure option \<Rightarrow> int \<Rightarrow> task \<times> closure option" where
  "FiberAndThread_swap_cb c thread = (FiberAndThread_cb c thread, None)"

definition FiberAndThread_reset :: task where
  "FiberAndThread_reset = \<lparr>tk_fiber = None, tk_cb = None, tk_thread = -1\<rparr>"

definition task_null :: "task \<Rightarrow> bool" where
  "task_null t \<longleftrightarrow> tk_fiber t = None \<and> tk_cb t = None"

section \<open>Scheduling\<close>

definition Scheduler_tickle :: "scheduler \<Rightarrow> scheduler" where
  "Scheduler_tickle s = s\<lparr>sc_tickles := Suc (sc_tickles s)\<rparr>"

definition scheduleNoLock :: "task \<Rightarrow> scheduler \<Rightarrow> bool \<times> scheduler" where
  "scheduleNoLock ft s =
     (let need_tickle = (sc_fibers s = [])
      in (need_tickle, if \<not> task_null ft then s\<lparr>sc_fibers := sc_fibers s @ [ft]\<rparr> else s))"

definition Scheduler_schedule :: "task \<Rightarrow> scheduler \<Rightarrow> scheduler" where
  "Scheduler_schedule ft s =
     (let (need_tickle, s1) = scheduleNoLock ft s
      in if need_tickle then Scheduler_tickle s1 else s1)"

text \<open>The batch version: every element of the caller's range is swapped into the queue, and the
  range is left full of null functions.\<close>

fun schedule_batch_loop :: "closure option list \<Rightarrow> bool \<Rightarrow> scheduler \<Rightarrow>
    bool \<times> closure option list \<times> scheduler" where
  "schedule_batch_loop [] need_tickle s = (need_tickle, [], s)"
| "schedule_batch_loop (c # cs) need_tickle s =
     (let (ft, c') = FiberAndThread_swap_cb c (-1);
          (need, s1) = scheduleNoLock ft s;
          (need', cs', s2) = schedule_batch_loop cs (need \<or> need_tickle) s1
      in (need', c' # cs', s2))"

definition Scheduler_schedule_batch :: "closure option list \<Rightarrow> scheduler \<Rightarrow>
    closure option list \<times> scheduler" where
  "Scheduler_schedule_batch cs s =
     (let (need_tickle, cs', s1) = schedule_batch_loop cs False s
      in (cs', if need_tickle then Scheduler_tickle s1 else s1))"

definition Scheduler_hasIdleThreads :: "scheduler \<Rightarrow> bool" where
  "Scheduler_hasIdleThreads s \<longleftrightarrow> sc_idleThreadCount s > 0"

definition Scheduler_stopping :: "scheduler \<Rightarrow> bool" where
  "Scheduler_stopping s \<longleftrightarrow>
     sc_autoStop s \<and> sc_stopping s \<and> sc_fibers s = [] \<and> sc_activeThreadCount s = 0"

section \<open>Construction, start and stop\<close>

text \<open>
  The constructor runs on thread \<open>tid\<close>, whose \<open>t_scheduler\<close> is \<open>cur\<close>; \<open>this\<close> is the address
  of the scheduler and \<open>root\<close> that of the root fiber. It returns the scheduler with the new
  \<open>t_scheduler\<close> and \<open>t_scheduler_fiber\<close>.
\<close>

definition Scheduler_new :: "nat \<Rightarrow> bool \<Rightarrow> string \<Rightarrow> nat \<Rightarrow> nat \<Rightarrow> int \<Rightarrow> nat option \<Rightarrow> nat option \<Rightarrow>
    (nat \<rightharpoonup> fiber_state) \<Rightarrow> (scheduler \<times> nat option \<times> nat option) result" where
  "Scheduler_new threads use_caller name this root tid cur cur_fiber st =
     rbind (sylar_assert (threads > 0) ''threads > 0'') (\<lambda>_.
     let s = \<lparr>sc_name = name, sc_threads = [], sc_fibers = [], sc_rootFiber = None,
       sc_threadIds = [], sc_threadCount = threads, sc_activeThreadCount = 0,
       sc_idleThreadCount = 0, sc_stopping = True, sc_autoStop = False, sc_rootThread = -1,
       sc_states = st, sc_tickles = 0\<rparr>
     in if use_caller then
          rbind (sylar_assert (cur = None) ''GetThis() == nullptr'') (\<lambda>_.
          Inr (s\<lparr>sc_rootFiber := Some root, sc_states := st(root \<mapsto> INIT), sc_rootThread := tid,
                 sc_threadIds := [tid], sc_threadCount := threads - 1\<rparr>, Some this, Some root))
        else Inr (s, cur, cur_fiber))"

definition Scheduler_destroy :: "nat \<Rightarrow> nat option \<Rightarrow> scheduler \<Rightarrow> nat option result" where
  "Scheduler_destroy this cur s =
     rbind (sylar_assert (sc_stopping s) ''stopping_'') (\<lambda>_.
     Inr (if cur = Some this then None else cur))"

text \<open>\<open>ids\<close> are the ids of the threads the constructor of \<open>Thread\<close> starts, in order.\<close>

definition Scheduler_start :: "int list \<Rightarrow> scheduler \<Rightarrow> scheduler result" where
  "Scheduler_start ids s =
     (if \<not> sc_stopping s then Inr s
      else
        let s1 = s\<lparr>sc_stopping := False\<rparr> in
        rbind (sylar_assert (sc_threads s1 = []) ''threads_.empty()'') (\<lambda>_.
        Inr (s1\<lparr>sc_threads := take (sc_threadCount s) ids,
               sc_threadIds := sc_threadIds s @ take (sc_threadCount s) ids\<rparr>)))"

text \<open>
  \<open>stop\<close> up to the point where it runs the root fiber or joins: \<open>Stopped\<close> is the early
  return, \<open>CallRoot\<close> switches to the root fiber first, and both others then join the
  threads named. The virtual function \<open>stopping()\<close> is an argument.
\<close>

datatype stop_action = Stopped | CallRoot "int list" | JoinOnly "int list"

definition Scheduler_stop :: "(scheduler \<Rightarrow> bool) \<Rightarrow> nat \<Rightarrow> nat option \<Rightarrow> scheduler \<Rightarrow> (stop_action \<times> scheduler) result" where
  "Scheduler_stop stopping this cur s =
     (let s1 = s\<lparr>sc_autoStop := True\<rparr>;
          root_quiet = (case sc_rootFiber s1 of None \<Rightarrow> False
            | Some r \<Rightarrow> sc_threadCount s1 = 0 \<and> sc_states s1 r \<in> {Some TERMINATED, Some INIT});
          s2 = (if root_quiet then s1\<lparr>sc_stopping := True\<rparr> else s1)
      in if root_quiet \<and> stopping s2 then Inr (Stopped, s2)
         else
           rbind (if sc_rootThread s2 \<noteq> -1
                  then sylar_assert (cur = Some this) ''GetThis() == this''
                  else sylar_assert (cur \<noteq> Some this) ''GetThis() != this'') (\<lambda>_.
           let s3 = s2\<lparr>sc_stopping := True\<rparr>;
               s4 = (Scheduler_tickle ^^ sc_threadCount s3) s3;
               s5 = (if sc_rootFiber s4 \<noteq> None then Scheduler_tickle s4 else s4);
               call = (sc_rootFiber s5 \<noteq> None \<and> \<not> stopping s5)
           in Inr (if call then CallRoot (sc_threads s5) else JoinOnly (sc_threads s5),
                   s5\<lparr>sc_threads := []\<rparr>)))"

text \<open>\<open>switchTo\<close> on thread \<open>tid\<close> with \<open>GetThis()\<close> equal to \<open>cur\<close>: no change when the fiber is
  already where it should be, else it is scheduled there and has to yield.\<close>

definition Scheduler_switchTo :: "int \<Rightarrow> nat \<Rightarrow> nat option \<Rightarrow> int \<Rightarrow> nat \<Rightarrow> scheduler \<Rightarrow>
    (bool \<times> scheduler) result" where
  "Scheduler_switchTo thread this cur tid fib s =
     rbind (sylar_assert (cur \<noteq> None) ''Scheduler::GetThis() != nullptr'') (\<lambda>_.
     if cur = Some this \<and> (thread = -1 \<or> thread = tid) then Inr (False, s)
     else Inr (True, Scheduler_schedule (FiberAndThread_fiber (Some fib) thread) s))"

text \<open>\<open>SchedulerSwitcher\<close>: the constructor remembers the scheduler of the thread (\<open>caller_\<close>)
  and moves the fiber to the target, the destructor moves it back.\<close>

definition SchedulerSwitcher_new :: "nat option \<Rightarrow> nat option \<Rightarrow> int \<Rightarrow> nat \<Rightarrow> (nat \<Rightarrow> scheduler) \<Rightarrow>
    (nat option \<times> (nat \<Rightarrow> scheduler)) result" where
  "SchedulerSwitcher_new target cur tid fib heap =
     (case target of
        None \<Rightarrow> Inr (cur, heap)
      | Some t \<Rightarrow> rbind (Scheduler_switchTo (-1) t cur tid fib (heap t)) (\<lambda>(yields, s).
          Inr (cur, heap(t := s))))"

definition SchedulerSwitcher_destroy :: "nat option \<Rightarrow> nat option \<Rightarrow> int \<Rightarrow> nat \<Rightarrow> (nat \<Rightarrow> scheduler) \<Rightarrow>
    (nat \<Rightarrow> scheduler) result" where
  "SchedulerSwitcher_destroy caller cur tid fib heap =
     (case caller of
        None \<Rightarrow> Inr heap
      | Some c \<Rightarrow> rbind (Scheduler_switchTo (-1) c cur tid fib (heap c)) (\<lambda>(yields, s).
          Inr (heap(c := s))))"

definition Scheduler_dump :: "scheduler \<Rightarrow> string" where
  "Scheduler_dump s =
     ''[Scheduler name='' @ sc_name s @ '' size='' @ show_nat (sc_threadCount s) @
     '' active_count='' @ show_nat (unat (sc_activeThreadCount s)) @
     '' idle_count='' @ show_nat (unat (sc_idleThreadCount s)) @
     '' stopping='' @ (if sc_stopping s then ''1'' else ''0'') @ '' ]'' @ [CHR 0x0A] @ ''    '' @
     concat (map (\<lambda>i. (if i > 0 then '', '' else []) @ show_int (sc_threadIds s ! i))
       [0..<length (sc_threadIds s)])"

section \<open>The states of the fibers\<close>

definition state_of :: "scheduler \<Rightarrow> nat \<Rightarrow> fiber_state" where
  "state_of s a = (case sc_states s a of Some x \<Rightarrow> x | None \<Rightarrow> INIT)"

definition set_state :: "nat \<Rightarrow> fiber_state \<Rightarrow> scheduler \<Rightarrow> scheduler" where
  "set_state a x s = s\<lparr>sc_states := (sc_states s)(a \<mapsto> x)\<rparr>"

definition sched_swapIn :: "nat \<Rightarrow> scheduler \<Rightarrow> scheduler result" where
  "sched_swapIn a s =
     rbind (sylar_assert (state_of s a \<noteq> EXEC) ''state_ != EXEC'') (\<lambda>_.
     if ended (state_of s a) then Inl (AssertFailed ''never reach fiber_id'')
     else Inr (set_state a EXEC s))"

definition sched_reset :: "nat \<Rightarrow> scheduler \<Rightarrow> scheduler result" where
  "sched_reset a s =
     rbind (sylar_assert (resettable (state_of s a)) ''state_ == TERM || EXCEPT || INIT'') (\<lambda>_.
     Inr (set_state a INIT s))"

section \<open>The loop of \<open>Scheduler::run\<close>\<close>

definition foreign :: "int \<Rightarrow> task \<Rightarrow> bool" where
  "foreign tid t \<longleftrightarrow> tk_thread t \<noteq> -1 \<and> tk_thread t \<noteq> tid"

definition executing :: "(nat \<Rightarrow> fiber_state) \<Rightarrow> task \<Rightarrow> bool" where
  "executing st t \<longleftrightarrow> (case tk_fiber t of None \<Rightarrow> False | Some f \<Rightarrow> st f = EXEC)"

text \<open>The scan of the queue under the lock: the task taken, what is left and \<open>tickle_me\<close>.\<close>

fun pick_loop :: "int \<Rightarrow> (nat \<Rightarrow> fiber_state) \<Rightarrow> task list \<Rightarrow> task list \<Rightarrow> bool \<Rightarrow>
    (task option \<times> task list \<times> bool) result" where
  "pick_loop tid st seen [] tickle_me = Inr (None, rev seen, tickle_me)"
| "pick_loop tid st seen (t # ts) tickle_me =
     (if foreign tid t then pick_loop tid st (t # seen) ts True
      else
        rbind (sylar_assert (\<not> task_null t) ''it->fiber_ || it->cb_'') (\<lambda>_.
        if executing st t then pick_loop tid st (t # seen) ts tickle_me
        else Inr (Some t, rev seen @ ts, tickle_me \<or> ts \<noteq> [])))"

text \<open>The local variables of \<open>run\<close> on one thread and the place in its loop: at the top,
  after the locked section with \<open>ft\<close> set or not, inside the three calls of \<open>swapIn\<close>, behind the
  decrement of \<open>activeThreadCount_\<close> that follows two of them, or out of the loop.\<close>

datatype phase = Looping | Picked "task option" | Running nat | AfterFiber nat
  | RunningCb nat | AfterCb nat | Idling | Exited

record worker =
  wk_tid :: int
  wk_idle :: nat
  wk_cb :: "nat option"
  wk_phase :: phase

definition run_start :: "int \<Rightarrow> nat \<Rightarrow> scheduler \<Rightarrow> worker \<times> scheduler" where
  "run_start tid idle s =
     (\<lparr>wk_tid = tid, wk_idle = idle, wk_cb = None, wk_phase = Looping\<rparr>, set_state idle INIT s)"

definition run_pick :: "worker \<Rightarrow> scheduler \<Rightarrow> (worker \<times> scheduler) result" where
  "run_pick w s =
     rbind (pick_loop (wk_tid w) (state_of s) [] (sc_fibers s) False) (\<lambda>(ft, q, tickle_me).
     let s1 = s\<lparr>sc_fibers := q,
                 sc_activeThreadCount := sc_activeThreadCount s + (if ft = None then 0 else 1)\<rparr>;
         s2 = (if tickle_me then Scheduler_tickle s1 else s1)
     in Inr (w\<lparr>wk_phase := Picked ft\<rparr>, s2))"

text \<open>What follows the locked section, up to the switch: \<open>fresh\<close> is the address \<open>new Fiber\<close>
  returns when there is no callback fiber to reuse.\<close>

definition run_fiber :: "nat \<Rightarrow> worker \<Rightarrow> scheduler \<Rightarrow> (worker \<times> scheduler) result" where
  "run_fiber f w s =
     rbind (sched_swapIn f s) (\<lambda>s1. Inr (w\<lparr>wk_phase := Running f\<rparr>, s1))"

definition run_cb :: "nat \<Rightarrow> worker \<Rightarrow> scheduler \<Rightarrow> (worker \<times> scheduler) result" where
  "run_cb fresh w s =
     rbind (case wk_cb w of
              Some f \<Rightarrow> rbind (sched_reset f s) (\<lambda>s1. Inr (f, s1))
            | None \<Rightarrow> Inr (fresh, set_state fresh INIT s)) (\<lambda>(f, s1).
     rbind (sched_swapIn f s1) (\<lambda>s2.
     Inr (w\<lparr>wk_cb := Some f, wk_phase := RunningCb f\<rparr>, s2)))"

definition run_idle :: "worker \<Rightarrow> scheduler \<Rightarrow> (worker \<times> scheduler) result" where
  "run_idle w s =
     (if state_of s (wk_idle w) = TERMINATED then Inr (w\<lparr>wk_phase := Exited\<rparr>, s)
      else
        rbind (sched_swapIn (wk_idle w) (s\<lparr>sc_idleThreadCount := sc_idleThreadCount s + 1\<rparr>)) (\<lambda>s1.
        Inr (w\<lparr>wk_phase := Idling\<rparr>, s1)))"

definition run_dispatch :: "nat \<Rightarrow> task option \<Rightarrow> worker \<Rightarrow> scheduler \<Rightarrow> (worker \<times> scheduler) result" where
  "run_dispatch fresh ft w s =
     (case ft of
        None \<Rightarrow> run_idle w s
      | Some t \<Rightarrow>
          (case tk_fiber t of
             Some f \<Rightarrow>
               if \<not> ended (state_of s f) then run_fiber f w s
               else if tk_cb t \<noteq> None then run_cb fresh w s
               else Inr (w\<lparr>wk_phase := Looping\<rparr>,
                         s\<lparr>sc_activeThreadCount := sc_activeThreadCount s - 1\<rparr>)
           | None \<Rightarrow>
               if tk_cb t \<noteq> None then run_cb fresh w s
               else Inr (w\<lparr>wk_phase := Looping\<rparr>,
                         s\<lparr>sc_activeThreadCount := sc_activeThreadCount s - 1\<rparr>)))"

text \<open>What follows each \<open>swapIn\<close> once the fiber has given control back. The decrement of
  \<open>activeThreadCount_\<close> is a step of its own: other threads may look at the counter before
  the fiber is scheduled again.\<close>

definition run_return :: "phase \<Rightarrow> worker \<Rightarrow> scheduler \<Rightarrow> (worker \<times> scheduler) result" where
  "run_return ph w s =
     Inr (w\<lparr>wk_phase := ph\<rparr>, s\<lparr>sc_activeThreadCount := sc_activeThreadCount s - 1\<rparr>)"

definition run_after_fiber :: "nat \<Rightarrow> worker \<Rightarrow> scheduler \<Rightarrow> (worker \<times> scheduler) result" where
  "run_after_fiber f w s =
     (let s1 = (if state_of s f = READY
                then Scheduler_schedule (FiberAndThread_fiber (Some f) (-1)) s
                else if \<not> ended (state_of s f) then set_state f HOLD s
                else s)
      in Inr (w\<lparr>wk_phase := Looping\<rparr>, s1))"

definition run_after_cb :: "nat \<Rightarrow> worker \<Rightarrow> scheduler \<Rightarrow> (worker \<times> scheduler) result" where
  "run_after_cb f w s =
     (let w1 = w\<lparr>wk_phase := Looping\<rparr>
      in if state_of s f = READY
         then Inr (w1\<lparr>wk_cb := None\<rparr>, Scheduler_schedule (FiberAndThread_fiber (Some f) (-1)) s)
         else if ended (state_of s f)
         then rbind (sched_reset f s) (\<lambda>s1. Inr (w1, s1))
         else Inr (w1\<lparr>wk_cb := None\<rparr>, set_state f HOLD s))"

definition run_after_idle :: "worker \<Rightarrow> scheduler \<Rightarrow> (worker \<times> scheduler) result" where
  "run_after_idle w s =
     (let s1 = s\<lparr>sc_idleThreadCount := sc_idleThreadCount s - 1\<rparr>
      in Inr (w\<lparr>wk_phase := Looping\<rparr>,
              if \<not> ended (state_of s1 (wk_idle w)) then set_state (wk_idle w) HOLD s1 else s1))"

text \<open>One step of the loop, from the place the worker has reached to the next.\<close>

definition run_step :: "nat \<Rightarrow> worker \<Rightarrow> scheduler \<Rightarrow> (worker \<times> scheduler) result" where
  "run_step fresh w s =
     (case wk_phase w of
        Looping \<Rightarrow> run_pick w s
      | Picked ft \<Rightarrow> run_dispatch fresh ft w s
      | Running f \<Rightarrow> run_return (AfterFiber f) w s
      | AfterFiber f \<Rightarrow> run_after_fiber f w s
      | RunningCb f \<Rightarrow> run_return (AfterCb f) w s
      | AfterCb f \<Rightarrow> run_after_cb f w s
      | Idling \<Rightarrow> run_after_idle w s
      | Exited \<Rightarrow> Inr (w, s))"

section \<open>The scan takes the first task it may\<close>

definition eligible :: "int \<Rightarrow> (nat \<Rightarrow> fiber_state) \<Rightarrow> task \<Rightarrow> bool" where
  "eligible tid st t \<longleftrightarrow> \<not> foreign tid t \<and> \<not> executing st t"

lemma pick_loop_none:
  assumes "\<forall>t \<in> set ts. \<not> task_null t" and "\<forall>t \<in> set ts. \<not> eligible tid st t"
  shows "pick_loop tid st seen ts tm = Inr (None, rev seen @ ts, tm \<or> (\<exists>t \<in> set ts. foreign tid t))"
  using assms by (induction ts arbitrary: seen tm) (auto simp: eligible_def)

lemma pick_loop_some:
  assumes "\<forall>t \<in> set (pre @ [t]). \<not> task_null t" and "\<forall>t \<in> set pre. \<not> eligible tid st t"
    and "eligible tid st t"
  shows "pick_loop tid st seen (pre @ t # post) tm =
    Inr (Some t, rev seen @ pre @ post, tm \<or> (\<exists>t \<in> set pre. foreign tid t) \<or> post \<noteq> [])"
  using assms by (induction pre arbitrary: seen tm) (auto simp: eligible_def)

lemma pick_loop_cases:
  assumes "\<forall>t \<in> set q. \<not> task_null t"
  obtains (none) "\<forall>t \<in> set q. \<not> eligible tid st t"
      "pick_loop tid st [] q False = Inr (None, q, \<exists>t \<in> set q. foreign tid t)"
  | (some) pre t post where "q = pre @ t # post" "\<forall>t \<in> set pre. \<not> eligible tid st t"
      "eligible tid st t"
      "pick_loop tid st [] q False =
        Inr (Some t, pre @ post, (\<exists>t \<in> set pre. foreign tid t) \<or> post \<noteq> [])"
proof (cases "\<exists>t \<in> set q. eligible tid st t")
  case True
  then obtain pre t post where q: "q = pre @ t # post" and t: "eligible tid st t"
    and pre: "\<forall>t \<in> set pre. \<not> eligible tid st t"
    using split_list_first_prop [of q "eligible tid st"] by blast
  with assms show ?thesis
    using some pick_loop_some [OF _ pre t, of "[]" post False] by auto
next
  case False
  with assms show ?thesis
    using none pick_loop_none [of q tid st "[]" False] by auto
qed

section \<open>Interleaving of the workers\<close>

text \<open>
  A system is the scheduler with its workers. A worker moves by \<open>run_step\<close>; while it runs a
  fiber, that fiber may yield as \<open>READY\<close> or end (giving control back without a change of state is
  \<open>YieldToHold\<close>), and the code it runs may schedule further tasks. Other threads schedule
  tasks too, until \<open>stop\<close> has been called.

  A fiber is waited for once: it is scheduled only when it is not in the queue or picked
  already, and it neither yields as \<open>READY\<close> nor ends while it is in the queue (\<open>tokens\<close>). This is
  what the hooks and the event loop do, which schedule a fiber once for every time it holds;
  \<open>double_schedule_aborts\<close> below shows what happens otherwise.
\<close>

record system =
  sys_sched :: scheduler
  sys_workers :: "int \<rightharpoonup> worker"

definition count_ws :: "(worker \<Rightarrow> bool) \<Rightarrow> (int \<rightharpoonup> worker) \<Rightarrow> nat" where
  "count_ws P ws = card {i. \<exists>w. ws i = Some w \<and> P w}"

definition queued :: "scheduler \<Rightarrow> nat \<Rightarrow> nat" where
  "queued s a = length (filter (\<lambda>t. tk_fiber t = Some a) (sc_fibers s))"

definition picks :: "nat \<Rightarrow> worker \<Rightarrow> bool" where
  "picks a w \<longleftrightarrow> (case wk_phase w of Picked (Some t) \<Rightarrow> tk_fiber t = Some a | _ \<Rightarrow> False)"

definition tokens :: "system \<Rightarrow> nat \<Rightarrow> nat" where
  "tokens y a = queued (sys_sched y) a + count_ws (picks a) (sys_workers y)"

definition runs_task :: "nat \<Rightarrow> worker \<Rightarrow> bool" where
  "runs_task a w \<longleftrightarrow> wk_phase w = Running a \<or> wk_phase w = AfterFiber a"

definition runs_cb :: "nat \<Rightarrow> worker \<Rightarrow> bool" where
  "runs_cb a w \<longleftrightarrow> wk_phase w = RunningCb a \<or> wk_phase w = AfterCb a"

definition owned :: "nat \<Rightarrow> worker \<Rightarrow> bool" where
  "owned a w \<longleftrightarrow> wk_idle w = a \<or> (wk_cb w = Some a \<and> \<not> runs_cb a w)"

text \<open>A task that may be scheduled: a function, or a fiber that is waiting or running.\<close>

definition may_schedule :: "system \<Rightarrow> task \<Rightarrow> bool" where
  "may_schedule y t \<longleftrightarrow>
     (case tk_fiber t of
        None \<Rightarrow> tk_cb t \<noteq> None
      | Some f \<Rightarrow> tk_cb t = None \<and> tokens y f = 0 \<and>
          (\<exists>x. sc_states (sys_sched y) f = Some x \<and> x \<in> {INIT, HOLD, EXEC}) \<and>
          sc_rootFiber (sys_sched y) \<noteq> Some f \<and>
          count_ws (owned f) (sys_workers y) = 0)"

inductive sys_step :: "system \<Rightarrow> system \<Rightarrow> bool" where
  work: "sys_workers y i = Some w \<Longrightarrow> run_step fresh w (sys_sched y) = Inr (w', s') \<Longrightarrow>
    sc_states (sys_sched y) fresh = None \<Longrightarrow>
    sys_step y \<lparr>sys_sched = s', sys_workers = (sys_workers y)(i \<mapsto> w')\<rparr>"
| yields: "sys_workers y i = Some w \<Longrightarrow> wk_phase w \<in> {Running f, RunningCb f} \<Longrightarrow>
    state_of (sys_sched y) f = EXEC \<Longrightarrow> tokens y f = 0 \<Longrightarrow> x \<in> {READY, TERMINATED, EXCEPT} \<Longrightarrow>
    sys_step y (y\<lparr>sys_sched := set_state f x (sys_sched y)\<rparr>)"
| idle_end: "sys_workers y i = Some w \<Longrightarrow> wk_phase w = Idling \<Longrightarrow>
    state_of (sys_sched y) (wk_idle w) = EXEC \<Longrightarrow> Scheduler_stopping (sys_sched y) \<Longrightarrow>
    sys_step y (y\<lparr>sys_sched := set_state (wk_idle w) TERMINATED (sys_sched y)\<rparr>)"
| schedule: "may_schedule y t \<Longrightarrow>
    \<not> sc_autoStop (sys_sched y) \<or>
      (\<exists>i w f. sys_workers y i = Some w \<and> wk_phase w \<in> {Running f, RunningCb f}) \<Longrightarrow>
    sys_step y (y\<lparr>sys_sched := Scheduler_schedule t (sys_sched y)\<rparr>)"
| new_fiber: "sc_states (sys_sched y) f = None \<Longrightarrow>
    sys_step y (y\<lparr>sys_sched := set_state f INIT (sys_sched y)\<rparr>)"
| worker_start: "sys_workers y i = None \<Longrightarrow> card (dom (sys_workers y)) < 2 ^ 64 - 1 \<Longrightarrow>
    sc_states (sys_sched y) idle = None \<Longrightarrow>
    run_start i idle (sys_sched y) = (w, s') \<Longrightarrow>
    sys_step y \<lparr>sys_sched = s', sys_workers = (sys_workers y)(i \<mapsto> w)\<rparr>"
| start: "Scheduler_start ids (sys_sched y) = Inr s' \<Longrightarrow> \<not> sc_autoStop (sys_sched y) \<Longrightarrow>
    sys_step y (y\<lparr>sys_sched := s'\<rparr>)"
| stop: "Scheduler_stop Scheduler_stopping this cur (sys_sched y) = Inr (act, s') \<Longrightarrow> sys_step y (y\<lparr>sys_sched := s'\<rparr>)"

definition sys_init :: "scheduler \<Rightarrow> system" where
  "sys_init s = \<lparr>sys_sched = s, sys_workers = Map.empty\<rparr>"

inductive sys_reachable :: "system \<Rightarrow> bool" where
  init: "Scheduler_new threads use_caller name this root tid cur curf Map.empty = Inr (s, cur', curf')
    \<Longrightarrow> sys_reachable (sys_init s)"
| step: "sys_reachable y \<Longrightarrow> sys_step y y' \<Longrightarrow> sys_reachable y'"

section \<open>Counting workers\<close>

lemma count_ws_upd:
  assumes "finite (dom ws)" and "ws i = Some w"
  shows "count_ws P (ws(i \<mapsto> w')) + of_bool (P w) = count_ws P ws + of_bool (P w')"
proof -
  let ?S = "{j. j \<noteq> i \<and> (\<exists>v. ws j = Some v \<and> P v)}"
  have fin: "finite ?S" by (rule finite_subset [OF _ assms(1)]) auto
  have "{j. \<exists>v. ws j = Some v \<and> P v} = (if P w then insert i ?S else ?S)"
    using assms(2) by auto
  moreover have "{j. \<exists>v. (ws(i \<mapsto> w')) j = Some v \<and> P v} = (if P w' then insert i ?S else ?S)"
    by (auto split: if_splits)
  moreover have "i \<notin> ?S" by simp
  ultimately show ?thesis using fin by (simp add: count_ws_def del: fun_upd_apply)
qed

lemma count_ws_new:
  assumes "finite (dom ws)" and "ws i = None"
  shows "count_ws P (ws(i \<mapsto> w')) = count_ws P ws + of_bool (P w')"
proof -
  let ?S = "{j. \<exists>v. ws j = Some v \<and> P v}"
  have fin: "finite ?S" by (rule finite_subset [OF _ assms(1)]) auto
  have "{j. \<exists>v. (ws(i \<mapsto> w')) j = Some v \<and> P v} = (if P w' then insert i ?S else ?S)"
    using assms(2) by (auto split: if_splits)
  moreover have "i \<notin> ?S" using assms(2) by simp
  ultimately show ?thesis using fin by (simp add: count_ws_def del: fun_upd_apply)
qed

lemma count_ws_pos: "finite (dom ws) \<Longrightarrow> ws i = Some w \<Longrightarrow> P w \<Longrightarrow> 0 < count_ws P ws"
  using count_ws_upd [of ws i w P w] count_ws_upd [of ws i w P "w\<lparr>wk_tid := wk_tid w\<rparr>"]
  by (auto simp: count_ws_def card_gt_0_iff intro: finite_subset [of _ "dom ws"])

lemma count_ws_zero:
  "finite (dom ws) \<Longrightarrow> count_ws P ws = 0 \<longleftrightarrow> (\<forall>i w. ws i = Some w \<longrightarrow> \<not> P w)"
proof -
  assume "finite (dom ws)"
  then have "finite {i. \<exists>w. ws i = Some w \<and> P w}" by (rule finite_subset [rotated]) auto
  then show ?thesis by (auto simp: count_ws_def)
qed

lemma count_ws_empty [simp]: "count_ws P Map.empty = 0"
  by (simp add: count_ws_def)

section \<open>The invariant of the system\<close>

definition task_ok :: "task \<Rightarrow> bool" where
  "task_ok t \<longleftrightarrow> (tk_fiber t = None \<longleftrightarrow> tk_cb t \<noteq> None)"

definition worker_ok :: "worker \<Rightarrow> bool" where
  "worker_ok w \<longleftrightarrow>
     (case wk_phase w of RunningCb f \<Rightarrow> wk_cb w = Some f | AfterCb f \<Rightarrow> wk_cb w = Some f
      | Picked (Some t) \<Rightarrow> task_ok t | _ \<Rightarrow> True)"

definition busy :: "worker \<Rightarrow> bool" where
  "busy w \<longleftrightarrow> (case wk_phase w of
     Picked ft \<Rightarrow> ft \<noteq> None | Running f \<Rightarrow> True | RunningCb f \<Rightarrow> True | _ \<Rightarrow> False)"

definition idling :: "worker \<Rightarrow> bool" where
  "idling w \<longleftrightarrow> wk_phase w = Idling"

text \<open>
  How the state of a fiber goes with the places that refer to it: the number \<open>Q\<close> of queue entries,
  \<open>K\<close> of workers that picked it, \<open>Rt\<close>, \<open>Rc\<close> and \<open>Ri\<close> of workers that run it as a task, as
  their callback fiber and as their idle fiber, \<open>C\<close> and \<open>N\<close> of workers whose callback fiber
  or idle fiber it is.
\<close>

definition fiber_ok :: "fiber_state option \<Rightarrow> nat \<Rightarrow> nat \<Rightarrow> nat \<Rightarrow> nat \<Rightarrow> nat \<Rightarrow> nat \<Rightarrow> nat \<Rightarrow> bool" where
  "fiber_ok st Q K Rt Rc Ri C N \<longleftrightarrow>
     Q + K \<le> 1 \<and> C + N \<le> 1 \<and> Rt + Rc + Ri \<le> 1 \<and> Rc \<le> C \<and> Ri \<le> N \<and> (Rt = 0 \<or> C + N = 0) \<and>
     (case st of
        None \<Rightarrow> Q + K + Rt + Rc + Ri + C + N = 0
      | Some x \<Rightarrow> (case x of
          INIT \<Rightarrow> Rt + Rc + Ri = 0 \<and> (C + N = 0 \<or> Q + K = 0)
        | HOLD \<Rightarrow> Rt + Rc + Ri = 0 \<and> C = 0 \<and> (N = 0 \<or> Q + K = 0)
        | EXEC \<Rightarrow> Rt + Rc + Ri = 1 \<and> K = 0 \<and> (N = 0 \<or> Q = 0) \<and> C = Rc
        | READY \<Rightarrow> N = 0 \<and> C = Rc \<and> (Rt + Rc = 0 \<or> Q + K = 0)
        | TERMINATED \<Rightarrow> Q + K = 0 \<and> C = Rc
        | EXCEPT \<Rightarrow> Q + K = 0 \<and> N = 0 \<and> C = Rc))"

definition fibers_ok :: "system \<Rightarrow> bool" where
  "fibers_ok y \<longleftrightarrow> (\<forall>a. fiber_ok (sc_states (sys_sched y) a) (queued (sys_sched y) a)
     (count_ws (picks a) (sys_workers y))
     (count_ws (runs_task a) (sys_workers y))
     (count_ws (runs_cb a) (sys_workers y))
     (count_ws (\<lambda>w. wk_phase w = Idling \<and> wk_idle w = a) (sys_workers y))
     (count_ws (\<lambda>w. wk_cb w = Some a) (sys_workers y))
     (count_ws (\<lambda>w. wk_idle w = a) (sys_workers y)))"

definition counters_ok :: "system \<Rightarrow> bool" where
  "counters_ok y \<longleftrightarrow> finite (dom (sys_workers y)) \<and> card (dom (sys_workers y)) < 2 ^ 64 \<and>
     sc_activeThreadCount (sys_sched y) = of_nat (count_ws busy (sys_workers y)) \<and>
     sc_idleThreadCount (sys_sched y) = of_nat (count_ws idling (sys_workers y))"

definition sys_inv :: "system \<Rightarrow> bool" where
  "sys_inv y \<longleftrightarrow> counters_ok y \<and> fibers_ok y \<and>
     (\<forall>t \<in> set (sc_fibers (sys_sched y)). task_ok t) \<and>
     (\<forall>i w. sys_workers y i = Some w \<longrightarrow> worker_ok w)"

lemma sys_invD:
  assumes "sys_inv y"
  shows "counters_ok y" "fibers_ok y" "finite (dom (sys_workers y))"
    "t \<in> set (sc_fibers (sys_sched y)) \<Longrightarrow> task_ok t"
    "sys_workers y i = Some w \<Longrightarrow> worker_ok w"
  using assms by (auto simp: sys_inv_def counters_ok_def)

lemma count_ws_le: "finite (dom ws) \<Longrightarrow> count_ws P ws \<le> card (dom ws)"
  by (auto simp: count_ws_def intro: card_mono)

text \<open>When the scheduler may stop, no worker holds or runs a task.\<close>

lemma stopping_not_busy:
  assumes "sys_inv y" and "Scheduler_stopping (sys_sched y)" and "sys_workers y i = Some w"
  shows "\<not> busy w"
proof
  assume "busy w"
  note c = sys_invD(1) [OF assms(1), unfolded counters_ok_def]
  have "0 < count_ws busy (sys_workers y)"
    using count_ws_pos [of "sys_workers y" i w busy] assms(3) c \<open>busy w\<close> by simp
  moreover have "count_ws busy (sys_workers y) < 2 ^ 64"
    using count_ws_le [of "sys_workers y" busy] c by linarith
  ultimately have "(of_nat (count_ws busy (sys_workers y)) :: u64) \<noteq> 0"
    by (simp add: word_of_nat_eq_0_iff nat_dvd_not_less)
  then show False using c assms(2) by (simp add: Scheduler_stopping_def)
qed

section \<open>Preservation\<close>

text \<open>A change of one worker, with the contribution of all others left open.\<close>

lemma count_ws_split:
  assumes "finite (dom ws)" and "ws i = Some w"
  shows "count_ws P ws = count_ws P (ws(i := None)) + of_bool (P w)"
    and "count_ws P (ws(i \<mapsto> w')) = count_ws P (ws(i := None)) + of_bool (P w')"
proof -
  have fin: "finite (dom (ws(i := None)))" using assms(1) by simp
  show "count_ws P (ws(i \<mapsto> w')) = count_ws P (ws(i := None)) + of_bool (P w')" for w'
    using count_ws_new [OF fin, of i P w'] by simp
  from this [of w] show "count_ws P ws = count_ws P (ws(i := None)) + of_bool (P w)"
    using assms(2) by (simp add: fun_upd_idem)
qed

lemma count_ws_mono:
  assumes "finite (dom ws)" and "\<And>i w. ws i = Some w \<Longrightarrow> P w \<Longrightarrow> P' w"
  shows "count_ws P ws \<le> count_ws P' ws"
  unfolding count_ws_def
  by (rule card_mono) (use assms in \<open>auto intro: finite_subset [of _ "dom ws"]\<close>)

lemma others_running:
  assumes "sys_inv y"
  shows "count_ws (runs_cb a) ((sys_workers y)(i := None)) \<le>
      count_ws (\<lambda>w. wk_cb w = Some a) ((sys_workers y)(i := None))"
    and "count_ws (\<lambda>w. wk_phase w = Idling \<and> wk_idle w = a) ((sys_workers y)(i := None)) \<le>
      count_ws (\<lambda>w. wk_idle w = a) ((sys_workers y)(i := None))"
proof -
  have fin: "finite (dom ((sys_workers y)(i := None)))" using sys_invD(3) [OF assms] by simp
  have "wk_cb w = Some a" if "((sys_workers y)(i := None)) j = Some w" "runs_cb a w" for j w
    using sys_invD(5) [OF assms, of j w] that by (auto simp: worker_ok_def runs_cb_def split: if_splits)
  then show "count_ws (runs_cb a) ((sys_workers y)(i := None)) \<le>
      count_ws (\<lambda>w. wk_cb w = Some a) ((sys_workers y)(i := None))"
    by (rule count_ws_mono [OF fin])
  show "count_ws (\<lambda>w. wk_phase w = Idling \<and> wk_idle w = a) ((sys_workers y)(i := None)) \<le>
      count_ws (\<lambda>w. wk_idle w = a) ((sys_workers y)(i := None))"
    by (rule count_ws_mono [OF fin]) simp
qed

definition fiber_frame :: "worker \<Rightarrow> scheduler \<Rightarrow> worker \<Rightarrow> scheduler \<Rightarrow> bool" where
  "fiber_frame w s w' s' \<longleftrightarrow> (\<forall>a K Rt Rc Ri C N. Rc \<le> C \<longrightarrow> Ri \<le> N \<longrightarrow>
     fiber_ok (sc_states s a) (queued s a) (K + of_bool (picks a w))
       (Rt + of_bool (runs_task a w)) (Rc + of_bool (runs_cb a w))
       (Ri + of_bool (wk_phase w = Idling \<and> wk_idle w = a)) (C + of_bool (wk_cb w = Some a))
       (N + of_bool (wk_idle w = a)) \<longrightarrow>
     fiber_ok (sc_states s' a) (queued s' a) (K + of_bool (picks a w'))
       (Rt + of_bool (runs_task a w')) (Rc + of_bool (runs_cb a w'))
       (Ri + of_bool (wk_phase w' = Idling \<and> wk_idle w' = a)) (C + of_bool (wk_cb w' = Some a))
       (N + of_bool (wk_idle w' = a)))"

lemma worker_frame:
  assumes inv: "sys_inv y" and i: "sys_workers y i = Some w" and s: "s = sys_sched y"
    and frame: "fiber_frame w s w' s'"
    and ok: "worker_ok w'" "\<And>t. t \<in> set (sc_fibers s') \<Longrightarrow> task_ok t" "wk_idle w' = wk_idle w"
    and act: "sc_activeThreadCount s' = sc_activeThreadCount s - of_bool (busy w) + of_bool (busy w')"
    and idl: "sc_idleThreadCount s' = sc_idleThreadCount s - of_bool (idling w) + of_bool (idling w')"
  shows "sys_inv \<lparr>sys_sched = s', sys_workers = (sys_workers y)(i \<mapsto> w')\<rparr>" (is "sys_inv ?y")
proof -
  note fin = sys_invD(3) [OF inv] and c = sys_invD(1) [OF inv, unfolded counters_ok_def]
  note sp = count_ws_split [OF fin i]
  have "counters_ok ?y"
    using c act idl i sp(1) [of busy] sp(2) [of busy w'] sp(1) [of idling] sp(2) [of idling w'] s
    by (auto simp: counters_ok_def insert_absorb domI)
  moreover have "fibers_ok ?y"
    using sys_invD(2) [OF inv] frame others_running [OF inv]
    by (simp add: fibers_ok_def fiber_frame_def sp(1) sp(2) s del: fun_upd_apply)
  ultimately show ?thesis
    using inv ok by (auto simp: sys_inv_def)
qed

text \<open>What the invariant says of the fibers a worker refers to.\<close>

lemma fiber_ok_states:
  assumes "fiber_ok st Q K Rt Rc Ri C N"
  shows "0 < K \<Longrightarrow> \<exists>x. st = Some x \<and> x \<in> {INIT, HOLD, READY}"
    and "0 < Rt + Rc \<Longrightarrow> \<exists>x. st = Some x \<and> x \<in> {EXEC, READY, TERMINATED, EXCEPT}"
    and "0 < C \<Longrightarrow> Rc = 0 \<Longrightarrow> st = Some INIT"
    and "0 < Ri \<Longrightarrow> \<exists>x. st = Some x \<and> x \<in> {EXEC, TERMINATED}"
    and "0 < N \<Longrightarrow> Ri = 0 \<Longrightarrow> \<exists>x. st = Some x \<and> x \<in> {INIT, HOLD, TERMINATED}"
proof -
  consider "st = None" | x where "st = Some x" by blast
  note cs = this
  show "0 < K \<Longrightarrow> \<exists>x. st = Some x \<and> x \<in> {INIT, HOLD, READY}"
    using assms by (cases rule: cs) (auto simp: fiber_ok_def split: fiber_state.splits)
  show "0 < Rt + Rc \<Longrightarrow> \<exists>x. st = Some x \<and> x \<in> {EXEC, READY, TERMINATED, EXCEPT}"
    using assms by (cases rule: cs) (auto simp: fiber_ok_def split: fiber_state.splits)
  show "0 < C \<Longrightarrow> Rc = 0 \<Longrightarrow> st = Some INIT"
    using assms by (cases rule: cs) (auto simp: fiber_ok_def split: fiber_state.splits)
  show "0 < Ri \<Longrightarrow> \<exists>x. st = Some x \<and> x \<in> {EXEC, TERMINATED}"
    using assms by (cases rule: cs) (auto simp: fiber_ok_def split: fiber_state.splits)
  show "0 < N \<Longrightarrow> Ri = 0 \<Longrightarrow> \<exists>x. st = Some x \<and> x \<in> {INIT, HOLD, TERMINATED}"
    using assms by (cases rule: cs) (auto simp: fiber_ok_def split: fiber_state.splits)
qed

lemma worker_fiber_states:
  assumes inv: "sys_inv y" and i: "sys_workers y i = Some w" and s: "s = sys_sched y"
  shows "picks f w \<Longrightarrow> \<exists>x. sc_states s f = Some x \<and> x \<in> {INIT, HOLD, READY}"
    and "runs_task f w \<or> runs_cb f w \<Longrightarrow>
      \<exists>x. sc_states s f = Some x \<and> x \<in> {EXEC, READY, TERMINATED, EXCEPT}"
    and "wk_cb w = Some f \<Longrightarrow> \<not> runs_cb f w \<Longrightarrow> sc_states s f = Some INIT"
    and "wk_phase w = Idling \<Longrightarrow> \<exists>x. sc_states s (wk_idle w) = Some x \<and> x \<in> {EXEC, TERMINATED}"
    and "wk_phase w \<noteq> Idling \<Longrightarrow> \<exists>x. sc_states s (wk_idle w) = Some x \<and> x \<in> {INIT, HOLD, TERMINATED}"
proof -
  note fin = sys_invD(3) [OF inv]
  note ok = sys_invD(2) [OF inv, unfolded fibers_ok_def, rule_format, folded s]
  note sp = count_ws_split(1) [OF fin i]
  show "picks f w \<Longrightarrow> \<exists>x. sc_states s f = Some x \<and> x \<in> {INIT, HOLD, READY}"
    by (rule fiber_ok_states(1) [OF ok]) (rule count_ws_pos [OF fin i])
  show "runs_task f w \<or> runs_cb f w \<Longrightarrow>
      \<exists>x. sc_states s f = Some x \<and> x \<in> {EXEC, READY, TERMINATED, EXCEPT}"
    by (rule fiber_ok_states(2) [OF ok]) (auto simp: sp)
  show "wk_cb w = Some f \<Longrightarrow> \<not> runs_cb f w \<Longrightarrow> sc_states s f = Some INIT"
  proof (rule fiber_ok_states(3) [OF ok])
    assume a: "wk_cb w = Some f" "\<not> runs_cb f w"
    show "0 < count_ws (\<lambda>w. wk_cb w = Some f) (sys_workers y)" using a by (simp add: sp)
    have "count_ws (\<lambda>w. wk_cb w = Some f) ((sys_workers y)(i := None)) = 0"
      using ok [of f] a(1) by (simp add: fiber_ok_def sp del: fun_upd_apply)
    then show "count_ws (runs_cb f) (sys_workers y) = 0"
      using others_running(1) [OF inv, of f i] a(2) by (simp add: sp)
  qed
  show "wk_phase w = Idling \<Longrightarrow> \<exists>x. sc_states s (wk_idle w) = Some x \<and> x \<in> {EXEC, TERMINATED}"
    by (rule fiber_ok_states(4) [OF ok]) (auto simp: sp)
  show "wk_phase w \<noteq> Idling \<Longrightarrow> \<exists>x. sc_states s (wk_idle w) = Some x \<and> x \<in> {INIT, HOLD, TERMINATED}"
  proof (rule fiber_ok_states(5) [OF ok])
    assume a: "wk_phase w \<noteq> Idling"
    show "0 < count_ws (\<lambda>v. wk_idle v = wk_idle w) (sys_workers y)" by (simp add: sp)
    have "count_ws (\<lambda>v. wk_idle v = wk_idle w) ((sys_workers y)(i := None)) = 0"
      using ok [of "wk_idle w"] by (simp add: fiber_ok_def sp del: fun_upd_apply)
    then show "count_ws (\<lambda>v. wk_phase v = Idling \<and> wk_idle v = wk_idle w) (sys_workers y) = 0"
      using others_running(2) [OF inv, of "wk_idle w" i] a by (simp add: sp)
  qed
qed

lemma set_state_fields [simp]:
  "sc_states (set_state a x s) = (sc_states s)(a \<mapsto> x)" "sc_fibers (set_state a x s) = sc_fibers s"
  "sc_activeThreadCount (set_state a x s) = sc_activeThreadCount s"
  "sc_idleThreadCount (set_state a x s) = sc_idleThreadCount s"
  "sc_autoStop (set_state a x s) = sc_autoStop s" "sc_stopping (set_state a x s) = sc_stopping s"
  by (simp_all add: set_state_def)

lemma tickle_fields [simp]:
  "sc_states (Scheduler_tickle s) = sc_states s" "sc_fibers (Scheduler_tickle s) = sc_fibers s"
  "sc_activeThreadCount (Scheduler_tickle s) = sc_activeThreadCount s"
  "sc_idleThreadCount (Scheduler_tickle s) = sc_idleThreadCount s"
  "sc_autoStop (Scheduler_tickle s) = sc_autoStop s" "sc_stopping (Scheduler_tickle s) = sc_stopping s"
  by (simp_all add: Scheduler_tickle_def)

lemma schedule_fields [simp]:
  "sc_states (Scheduler_schedule t s) = sc_states s"
  "sc_fibers (Scheduler_schedule t s) = (if task_null t then sc_fibers s else sc_fibers s @ [t])"
  "sc_activeThreadCount (Scheduler_schedule t s) = sc_activeThreadCount s"
  "sc_idleThreadCount (Scheduler_schedule t s) = sc_idleThreadCount s"
  "sc_autoStop (Scheduler_schedule t s) = sc_autoStop s"
  "sc_stopping (Scheduler_schedule t s) = sc_stopping s"
  by (simp_all add: Scheduler_schedule_def scheduleNoLock_def Let_def)

lemma state_of_fields [simp]:
  "state_of (s\<lparr>sc_idleThreadCount := n\<rparr>) a = state_of s a"
  "state_of (s\<lparr>sc_activeThreadCount := n\<rparr>) a = state_of s a"
  by (simp_all add: state_of_def)

lemma state_of_Some: "sc_states s a = Some x \<Longrightarrow> state_of s a = x"
  by (simp add: state_of_def)

lemma sys_inv_tickle [simp]:
  "sys_inv \<lparr>sys_sched = Scheduler_tickle s, sys_workers = ws\<rparr> = sys_inv \<lparr>sys_sched = s, sys_workers = ws\<rparr>"
  by (simp add: sys_inv_def counters_ok_def fibers_ok_def queued_def
      Scheduler_stopping_def)

lemmas phase_defs = busy_def idling_def picks_def worker_ok_def runs_task_def runs_cb_def

lemma run_pick_inv:
  assumes inv: "sys_inv y" and i: "sys_workers y i = Some w" and s: "s = sys_sched y"
    and ph: "wk_phase w = Looping"
  shows "\<exists>w' s'. run_pick w s = Inr (w', s') \<and>
    sys_inv \<lparr>sys_sched = s', sys_workers = (sys_workers y)(i \<mapsto> w')\<rparr>"
proof -
  have "\<forall>t \<in> set (sc_fibers s). \<not> task_null t"
    using sys_invD(4) [OF inv] s by (auto simp: task_ok_def task_null_def)
  then show ?thesis
  proof (cases rule: pick_loop_cases [of _ "wk_tid w" "state_of s"])
    case none
    have "sys_inv \<lparr>sys_sched = s, sys_workers = (sys_workers y)(i \<mapsto> w\<lparr>wk_phase := Picked None\<rparr>)\<rparr>"
      by (rule worker_frame [OF inv i s]) (use ph sys_invD(4) [OF inv] s in
        \<open>auto simp: fiber_frame_def phase_defs\<close>)
    then show ?thesis by (simp add: run_pick_def none(2) Let_def)
  next
    case (some pre t post)
    let ?s = "s\<lparr>sc_fibers := pre @ post, sc_activeThreadCount := sc_activeThreadCount s + 1\<rparr>"
    have "task_ok t" using sys_invD(4) [OF inv] s some(1) by simp
    moreover have "\<not> Scheduler_stopping s" using some(1) by (simp add: Scheduler_stopping_def)
    moreover have "fiber_frame w s (w\<lparr>wk_phase := Picked (Some t)\<rparr>) ?s"
      using some(1,3) ph
      by (auto simp: fiber_frame_def fiber_ok_def phase_defs queued_def eligible_def executing_def
          state_of_def split: option.splits fiber_state.splits)
    ultimately have "sys_inv \<lparr>sys_sched = ?s,
        sys_workers = (sys_workers y)(i \<mapsto> w\<lparr>wk_phase := Picked (Some t)\<rparr>)\<rparr>"
      by (intro worker_frame [OF inv i s]) (use ph sys_invD(4) [OF inv] s some(1) in
        \<open>auto simp: phase_defs\<close>)
    then show ?thesis by (auto simp: run_pick_def some(4) Let_def)
  qed
qed

lemmas fiber_ok_splits = option.splits fiber_state.splits if_splits

lemma run_fiber_inv:
  assumes inv: "sys_inv y" and i: "sys_workers y i = Some w" and s: "s = sys_sched y"
    and ph: "wk_phase w = Picked (Some t)" and f: "tk_fiber t = Some f"
  shows "\<not> ended (state_of s f)" and "\<exists>w' s'. run_fiber f w s = Inr (w', s') \<and>
    sys_inv \<lparr>sys_sched = s', sys_workers = (sys_workers y)(i \<mapsto> w')\<rparr>"
proof -
  have st: "\<exists>x. sc_states s f = Some x \<and> x \<in> {INIT, HOLD, READY}"
    using worker_fiber_states(1) [OF inv i s, of f] ph f by (simp add: picks_def)
  then show "\<not> ended (state_of s f)" by (auto simp: ended_def state_of_def)
  have "sys_inv \<lparr>sys_sched = set_state f EXEC s,
      sys_workers = (sys_workers y)(i \<mapsto> w\<lparr>wk_phase := Running f\<rparr>)\<rparr>"
  proof (rule worker_frame [OF inv i s])
    show "fiber_frame w s (w\<lparr>wk_phase := Running f\<rparr>) (set_state f EXEC s)"
      using st ph f
      by (auto simp: fiber_frame_def fiber_ok_def phase_defs queued_def split: fiber_ok_splits)
  qed (use st ph sys_invD(4) [OF inv] s in
      \<open>auto simp: phase_defs Scheduler_stopping_def split: if_splits\<close>)
  moreover have "sched_swapIn f s = Inr (set_state f EXEC s)"
    using st by (auto simp: sched_swapIn_def ended_def state_of_def)
  ultimately show "\<exists>w' s'. run_fiber f w s = Inr (w', s') \<and>
    sys_inv \<lparr>sys_sched = s', sys_workers = (sys_workers y)(i \<mapsto> w')\<rparr>"
    by (simp add: run_fiber_def)
qed

lemma run_cb_inv:
  assumes inv: "sys_inv y" and i: "sys_workers y i = Some w" and s: "s = sys_sched y"
    and ph: "wk_phase w = Picked (Some t)" and t: "tk_fiber t = None"
    and fresh: "sc_states s fresh = None"
  shows "\<exists>w' s'. run_cb fresh w s = Inr (w', s') \<and>
    sys_inv \<lparr>sys_sched = s', sys_workers = (sys_workers y)(i \<mapsto> w')\<rparr>"
proof -
  define f where "f = (case wk_cb w of Some f \<Rightarrow> f | None \<Rightarrow> fresh)"
  have st: "sc_states s f = (if wk_cb w = None then None else Some INIT)"
  proof (cases "wk_cb w")
    case None
    then show ?thesis using fresh by (simp add: f_def)
  next
    case (Some g)
    then show ?thesis using worker_fiber_states(3) [OF inv i s, of g] ph by (simp add: f_def runs_cb_def)
  qed
  let ?w = "w\<lparr>wk_cb := Some f, wk_phase := RunningCb f\<rparr>"
  have "sys_inv \<lparr>sys_sched = set_state f EXEC s, sys_workers = (sys_workers y)(i \<mapsto> ?w)\<rparr>"
  proof (rule worker_frame [OF inv i s])
    show "fiber_frame w s ?w (set_state f EXEC s)"
      unfolding fiber_frame_def
      using st ph t
      by (auto simp: fiber_ok_def phase_defs queued_def f_def split: fiber_ok_splits)
  qed (use st ph sys_invD(4) [OF inv] s in
      \<open>auto simp: phase_defs Scheduler_stopping_def split: if_splits\<close>)
  moreover have "run_cb fresh w s = Inr (?w, set_state f EXEC s)"
    using st by (auto simp: run_cb_def f_def sched_reset_def sched_swapIn_def ended_def state_of_def
        resettable_def set_state_def split: option.splits)
  ultimately show ?thesis by simp
qed

lemma run_idle_inv:
  assumes inv: "sys_inv y" and i: "sys_workers y i = Some w" and s: "s = sys_sched y"
    and ph: "wk_phase w = Picked None"
  shows "\<exists>w' s'. run_idle w s = Inr (w', s') \<and>
    sys_inv \<lparr>sys_sched = s', sys_workers = (sys_workers y)(i \<mapsto> w')\<rparr>"
proof -
  let ?f = "wk_idle w"
  have st: "\<exists>x. sc_states s ?f = Some x \<and> x \<in> {INIT, HOLD, TERMINATED}"
    using worker_fiber_states(5) [OF inv i s] ph by simp
  show ?thesis
  proof (cases "sc_states s ?f = Some TERMINATED")
    case True
    have "sys_inv \<lparr>sys_sched = s, sys_workers = (sys_workers y)(i \<mapsto> w\<lparr>wk_phase := Exited\<rparr>)\<rparr>"
      by (rule worker_frame [OF inv i s])
        (use True ph sys_invD(4) [OF inv] s in \<open>auto simp: fiber_frame_def phase_defs\<close>)
    then show ?thesis using True by (simp add: run_idle_def state_of_def)
  next
    case False
    let ?s = "set_state ?f EXEC (s\<lparr>sc_idleThreadCount := sc_idleThreadCount s + 1\<rparr>)"
    have "sys_inv \<lparr>sys_sched = ?s, sys_workers = (sys_workers y)(i \<mapsto> w\<lparr>wk_phase := Idling\<rparr>)\<rparr>"
    proof (rule worker_frame [OF inv i s])
      show "fiber_frame w s (w\<lparr>wk_phase := Idling\<rparr>) ?s"
        using st False ph
        by (auto simp: fiber_frame_def fiber_ok_def phase_defs queued_def split: fiber_ok_splits)
    qed (use st False ph sys_invD(4) [OF inv] s in
        \<open>auto simp: phase_defs Scheduler_stopping_def split: if_splits\<close>)
    moreover have "run_idle w s = Inr (w\<lparr>wk_phase := Idling\<rparr>, ?s)"
    proof -
      have "state_of s ?f \<in> {INIT, HOLD}" using st False by (auto simp: state_of_def)
      then show ?thesis by (auto simp: run_idle_def sched_swapIn_def ended_def)
    qed
    ultimately show ?thesis by simp
  qed
qed

lemma run_dispatch_inv:
  assumes inv: "sys_inv y" and i: "sys_workers y i = Some w" and s: "s = sys_sched y"
    and ph: "wk_phase w = Picked ft" and fresh: "sc_states s fresh = None"
  shows "\<exists>w' s'. run_dispatch fresh ft w s = Inr (w', s') \<and>
    sys_inv \<lparr>sys_sched = s', sys_workers = (sys_workers y)(i \<mapsto> w')\<rparr>"
proof (cases ft)
  case None
  then show ?thesis using run_idle_inv [OF inv i s] ph by (simp add: run_dispatch_def)
next
  case (Some t)
  note pt = ph [unfolded Some]
  have t: "task_ok t" using sys_invD(5) [OF inv i] pt by (simp add: worker_ok_def)
  show ?thesis
  proof (cases "tk_fiber t")
    case None
    with t show ?thesis using run_cb_inv [OF inv i s pt None fresh] Some
      by (simp add: run_dispatch_def task_ok_def)
  next
    case (Some f)
    show ?thesis using run_fiber_inv [OF inv i s pt Some] Some \<open>ft = Some t\<close>
      by (simp add: run_dispatch_def)
  qed
qed

lemma run_return_inv:
  assumes inv: "sys_inv y" and i: "sys_workers y i = Some w" and s: "s = sys_sched y"
    and ph: "wk_phase w = Running f \<and> ph = AfterFiber f \<or> wk_phase w = RunningCb f \<and> ph = AfterCb f"
  shows "\<exists>w' s'. run_return ph w s = Inr (w', s') \<and>
    sys_inv \<lparr>sys_sched = s', sys_workers = (sys_workers y)(i \<mapsto> w')\<rparr>"
proof -
  have "sys_inv \<lparr>sys_sched = s\<lparr>sc_activeThreadCount := sc_activeThreadCount s - 1\<rparr>,
      sys_workers = (sys_workers y)(i \<mapsto> w\<lparr>wk_phase := ph\<rparr>)\<rparr>"
  proof (rule worker_frame [OF inv i s])
    show "fiber_frame w s (w\<lparr>wk_phase := ph\<rparr>) (s\<lparr>sc_activeThreadCount := sc_activeThreadCount s - 1\<rparr>)"
      using ph by (auto simp: fiber_frame_def phase_defs queued_def)
  qed (use ph sys_invD(4) [OF inv] sys_invD(5) [OF inv i] s in \<open>auto simp: phase_defs\<close>)
  then show ?thesis by (simp add: run_return_def)
qed

lemma run_after_fiber_inv:
  assumes inv: "sys_inv y" and i: "sys_workers y i = Some w" and s: "s = sys_sched y"
    and ph: "wk_phase w = AfterFiber f"
  shows "\<exists>w' s'. run_after_fiber f w s = Inr (w', s') \<and>
    sys_inv \<lparr>sys_sched = s', sys_workers = (sys_workers y)(i \<mapsto> w')\<rparr>"
proof -
  obtain x where st: "sc_states s f = Some x" "x \<in> {EXEC, READY, TERMINATED, EXCEPT}"
    using worker_fiber_states(2) [OF inv i s, of f] ph by (auto simp: runs_task_def runs_cb_def)
  let ?s = "if x = READY then Scheduler_schedule (FiberAndThread_fiber (Some f) (-1)) s
    else if x = EXEC then set_state f HOLD s else s"
  have "sys_inv \<lparr>sys_sched = ?s, sys_workers = (sys_workers y)(i \<mapsto> w\<lparr>wk_phase := Looping\<rparr>)\<rparr>"
  proof (rule worker_frame [OF inv i s])
    show "fiber_frame w s (w\<lparr>wk_phase := Looping\<rparr>) ?s"
      using st ph
      by (auto simp: fiber_frame_def fiber_ok_def phase_defs queued_def task_null_def
          FiberAndThread_fiber_def split: fiber_ok_splits)
  qed (use st ph sys_invD(4) [OF inv] s in
      \<open>auto simp: phase_defs task_ok_def FiberAndThread_fiber_def split: if_splits\<close>)
  moreover have "run_after_fiber f w s = Inr (w\<lparr>wk_phase := Looping\<rparr>, ?s)"
    using st state_of_Some [OF st(1)] by (auto simp: run_after_fiber_def Let_def ended_def)
  ultimately show ?thesis by simp
qed

lemma run_after_cb_inv:
  assumes inv: "sys_inv y" and i: "sys_workers y i = Some w" and s: "s = sys_sched y"
    and ph: "wk_phase w = AfterCb f"
  shows "\<exists>w' s'. run_after_cb f w s = Inr (w', s') \<and>
    sys_inv \<lparr>sys_sched = s', sys_workers = (sys_workers y)(i \<mapsto> w')\<rparr>"
proof -
  have cb: "wk_cb w = Some f" using sys_invD(5) [OF inv i] ph by (simp add: worker_ok_def)
  obtain x where st: "sc_states s f = Some x" "x \<in> {EXEC, READY, TERMINATED, EXCEPT}"
    using worker_fiber_states(2) [OF inv i s, of f] ph by (auto simp: runs_task_def runs_cb_def)
  let ?s = "if x = READY then Scheduler_schedule (FiberAndThread_fiber (Some f) (-1)) s
    else if x = EXEC then set_state f HOLD s else set_state f INIT s"
  let ?w = "if x = READY \<or> x = EXEC then w\<lparr>wk_cb := None, wk_phase := Looping\<rparr>
    else w\<lparr>wk_phase := Looping\<rparr>"
  have "sys_inv \<lparr>sys_sched = ?s, sys_workers = (sys_workers y)(i \<mapsto> ?w)\<rparr>"
  proof (rule worker_frame [OF inv i s])
    show "fiber_frame w s ?w ?s"
      using st ph cb
      by (auto simp: fiber_frame_def fiber_ok_def phase_defs queued_def task_null_def
          FiberAndThread_fiber_def split: fiber_ok_splits)
  qed (use st ph cb sys_invD(4) [OF inv] s in
      \<open>auto simp: phase_defs task_ok_def FiberAndThread_fiber_def split: if_splits\<close>)
  moreover have "run_after_cb f w s = Inr (?w, ?s)"
    using st state_of_Some [OF st(1)]
    by (auto simp: run_after_cb_def Let_def ended_def sched_reset_def resettable_def)
  ultimately show ?thesis by simp
qed

lemma run_after_idle_inv:
  assumes inv: "sys_inv y" and i: "sys_workers y i = Some w" and s: "s = sys_sched y"
    and ph: "wk_phase w = Idling"
  shows "\<exists>w' s'. run_after_idle w s = Inr (w', s') \<and>
    sys_inv \<lparr>sys_sched = s', sys_workers = (sys_workers y)(i \<mapsto> w')\<rparr>"
proof -
  let ?f = "wk_idle w"
  obtain x where st: "sc_states s ?f = Some x" "x \<in> {EXEC, TERMINATED}"
    using worker_fiber_states(4) [OF inv i s] ph by auto
  let ?s = "s\<lparr>sc_idleThreadCount := sc_idleThreadCount s - 1\<rparr>"
  let ?s' = "if x = EXEC then set_state ?f HOLD ?s else ?s"
  have "sys_inv \<lparr>sys_sched = ?s', sys_workers = (sys_workers y)(i \<mapsto> w\<lparr>wk_phase := Looping\<rparr>)\<rparr>"
  proof (rule worker_frame [OF inv i s])
    show "fiber_frame w s (w\<lparr>wk_phase := Looping\<rparr>) ?s'"
      using st ph
      by (auto simp: fiber_frame_def fiber_ok_def phase_defs queued_def split: fiber_ok_splits)
  qed (use st ph sys_invD(4) [OF inv] s in
      \<open>auto simp: phase_defs Scheduler_stopping_def split: if_splits\<close>)
  moreover have "run_after_idle w s = Inr (w\<lparr>wk_phase := Looping\<rparr>, ?s')"
    using st state_of_Some [OF st(1)] by (auto simp: run_after_idle_def Let_def ended_def)
  ultimately show ?thesis by simp
qed

lemma run_step_inv:
  assumes inv: "sys_inv y" and i: "sys_workers y i = Some w"
    and fresh: "sc_states (sys_sched y) fresh = None"
  shows "\<exists>w' s'. run_step fresh w (sys_sched y) = Inr (w', s') \<and>
    sys_inv \<lparr>sys_sched = s', sys_workers = (sys_workers y)(i \<mapsto> w')\<rparr>"
proof (cases "wk_phase w")
  case Exited
  have "sys_inv \<lparr>sys_sched = sys_sched y, sys_workers = (sys_workers y)(i \<mapsto> w)\<rparr>"
    using inv i by (simp add: fun_upd_idem) (metis system.surjective unit.exhaust)
  then show ?thesis using Exited by (simp add: run_step_def)
qed (use run_pick_inv [OF inv i refl] run_dispatch_inv [OF inv i refl _ fresh]
    run_return_inv [OF inv i refl] run_after_fiber_inv [OF inv i refl] run_after_cb_inv [OF inv i refl]
    run_after_idle_inv [OF inv i refl] in \<open>simp_all add: run_step_def\<close>)

text \<open>Steps of the environment change the scheduler and leave the workers as they are.\<close>

lemma sched_frame:
  assumes inv: "sys_inv y" and s: "s = sys_sched y"
    and frame: "\<And>a K Rt Rc Ri C N. fiber_ok (sc_states s a) (queued s a) K Rt Rc Ri C N \<Longrightarrow>
      K = count_ws (picks a) (sys_workers y) \<Longrightarrow>
      Rt = count_ws (runs_task a) (sys_workers y) \<Longrightarrow>
      Rc = count_ws (runs_cb a) (sys_workers y) \<Longrightarrow>
      C = count_ws (\<lambda>w. wk_cb w = Some a) (sys_workers y) \<Longrightarrow>
      N = count_ws (\<lambda>w. wk_idle w = a) (sys_workers y) \<Longrightarrow>
      fiber_ok (sc_states s' a) (queued s' a) K Rt Rc Ri C N"
    and tasks: "\<And>t. t \<in> set (sc_fibers s') \<Longrightarrow> task_ok t"
    and cnt: "sc_activeThreadCount s' = sc_activeThreadCount s" "sc_idleThreadCount s' = sc_idleThreadCount s"
  shows "sys_inv (y\<lparr>sys_sched := s'\<rparr>)"
proof -
  have "fibers_ok (y\<lparr>sys_sched := s'\<rparr>)"
    unfolding fibers_ok_def
    using frame [OF sys_invD(2) [OF inv, unfolded fibers_ok_def, rule_format, folded s]] by simp
  moreover have "counters_ok (y\<lparr>sys_sched := s'\<rparr>)"
    using sys_invD(1) [OF inv] cnt s by (simp add: counters_ok_def)
  ultimately show ?thesis using inv tasks by (simp add: sys_inv_def)
qed

lemma yields_inv:
  assumes inv: "sys_inv y" and i: "sys_workers y i = Some w"
    and ph: "wk_phase w \<in> {Running f, RunningCb f}" and st: "state_of (sys_sched y) f = EXEC"
    and tok: "tokens y f = 0" and x: "x \<in> {READY, TERMINATED, EXCEPT}"
  shows "sys_inv (y\<lparr>sys_sched := set_state f x (sys_sched y)\<rparr>)"
proof -
  note fin = sys_invD(3) [OF inv]
  obtain z where z: "sc_states (sys_sched y) f = Some z"
    using worker_fiber_states(2) [OF inv i refl, of f] ph by (auto simp: runs_task_def runs_cb_def)
  have e: "sc_states (sys_sched y) f = Some EXEC" using z st by (simp add: state_of_def)
  have run: "0 < count_ws (runs_task f) (sys_workers y) \<or>
      0 < count_ws (runs_cb f) (sys_workers y)"
    using ph count_ws_pos [OF fin i, of "runs_task f"] count_ws_pos [OF fin i, of "runs_cb f"]
    by (auto simp: runs_task_def runs_cb_def)
  show ?thesis
  proof (rule sched_frame [OF inv refl])
    fix a K Rt Rc Ri C N
    assume ok: "fiber_ok (sc_states (sys_sched y) a) (queued (sys_sched y) a) K Rt Rc Ri C N"
      and cs: "K = count_ws (picks a) (sys_workers y)"
      "Rt = count_ws (runs_task a) (sys_workers y)"
      "Rc = count_ws (runs_cb a) (sys_workers y)"
    show "fiber_ok (sc_states (set_state f x (sys_sched y)) a) (queued (set_state f x (sys_sched y)) a)
        K Rt Rc Ri C N"
    proof (cases "a = f")
      case True
      have "queued (sys_sched y) a = 0" "K = 0" "0 < Rt \<or> 0 < Rc"
        using True cs tok run by (auto simp: tokens_def)
      then show ?thesis using ok x e True by (auto simp: fiber_ok_def queued_def)
    next
      case False
      then show ?thesis using ok by (simp add: queued_def)
    qed
  qed (use sys_invD(4) [OF inv] in \<open>auto split: if_splits\<close>)
qed

lemma idle_end_inv:
  assumes inv: "sys_inv y" and i: "sys_workers y i = Some w" and ph: "wk_phase w = Idling"
    and st: "state_of (sys_sched y) (wk_idle w) = EXEC" and stop: "Scheduler_stopping (sys_sched y)"
  shows "sys_inv (y\<lparr>sys_sched := set_state (wk_idle w) TERMINATED (sys_sched y)\<rparr>)"
proof -
  have e: "sc_states (sys_sched y) (wk_idle w) = Some EXEC"
    using worker_fiber_states(4) [OF inv i refl ph] st by (auto simp: state_of_def)
  have pos: "0 < count_ws (\<lambda>v. wk_idle v = wk_idle w) (sys_workers y)"
    using count_ws_pos [OF sys_invD(3) [OF inv] i, of "\<lambda>v. wk_idle v = wk_idle w"] by simp
  show ?thesis
  proof (rule sched_frame [OF inv refl])
    fix a K Rt Rc Ri C N
    assume ok: "fiber_ok (sc_states (sys_sched y) a) (queued (sys_sched y) a) K Rt Rc Ri C N"
      and N: "N = count_ws (\<lambda>w. wk_idle w = a) (sys_workers y)"
    have "0 < N" if "a = wk_idle w" using that N pos by simp
    then show "fiber_ok (sc_states (set_state (wk_idle w) TERMINATED (sys_sched y)) a)
        (queued (set_state (wk_idle w) TERMINATED (sys_sched y)) a) K Rt Rc Ri C N"
      using ok e by (cases "a = wk_idle w") (auto simp: fiber_ok_def queued_def)
  qed (use sys_invD(4) [OF inv] e stop in
      \<open>auto simp: Scheduler_stopping_def split: if_splits\<close>)
qed

lemma schedule_inv:
  assumes inv: "sys_inv y" and t: "may_schedule y t"
    and who: "\<not> sc_autoStop (sys_sched y) \<or>
      (\<exists>i w f. sys_workers y i = Some w \<and> wk_phase w \<in> {Running f, RunningCb f})"
  shows "sys_inv (y\<lparr>sys_sched := Scheduler_schedule t (sys_sched y)\<rparr>)"
proof -
  note fin = sys_invD(3) [OF inv]
  have "busy w" if "wk_phase w \<in> {Running f, RunningCb f}" for w f
    using that by (auto simp: busy_def)
  then have ns: "\<not> Scheduler_stopping (sys_sched y)"
    using who stopping_not_busy [OF inv] unfolding Scheduler_stopping_def by blast
  show ?thesis
  proof (rule sched_frame [OF inv refl])
    fix a K Rt Rc Ri C N
    assume ok: "fiber_ok (sc_states (sys_sched y) a) (queued (sys_sched y) a) K Rt Rc Ri C N"
      and cs: "K = count_ws (picks a) (sys_workers y)"
      "Rc = count_ws (runs_cb a) (sys_workers y)"
      "C = count_ws (\<lambda>w. wk_cb w = Some a) (sys_workers y)"
      "N = count_ws (\<lambda>w. wk_idle w = a) (sys_workers y)"
    show "fiber_ok (sc_states (Scheduler_schedule t (sys_sched y)) a)
        (queued (Scheduler_schedule t (sys_sched y)) a) K Rt Rc Ri C N"
    proof (cases "tk_fiber t = Some a")
      case True
      have own: "\<not> owned a w" if "sys_workers y j = Some w" for j w
        using t True that count_ws_zero [OF fin] by (auto simp: may_schedule_def)
      have "C \<le> Rc" and "N = 0"
        using own fin unfolding cs by (auto simp: count_ws_zero owned_def intro!: count_ws_mono)
      moreover have "queued (sys_sched y) a = 0" "K = 0"
        "\<exists>x. sc_states (sys_sched y) a = Some x \<and> x \<in> {INIT, HOLD, EXEC}"
        using t True cs(1) by (auto simp: may_schedule_def tokens_def)
      ultimately show ?thesis using ok True
        by (auto simp: fiber_ok_def queued_def task_null_def)
    next
      case False
      then show ?thesis using ok by (simp add: queued_def)
    qed
  qed (use sys_invD(4) [OF inv] t ns in
      \<open>auto simp: task_ok_def may_schedule_def split: if_splits option.splits\<close>)
qed

lemma new_fiber_inv:
  assumes inv: "sys_inv y" and "sc_states (sys_sched y) f = None"
  shows "sys_inv (y\<lparr>sys_sched := set_state f INIT (sys_sched y)\<rparr>)"
proof (rule sched_frame [OF inv refl])
  fix a K Rt Rc Ri C N
  assume "fiber_ok (sc_states (sys_sched y) a) (queued (sys_sched y) a) K Rt Rc Ri C N"
  then show "fiber_ok (sc_states (set_state f INIT (sys_sched y)) a)
      (queued (set_state f INIT (sys_sched y)) a) K Rt Rc Ri C N"
    using assms(2) by (cases "a = f") (auto simp: fiber_ok_def queued_def)
qed (use sys_invD(4) [OF inv] assms(2) in \<open>auto simp: Scheduler_stopping_def split: if_splits\<close>)

lemma worker_start_inv:
  assumes inv: "sys_inv y" and i: "sys_workers y i = None" and n: "card (dom (sys_workers y)) < 2 ^ 64 - 1"
    and f: "sc_states (sys_sched y) idle = None" and st: "run_start i idle (sys_sched y) = (w, s')"
  shows "sys_inv \<lparr>sys_sched = s', sys_workers = (sys_workers y)(i \<mapsto> w)\<rparr>" (is "sys_inv ?y")
proof -
  note fin = sys_invD(3) [OF inv]
  note new = count_ws_new [OF fin i]
  have w: "w = \<lparr>wk_tid = i, wk_idle = idle, wk_cb = None, wk_phase = Looping\<rparr>"
    and s': "s' = set_state idle INIT (sys_sched y)"
    using st by (auto simp: run_start_def)
  have "counters_ok ?y"
    using sys_invD(1) [OF inv] n i
    by (simp add: counters_ok_def new w s' busy_def idling_def domIff)
  moreover have "fibers_ok ?y"
    unfolding fibers_ok_def
  proof
    fix a
    show "fiber_ok (sc_states (sys_sched ?y) a) (queued (sys_sched ?y) a)
     (count_ws (picks a) (sys_workers ?y))
     (count_ws (runs_task a) (sys_workers ?y))
     (count_ws (runs_cb a) (sys_workers ?y))
     (count_ws (\<lambda>w. wk_phase w = Idling \<and> wk_idle w = a) (sys_workers ?y))
     (count_ws (\<lambda>w. wk_cb w = Some a) (sys_workers ?y))
     (count_ws (\<lambda>w. wk_idle w = a) (sys_workers ?y))"
      using sys_invD(2) [OF inv, unfolded fibers_ok_def, rule_format, of a] f
      by (cases "a = idle") (simp_all add: new w s' picks_def runs_task_def runs_cb_def queued_def fiber_ok_def [of None]
          fiber_ok_def [of "Some INIT"])
  qed
  ultimately show ?thesis
    using inv by (auto simp: sys_inv_def w s' worker_ok_def)
qed

lemma tickles_fields [simp]:
  "sc_states ((Scheduler_tickle ^^ n) s) = sc_states s" "sc_fibers ((Scheduler_tickle ^^ n) s) = sc_fibers s"
  "sc_activeThreadCount ((Scheduler_tickle ^^ n) s) = sc_activeThreadCount s"
  "sc_idleThreadCount ((Scheduler_tickle ^^ n) s) = sc_idleThreadCount s"
  "sc_autoStop ((Scheduler_tickle ^^ n) s) = sc_autoStop s"
  "sc_stopping ((Scheduler_tickle ^^ n) s) = sc_stopping s"
  by (induction n) simp_all

lemma stop_fields:
  assumes "Scheduler_stop stopping this cur s = Inr (act, s')"
  shows "sc_states s' = sc_states s" "sc_fibers s' = sc_fibers s" "sc_autoStop s'" "sc_stopping s'"
    "sc_activeThreadCount s' = sc_activeThreadCount s" "sc_idleThreadCount s' = sc_idleThreadCount s"
    "act = Stopped \<Longrightarrow> stopping s'"
  using assms
  by (auto simp: Scheduler_stop_def Let_def result_simps split: if_splits option.splits)

lemma start_fields:
  assumes "Scheduler_start ids s = Inr s'"
  shows "sc_states s' = sc_states s" "sc_fibers s' = sc_fibers s" "sc_autoStop s' = sc_autoStop s"
    "sc_activeThreadCount s' = sc_activeThreadCount s" "sc_idleThreadCount s' = sc_idleThreadCount s"
  using assms by (auto simp: Scheduler_start_def Let_def result_simps split: if_splits)

lemma sys_step_inv: "sys_step y y' \<Longrightarrow> sys_inv y \<Longrightarrow> sys_inv y'"
proof (induction rule: sys_step.induct)
  case (work y i w fresh w' s')
  then show ?case using run_step_inv [of y i w fresh] by auto
next
  case (start ids y s')
  note f = start_fields [OF start(1)]
  have "queued s' a = queued (sys_sched y) a" for a using f by (simp add: queued_def)
  then show ?case
    by (intro sched_frame [OF start(3) refl])
      (use start sys_invD(4) [OF start(3)] f in \<open>auto simp: Scheduler_stopping_def\<close>)
next
  case (stop this cur y act s')
  note f = stop_fields [OF stop(1)]
  have "queued s' a = queued (sys_sched y) a" for a using f by (simp add: queued_def)
  then show ?case
    by (intro sched_frame [OF stop(2) refl])
      (use sys_invD(4) [OF stop(2)] f in \<open>auto simp: Scheduler_stopping_def\<close>)
qed (use yields_inv idle_end_inv schedule_inv new_fiber_inv worker_start_inv in blast)+

lemma sys_reachable_inv: "sys_reachable y \<Longrightarrow> sys_inv y"
proof (induction rule: sys_reachable.induct)
  case (init threads use_caller name this root tid cur curf s cur' curf')
  then have "sc_fibers s = [] \<and> sc_activeThreadCount s = 0 \<and> sc_idleThreadCount s = 0 \<and>
      (sc_states s = Map.empty \<or> sc_states s = [root \<mapsto> INIT])"
    by (auto simp: Scheduler_new_def Let_def result_simps split: if_splits)
  then show ?case
    by (auto simp: sys_init_def sys_inv_def counters_ok_def fibers_ok_def fiber_ok_def
        queued_def)
qed (use sys_step_inv in blast)

section \<open>The interface to the fibers\<close>

text \<open>
  What \<open>Scheduler::run\<close> relies on: \<open>swapIn\<close> switches to a fiber that is neither running
  nor finished, a finished or unused fiber can be reset, and a fiber that came back can be marked
  \<open>HOLD\<close>. The operations of \<open>Fiber\<close> satisfy it on the thread's scheduling fiber, and so do
  the ones on bare states the loop above is written with.
\<close>

locale coroutine =
  fixes usable :: "'w \<Rightarrow> nat \<Rightarrow> bool" and st :: "'w \<Rightarrow> nat \<Rightarrow> fiber_state"
    and swap_in :: "nat \<Rightarrow> 'w \<Rightarrow> 'w result" and reset_to :: "nat \<Rightarrow> 'w \<Rightarrow> 'w result"
    and hold :: "nat \<Rightarrow> 'w \<Rightarrow> 'w"
  assumes swap_in_runs: "usable w a \<Longrightarrow> st w a \<noteq> EXEC \<Longrightarrow> \<not> ended (st w a) \<Longrightarrow>
      \<exists>w'. swap_in a w = Inr w' \<and> (\<forall>b. st w' b = (if b = a then EXEC else st w b))"
    and swap_in_fails: "usable w a \<Longrightarrow> st w a = EXEC \<or> ended (st w a) \<Longrightarrow> swap_in a w =
      Inl (AssertFailed (if st w a = EXEC then ''state_ != EXEC'' else ''never reach fiber_id''))"
    and reset_law: "usable w a \<Longrightarrow> resettable (st w a) \<Longrightarrow>
      \<exists>w'. reset_to a w = Inr w' \<and> usable w' a \<and> (\<forall>b. st w' b = (if b = a then INIT else st w b))"
    and hold_law: "usable w a \<Longrightarrow> st w a = EXEC \<Longrightarrow>
      usable (hold a w) a \<and> (\<forall>b. st (hold a w) b = (if b = a then HOLD else st w b))"
begin

text \<open>The callback fiber of \<open>run\<close>: once its callback has ended it is reset and runs again.\<close>

lemma reuse:
  assumes "usable w a" and "ended (st w a)"
  obtains w1 w2 where "reset_to a w = Inr w1" "swap_in a w1 = Inr w2"
    "\<And>b. st w2 b = (if b = a then EXEC else st w b)"
proof -
  have "resettable (st w a)" using assms(2) by (auto simp: ended_def resettable_def)
  then obtain w1 where w1: "reset_to a w = Inr w1" "usable w1 a"
    "\<forall>b. st w1 b = (if b = a then INIT else st w b)"
    using reset_law [OF assms(1)] by blast
  then obtain w2 where "swap_in a w1 = Inr w2" "\<forall>b. st w2 b = (if b = a then EXEC else st w1 b)"
    using swap_in_runs [OF w1(2)] by (auto simp: ended_def)
  with w1 show thesis using that by auto
qed

text \<open>A fiber that came back without a change of state resumes only after it was marked.\<close>

lemma resume_after_hold:
  assumes "usable w a" and "st w a = EXEC"
  shows "\<exists>e. swap_in a w = Inl e" and "\<exists>w'. swap_in a (hold a w) = Inr w'"
  using swap_in_fails [OF assms(1)] hold_law [OF assms] swap_in_runs [of "hold a w" a] assms(2)
  by (auto simp: ended_def)

end

interpretation bare: coroutine "\<lambda>s a. sc_states s a \<noteq> None" state_of sched_swapIn sched_reset
  "\<lambda>a. set_state a HOLD"
  by unfold_locales (auto simp: sched_swapIn_def sched_reset_def state_of_def ended_def)

definition on_scheduler_fiber :: "fiber_world \<Rightarrow> nat \<Rightarrow> bool" where
  "on_scheduler_fiber w a \<longleftrightarrow> fiber_inv w \<and> t_scheduler_fiber w = Some (control w) \<and>
     a \<in> dom (fibers w) \<and> a \<noteq> control w \<and> f_stack (fiber_at w a)"

lemma swapIn_fails:
  assumes "on_scheduler_fiber w a" and "f_state (fiber_at w a) = EXEC \<or> ended (f_state (fiber_at w a))"
  shows "Fiber_swapIn a w = Inl (AssertFailed (if f_state (fiber_at w a) = EXEC
    then ''state_ != EXEC'' else ''never reach fiber_id''))"
proof -
  have "f_ctx (fiber_at w a) = Finished" if "ended (f_state (fiber_at w a))"
    using fiber_invD(4) [of w] assms(1) that
    by (auto simp: life_inv_def on_scheduler_fiber_def iff del: domIff)
  with assms show ?thesis
    by (auto simp: Fiber_swapIn_def Let_def swapcontext_def ended_def on_scheduler_fiber_def)
qed

lemma Fiber_reset_usable:
  assumes ok: "on_scheduler_fiber w a" and st: "resettable (f_state (fiber_at w a))"
  shows "\<exists>w'. Fiber_reset a cb w = Inr w' \<and> on_scheduler_fiber w' a \<and>
    (\<forall>b. f_state (fiber_at w' b) = (if b = a then INIT else f_state (fiber_at w b)))"
proof -
  let ?w = "upd_fiber a (\<lambda>f. f\<lparr>f_cb := cb, f_ctx := Entry EntryMainFunc, f_state := INIT\<rparr>) w"
  have r: "Fiber_reset a cb w = Inr ?w"
    using assms by (simp add: Fiber_reset_def on_scheduler_fiber_def Let_def)
  then have "fiber_inv ?w"
    using reset_inv [of w a cb ?w] ok by (simp add: on_scheduler_fiber_def)
  then show ?thesis using r ok by (auto simp: on_scheduler_fiber_def)
qed

interpretation fib: coroutine on_scheduler_fiber "\<lambda>w a. f_state (fiber_at w a)" Fiber_swapIn
  "\<lambda>a. Fiber_reset a cb" Fiber_set_hold for cb
proof
  fix w a
  assume ok: "on_scheduler_fiber w a"
  note pre = ok [unfolded on_scheduler_fiber_def]
  show "f_state (fiber_at w a) \<noteq> EXEC \<Longrightarrow> \<not> ended (f_state (fiber_at w a)) \<Longrightarrow>
    \<exists>w'. Fiber_swapIn a w = Inr w' \<and>
      (\<forall>b. f_state (fiber_at w' b) = (if b = a then EXEC else f_state (fiber_at w b)))"
    using swapIn_result [of w a] swapIn_step(4) [of w a] pre
    by (cases "f_state (fiber_at w a)") (auto simp: ended_def)
  show "f_state (fiber_at w a) = EXEC \<Longrightarrow> on_scheduler_fiber (Fiber_set_hold a w) a \<and>
    (\<forall>b. f_state (fiber_at (Fiber_set_hold a w) b) = (if b = a then HOLD else f_state (fiber_at w b)))"
    using hold_inv [of w a] pre by (auto simp: on_scheduler_fiber_def Fiber_set_hold_def)
qed (use swapIn_fails Fiber_reset_usable in blast)+

section \<open>Properties\<close>

text \<open>C7. However the workers and the threads that schedule tasks interleave, no step of
  \<open>Scheduler::run\<close> fails an assertion, provided a fiber is scheduled once for every time it
  holds: no fiber is swapped in while it runs, none is resumed after it ended, the
  callback fiber is always in a state that may be reset, and no empty task is in the queue.\<close>

theorem run_never_aborts:
  assumes "sys_reachable y" and "sys_workers y i = Some w"
    and "sc_states (sys_sched y) fresh = None"
  shows "\<exists>w' s'. run_step fresh w (sys_sched y) = Inr (w', s')"
  using run_step_inv [OF sys_reachable_inv [OF assms(1)] assms(2,3)] by blast

text \<open>A scheduler with two workers and one function in its queue.\<close>

definition sample_scheduler :: scheduler where
  "sample_scheduler = \<lparr>sc_name = ''s'', sc_threads = [], sc_fibers = [], sc_rootFiber = None,
     sc_threadIds = [], sc_threadCount = 2, sc_activeThreadCount = 0, sc_idleThreadCount = 0,
     sc_stopping = True, sc_autoStop = False, sc_rootThread = -1, sc_states = Map.empty,
     sc_tickles = 0\<rparr>"

definition sample_worker :: "int \<Rightarrow> nat \<Rightarrow> worker" where
  "sample_worker tid idle = \<lparr>wk_tid = tid, wk_idle = idle, wk_cb = None, wk_phase = Looping\<rparr>"

definition sample_system :: system where
  "sample_system = \<lparr>sys_sched = Scheduler_schedule (FiberAndThread_cb (Some (UserFn 1)) (-1))
       (set_state 101 INIT (set_state 100 INIT sample_scheduler)),
     sys_workers = [10 \<mapsto> sample_worker 10 100, 11 \<mapsto> sample_worker 11 101]\<rparr>"

lemma sample_system_reachable: "sys_reachable sample_system"
proof -
  let ?y1 = "\<lparr>sys_sched = set_state 100 INIT sample_scheduler,
    sys_workers = [10 \<mapsto> sample_worker 10 100]\<rparr>"
  let ?y2 = "\<lparr>sys_sched = set_state 101 INIT (set_state 100 INIT sample_scheduler),
    sys_workers = [10 \<mapsto> sample_worker 10 100, 11 \<mapsto> sample_worker 11 101]\<rparr>"
  have "Scheduler_new 2 False ''s'' 1 0 10 None None Map.empty = Inr (sample_scheduler, None, None)"
    by (simp add: Scheduler_new_def sample_scheduler_def)
  then have y0: "sys_reachable (sys_init sample_scheduler)" by (rule sys_reachable.init)
  have "sys_step (sys_init sample_scheduler) ?y1"
    using sys_step.worker_start [of "sys_init sample_scheduler" 10 100 "sample_worker 10 100"
        "set_state 100 INIT sample_scheduler"]
    by (simp add: sys_init_def run_start_def sample_worker_def sample_scheduler_def)
  with y0 have y1: "sys_reachable ?y1" by (rule sys_reachable.step)
  have "sys_step ?y1 ?y2"
    using sys_step.worker_start [of ?y1 11 101 "sample_worker 11 101"
        "set_state 101 INIT (set_state 100 INIT sample_scheduler)"]
    by (simp add: run_start_def sample_worker_def sample_scheduler_def)
  with y1 have y2: "sys_reachable ?y2" by (rule sys_reachable.step)
  have "sys_step ?y2 sample_system"
    using sys_step.schedule [of ?y2 "FiberAndThread_cb (Some (UserFn 1)) (-1)"]
    by (simp add: sample_system_def may_schedule_def FiberAndThread_cb_def sample_scheduler_def)
  with y2 show ?thesis by (rule sys_reachable.step)
qed

theorem run_never_aborts_witness:
  "sys_reachable sample_system \<and>
   (\<exists>w' s'. run_step 500 (sample_worker 10 100) (sys_sched sample_system) = Inr (w', s'))"
  using run_never_aborts [OF sample_system_reachable, of 10 "sample_worker 10 100" 500]
    sample_system_reachable
  by (simp add: sample_system_def sample_scheduler_def)

definition executes :: "nat \<Rightarrow> worker \<Rightarrow> bool" where
  "executes f w \<longleftrightarrow> runs_task f w \<or> runs_cb f w \<or>
     (wk_phase w = Idling \<and> wk_idle w = f)"

lemma count_ws_disj:
  assumes "finite (dom ws)" and "\<And>w. \<not> (P w \<and> P' w)"
  shows "count_ws (\<lambda>w. P w \<or> P' w) ws = count_ws P ws + count_ws P' ws"
proof -
  have "{i. \<exists>w. ws i = Some w \<and> (P w \<or> P' w)} =
      {i. \<exists>w. ws i = Some w \<and> P w} \<union> {i. \<exists>w. ws i = Some w \<and> P' w}" by auto
  moreover have "finite {i. \<exists>w. ws i = Some w \<and> P w}" "finite {i. \<exists>w. ws i = Some w \<and> P' w}"
    by (rule finite_subset [OF _ assms(1)]; auto)+
  ultimately show ?thesis
    unfolding count_ws_def by (subst card_Un_disjoint [symmetric]) (use assms(2) in auto)
qed



definition handover :: "system \<Rightarrow> bool" where
  "handover y \<longleftrightarrow> (\<exists>i w f. sys_workers y i = Some w \<and>
     wk_phase w \<in> {AfterFiber f, AfterCb f} \<and> state_of (sys_sched y) f = READY)"

lemma stopping_work:
  assumes "Scheduler_stopping s" and "\<not> busy w"
    and "\<And>f. wk_phase w \<in> {AfterFiber f, AfterCb f} \<Longrightarrow> state_of s f \<noteq> READY"
    and "run_step fresh w s = Inr (w', s')" and "fresh \<notin> dom (sc_states s)"
  shows "Scheduler_stopping s' \<and> (\<forall>f. wk_phase w' \<notin> {AfterFiber f, AfterCb f}) \<and>
    (\<forall>f. state_of s' f = READY \<longrightarrow> state_of s f = READY)"
  using assms
  by (cases "wk_phase w")
    (auto simp: run_step_def run_pick_def run_dispatch_def run_idle_def sched_swapIn_def run_after_fiber_def
      run_after_cb_def run_after_idle_def sched_reset_def Scheduler_stopping_def busy_def Let_def
      state_of_def result_simps split: if_splits option.splits)

lemma stopping_stable:
  assumes step: "sys_step y y'" and inv: "sys_inv y"
    and stop: "Scheduler_stopping (sys_sched y)" "\<not> handover y"
  shows "Scheduler_stopping (sys_sched y') \<and> \<not> handover y'"
  using step
proof cases
  case (work i w fresh w' s')
  have "state_of (sys_sched y) f \<noteq> READY" if "wk_phase w \<in> {AfterFiber f, AfterCb f}" for f
    using stop(2) work(2) that by (auto simp: handover_def)
  from stopping_work [OF stop(1) stopping_not_busy [OF inv stop(1) work(2)] this work(3)] work(4)
  show ?thesis
    using stop(2) work(1,2) by (auto simp: handover_def split: if_splits) blast+
next
  case (yields i w f x)
  then have "busy w" by (auto simp: busy_def)
  with stopping_not_busy [OF inv stop(1) yields(2)] show ?thesis by simp
next
  case (schedule t)
  then obtain i w f where "sys_workers y i = Some w" "wk_phase w \<in> {Running f, RunningCb f}"
    using stop(1) by (auto simp: Scheduler_stopping_def)
  then show ?thesis using stopping_not_busy [OF inv stop(1), of i w] by (auto simp: busy_def)
next
  case (worker_start i idle w s')
  have "wk_phase w = Looping" "Scheduler_stopping s'"
    "\<And>f. state_of s' f = READY \<Longrightarrow> state_of (sys_sched y) f = READY"
    using worker_start(5) stop(1)
    by (auto simp: run_start_def Scheduler_stopping_def state_of_def split: if_splits)
  with stop(2) worker_start(1) show ?thesis by (auto simp: handover_def split: if_splits)
next
  case (stop this cur act s')
  note f = stop_fields [OF stop(2)]
  then have "state_of s' = state_of (sys_sched y)" by (auto simp: state_of_def)
  with f show ?thesis using assms(3,4) stop(1) by (auto simp: handover_def Scheduler_stopping_def)
next
  case (start ids s')
  then show ?thesis using stop by (auto simp: Scheduler_stopping_def)
qed (use stop in \<open>auto simp: handover_def Scheduler_stopping_def state_of_def split: if_splits\<close>)



text \<open>The exception is real: \<open>run\<close> decrements \<open>activeThreadCount_\<close> before it schedules a fiber
  that yielded as \<open>READY\<close>, so in between \<open>stopping()\<close> is true although a task is left.\<close>

lemma stopping_race:
  assumes "wk_phase w = Running f" and "state_of s f = READY" and "sc_fibers s = []"
    and "sc_activeThreadCount s = 1" and "sc_autoStop s" and "sc_stopping s"
  shows "\<exists>w1 s1 w2 s2. run_step n w s = Inr (w1, s1) \<and> Scheduler_stopping s1 \<and>
    run_step n w1 s1 = Inr (w2, s2) \<and> sc_fibers s2 = [FiberAndThread_fiber (Some f) (-1)] \<and>
    \<not> Scheduler_stopping s2"
  using assms
  by (auto simp: run_step_def run_return_def run_after_fiber_def Scheduler_stopping_def Let_def
      task_null_def FiberAndThread_fiber_def)

text \<open>C10. The locked section of \<open>run\<close> takes the first task of the queue that is not bound to
  another thread and whose fiber is not running, leaves all others in their order,
  and wakes another worker exactly when a task behind it remains or one before it belongs to
  another thread.\<close>

theorem run_pick_fifo:
  assumes "\<forall>t \<in> set (sc_fibers s). \<not> task_null t"
  shows "(if \<exists>t \<in> set (sc_fibers s). eligible (wk_tid w) (state_of s) t
     then \<exists>pre t post s'. sc_fibers s = pre @ t # post \<and>
       (\<forall>u \<in> set pre. \<not> eligible (wk_tid w) (state_of s) u) \<and> eligible (wk_tid w) (state_of s) t \<and>
       run_pick w s = Inr (w\<lparr>wk_phase := Picked (Some t)\<rparr>, s') \<and> sc_fibers s' = pre @ post \<and>
       sc_activeThreadCount s' = sc_activeThreadCount s + 1 \<and>
       sc_tickles s' = sc_tickles s +
         of_bool (post \<noteq> [] \<or> (\<exists>u \<in> set pre. foreign (wk_tid w) u))
     else \<exists>s'. run_pick w s = Inr (w\<lparr>wk_phase := Picked None\<rparr>, s') \<and> sc_fibers s' = sc_fibers s \<and>
       sc_activeThreadCount s' = sc_activeThreadCount s \<and>
       sc_tickles s' = sc_tickles s + of_bool (\<exists>u \<in> set (sc_fibers s). foreign (wk_tid w) u))"
  using assms
proof (cases rule: pick_loop_cases [of _ "wk_tid w" "state_of s"])
  case none
  then show ?thesis by (auto simp: run_pick_def Let_def Scheduler_tickle_def)
next
  case (some pre t post)
  then have "\<exists>u \<in> set (sc_fibers s). eligible (wk_tid w) (state_of s) u" by auto
  moreover have "\<exists>s'. run_pick w s = Inr (w\<lparr>wk_phase := Picked (Some t)\<rparr>, s') \<and>
      sc_fibers s' = pre @ post \<and> sc_activeThreadCount s' = sc_activeThreadCount s + 1 \<and>
      sc_tickles s' = sc_tickles s + of_bool (post \<noteq> [] \<or> (\<exists>u \<in> set pre. foreign (wk_tid w) u))"
    using some(4) by (auto simp: run_pick_def Let_def Scheduler_tickle_def)
  ultimately show ?thesis using some(1-3) by (simp only: if_True) blast
qed

theorem run_pick_fifo_witness:
  "\<exists>s'. run_pick (sample_worker 10 100) (sys_sched sample_system) =
     Inr ((sample_worker 10 100)\<lparr>wk_phase := Picked (Some (FiberAndThread_cb (Some (UserFn 1)) (-1)))\<rparr>, s')
     \<and> sc_fibers s' = []"
proof -
  have q: "sc_fibers (sys_sched sample_system) = [FiberAndThread_cb (Some (UserFn 1)) (-1)]"
    by (simp add: sample_system_def sample_scheduler_def FiberAndThread_cb_def task_null_def)
  have "\<exists>t \<in> set (sc_fibers (sys_sched sample_system)).
      eligible (wk_tid (sample_worker 10 100)) (state_of (sys_sched sample_system)) t"
    by (simp add: q eligible_def foreign_def executing_def FiberAndThread_cb_def)
  then show ?thesis
    using run_pick_fifo [of "sys_sched sample_system" "sample_worker 10 100"]
    by (auto simp: q task_null_def FiberAndThread_cb_def Cons_eq_append_conv)
qed

text \<open>C11. The states the loop works on are those of the fibers: on the scheduling fiber of a
  thread, \<open>Fiber::swapIn\<close> and \<open>Fiber::reset\<close> succeed and fail, with the same assertion and the
  same resulting states, as the operations on states \<open>run\<close> is modelled with.\<close>

theorem fiber_ops_refine:
  assumes "on_scheduler_fiber w a" and "\<forall>b. sc_states s b = map_option f_state (fibers w b)"
    and "cmd \<in> {(Fiber_swapIn a, sched_swapIn a), (Fiber_reset a cb, sched_reset a)}"
  shows "map_sum id (\<lambda>w' b. f_state (fiber_at w' b)) (fst cmd w) = map_sum id state_of (snd cmd s)"
proof -
  have eq: "state_of s b = (case fibers w b of None \<Rightarrow> INIT | Some f \<Rightarrow> f_state f)" for b
    using assms(2) by (simp add: state_of_def split: option.splits)
  then have st: "state_of s = (\<lambda>b. f_state (fiber_at w b))"
    by (auto simp: fiber_at_def null_fiber_def split: option.splits)
  have a: "sc_states s a \<noteq> None"
    using assms(1,2) by (auto simp: on_scheduler_fiber_def)
  have "map_sum id (\<lambda>w' b. f_state (fiber_at w' b)) (Fiber_swapIn a w) = map_sum id state_of (sched_swapIn a s)"
  proof (cases "state_of s a = EXEC \<or> ended (state_of s a)")
    case True
    then show ?thesis
      using fib.swap_in_fails [OF assms(1)] bare.swap_in_fails [OF a] st by simp
  next
    case False
    then obtain w' s' where "Fiber_swapIn a w = Inr w'" "sched_swapIn a s = Inr s'"
      "\<forall>b. f_state (fiber_at w' b) = (if b = a then EXEC else f_state (fiber_at w b))"
      "\<forall>b. state_of s' b = (if b = a then EXEC else state_of s b)"
      using fib.swap_in_runs [OF assms(1)] bare.swap_in_runs [OF a] st by auto
    then show ?thesis using st by auto
  qed
  moreover have "map_sum id (\<lambda>w' b. f_state (fiber_at w' b)) (Fiber_reset a cb w) =
      map_sum id state_of (sched_reset a s)"
  proof (cases "resettable (state_of s a)")
    case True
    then obtain w' s' where "Fiber_reset a cb w = Inr w'" "sched_reset a s = Inr s'"
      "\<forall>b. f_state (fiber_at w' b) = (if b = a then INIT else f_state (fiber_at w b))"
      "\<forall>b. state_of s' b = (if b = a then INIT else state_of s b)"
      using fib.reset_law [OF assms(1), of cb] bare.reset_law [OF a] st by auto
    then show ?thesis using st by auto
  next
    case False
    then show ?thesis
      using assms(1) st by (simp add: Fiber_reset_def sched_reset_def on_scheduler_fiber_def Let_def)
  qed
  ultimately show ?thesis using assms(3) by auto
qed

definition sample_states :: scheduler where
  "sample_states = sample_scheduler\<lparr>sc_states := map_option f_state \<circ> fibers sample_world\<rparr>"

theorem fiber_ops_refine_witness:
  "map_sum id (\<lambda>w' b. f_state (fiber_at w' b)) (Fiber_swapIn 2 sample_world) =
     map_sum id state_of (sched_swapIn 2 sample_states) \<and> state_of sample_states 2 = INIT"
proof -
  have "on_scheduler_fiber sample_world 2"
    using fiber_reachable_inv [OF sample_world_reachable] sample_world_facts
    by (simp add: on_scheduler_fiber_def)
      (simp add: sample_world_def Fiber_new_def fiber_at_def Let_def)
  moreover have "state_of sample_states 2 = INIT"
    by (simp add: sample_states_def sample_world_def Fiber_new_def state_of_def Let_def)
  ultimately show ?thesis
    using fiber_ops_refine [of sample_world 2 sample_states "(Fiber_swapIn 2, sched_swapIn 2)" None]
    by (simp add: sample_states_def)
qed

text \<open>Scheduling a waiting fiber twice is not safe: \<open>run\<close> tests for \<open>EXEC\<close> under the lock but
  \<open>swapIn\<close> stores it after the lock is released, so two workers can both take the fiber, and the
  second one aborts.\<close>

theorem double_schedule_aborts:
  assumes "sc_states s f = Some HOLD" and "sc_fibers s = []"
    and "wk_phase v = Looping" and "wk_phase w = Looping"
    and "s0 = Scheduler_schedule (FiberAndThread_fiber (Some f) (-1))
      (Scheduler_schedule (FiberAndThread_fiber (Some f) (-1)) s)"
  shows "\<exists>v1 s1 w1 s2 v2 s3. run_step n v s0 = Inr (v1, s1) \<and> run_step n w s1 = Inr (w1, s2) \<and>
    run_step n v1 s2 = Inr (v2, s3) \<and> run_step n w1 s3 = Inl (AssertFailed ''state_ != EXEC'')"
proof -
  let ?t = "FiberAndThread_fiber (Some f) (-1)"
  have q: "sc_fibers s0 = [?t, ?t]" and st: "state_of s0 f = HOLD"
    using assms by (simp_all add: task_null_def FiberAndThread_fiber_def state_of_def)
  let ?s1 = "Scheduler_tickle (s0\<lparr>sc_fibers := [?t], sc_activeThreadCount := sc_activeThreadCount s0 + 1\<rparr>)"
  let ?s2 = "?s1\<lparr>sc_fibers := [], sc_activeThreadCount := sc_activeThreadCount ?s1 + 1\<rparr>"
  have ok: "\<not> foreign tid ?t" "\<not> task_null ?t" "executing x ?t \<longleftrightarrow> x f = EXEC" for tid x
    by (simp_all add: foreign_def task_null_def executing_def FiberAndThread_fiber_def)
  have st1: "state_of ?s1 f = HOLD" "state_of ?s2 f = HOLD"
    using st by (simp_all add: state_of_def)
  have 1: "run_step n v s0 = Inr (v\<lparr>wk_phase := Picked (Some ?t)\<rparr>, ?s1)"
    using assms(3) q st ok by (simp add: run_step_def run_pick_def)
  have 2: "run_step n w ?s1 = Inr (w\<lparr>wk_phase := Picked (Some ?t)\<rparr>, ?s2)"
    using assms(4) st1 ok by (simp add: run_step_def run_pick_def)
  have 3: "run_step n (v\<lparr>wk_phase := Picked (Some ?t)\<rparr>) ?s2 =
      Inr (v\<lparr>wk_phase := Running f\<rparr>, set_state f EXEC ?s2)"
    using st1 by (simp add: run_step_def run_dispatch_def run_fiber_def sched_swapIn_def
        FiberAndThread_fiber_def ended_def)
  have 4: "run_step n (w\<lparr>wk_phase := Picked (Some ?t)\<rparr>) (set_state f EXEC ?s2) =
      Inl (AssertFailed ''state_ != EXEC'')"
    by (simp add: run_step_def run_dispatch_def run_fiber_def sched_swapIn_def
        FiberAndThread_fiber_def ended_def state_of_def)
  from 1 2 3 4 show ?thesis by blast
qed

theorem double_schedule_aborts_witness:
  "\<exists>v1 s1 w1 s2 v2 s3.
     run_step 500 (sample_worker 10 100) (Scheduler_schedule (FiberAndThread_fiber (Some 7) (-1))
      (Scheduler_schedule (FiberAndThread_fiber (Some 7) (-1)) (set_state 7 HOLD sample_scheduler)))
       = Inr (v1, s1) \<and> run_step 500 (sample_worker 11 101) s1 = Inr (w1, s2) \<and>
     run_step 500 v1 s2 = Inr (v2, s3) \<and> run_step 500 w1 s3 = Inl (AssertFailed ''state_ != EXEC'')"
  using double_schedule_aborts [of "set_state 7 HOLD sample_scheduler" 7 "sample_worker 10 100"
      "sample_worker 11 101" _ 500]
  by (simp add: sample_scheduler_def sample_worker_def)

text \<open>An idle fiber that ended by an exception is not noticed: only \<open>TERM\<close> leaves the loop, so
  the next round swaps the finished fiber in.\<close>

lemma idle_exception_aborts:
  assumes "state_of s (wk_idle w) = EXCEPT"
  shows "run_idle w s = Inl (AssertFailed ''never reach fiber_id'')"
  using assms by (simp add: run_idle_def sched_swapIn_def ended_def)

end
