(* ===== verification/OrderedSet.thy ===== *)
theory OrderedSet
  imports Prelude
begin

text \<open>
  The part of \<open>std::set\<close> the sources use, over an arbitrary comparator: a set is the list
  of its elements in iteration order, an iterator is a position in that list and
  \<open>end()\<close> is its length. The operations stand at the top level with the comparator as an
  argument; the locales below state what the C++ standard asks of a comparator and prove,
  once, what the operations then guarantee.
\<close>

section \<open>Operations\<close>

fun set_insert :: "('a \<Rightarrow> 'a \<Rightarrow> bool) \<Rightarrow> 'a \<Rightarrow> 'a list \<Rightarrow> 'a list" where
  "set_insert lt x [] = [x]"
| "set_insert lt x (y # ys) =
     (if lt x y then x # y # ys
      else if lt y x then y # set_insert lt x ys
      else y # ys)"

definition set_lower_bound :: "('a \<Rightarrow> 'a \<Rightarrow> bool) \<Rightarrow> 'a \<Rightarrow> 'a list \<Rightarrow> nat" where
  "set_lower_bound lt x xs = length (takeWhile (\<lambda>y. lt y x) xs)"

definition set_find :: "('a \<Rightarrow> 'a \<Rightarrow> bool) \<Rightarrow> 'a \<Rightarrow> 'a list \<Rightarrow> nat" where
  "set_find lt x xs =
     (let i = set_lower_bound lt x xs
      in if i < length xs \<and> \<not> lt x (xs ! i) then i else length xs)"

text \<open>Erasing at \<open>end()\<close> is undefined behaviour.\<close>

definition set_erase :: "nat \<Rightarrow> 'a list \<Rightarrow> 'a list result" where
  "set_erase i xs =
     (if i < length xs then Inr (take i xs @ drop (Suc i) xs)
      else Inl (Undefined ''erase(end())''))"

section \<open>Comparators\<close>

locale weak_ordering =
  fixes lt :: "'a \<Rightarrow> 'a \<Rightarrow> bool"
  assumes lt_irrefl: "\<not> lt x x"
    and lt_trans: "lt x y \<Longrightarrow> lt y z \<Longrightarrow> lt x z"
    and incomp_trans: "\<not> lt x y \<Longrightarrow> \<not> lt y x \<Longrightarrow> \<not> lt y z \<Longrightarrow> \<not> lt z y \<Longrightarrow> \<not> lt x z"
begin

lemma lt_asym: "lt x y \<Longrightarrow> \<not> lt y x"
  using lt_irrefl lt_trans by blast

lemma lt_equiv_left: "\<not> lt x y \<Longrightarrow> \<not> lt y x \<Longrightarrow> lt y z \<Longrightarrow> lt x z"
  using incomp_trans lt_trans by blast

lemma set_insert_subset: "set (set_insert lt x xs) \<subseteq> insert x (set xs)"
  by (induction xs) auto

lemma sorted_set_insert: "sorted_wrt lt xs \<Longrightarrow> sorted_wrt lt (set_insert lt x xs)"
proof (induction xs)
  case (Cons a xs)
  then show ?case
    using set_insert_subset [of x xs] lt_trans by auto
qed simp

lemma sorted_set_distinct: "sorted_wrt lt xs \<Longrightarrow> distinct xs"
  by (induction xs) (auto simp: lt_irrefl)

lemma lower_bound_filter:
  "sorted_wrt lt xs \<Longrightarrow> takeWhile (\<lambda>y. lt y x) xs = filter (\<lambda>y. lt y x) xs"
  by (erule takeWhile_eq_filter_sorted) (blast intro: lt_trans)

lemma set_insert_mem_equiv:
  assumes "sorted_wrt lt xs" and "\<forall>y\<in>set xs. lt x y \<or> lt y x"
  shows "set (set_insert lt x xs) = insert x (set xs)"
  using assms by (induction xs) auto

lemma length_set_insert: "length (set_insert lt x xs) \<le> Suc (length xs)"
  by (induction xs) auto

lemma lt_equiv_right: "\<not> lt x y \<Longrightarrow> \<not> lt y x \<Longrightarrow> lt z y \<Longrightarrow> lt z x"
  using incomp_trans lt_trans by blast

lemma find_hit:
  "set_find lt x xs < length xs \<Longrightarrow> \<not> lt x (xs ! set_find lt x xs) \<and> \<not> lt (xs ! set_find lt x xs) x"
  using nth_length_takeWhile [of "\<lambda>y. lt y x" xs]
  by (auto simp: set_find_def set_lower_bound_def Let_def split: if_splits)

lemma find_equiv:
  assumes "sorted_wrt lt xs" and "y \<in> set xs" and "\<not> lt x y" and "\<not> lt y x"
  shows "set_find lt x xs < length xs \<and> xs ! set_find lt x xs = y"
proof -
  obtain ys zs where xs: "xs = ys @ y # zs" using assms(2) by (auto simp: in_set_conv_decomp)
  have "\<forall>z \<in> set ys. lt z x"
    using assms(1) xs lt_equiv_right [OF assms(3,4)] by (auto simp: sorted_wrt_append)
  then have "takeWhile (\<lambda>y. lt y x) xs = ys"
    using assms(4) xs by (simp add: takeWhile_append)
  then show ?thesis using assms(3) by (simp add: set_find_def set_lower_bound_def Let_def xs)
qed

end

text \<open>A comparator under which equivalent elements are equal: the set holds every element
  inserted, and \<open>find\<close> returns the element itself.\<close>

locale key_ordering = weak_ordering +
  assumes lt_total: "x \<noteq> y \<Longrightarrow> lt x y \<or> lt y x"
begin

lemma set_set_insert: "set (set_insert lt x xs) = insert x (set xs)"
  using lt_total by (induction xs) auto

lemma set_find_mem:
  assumes "sorted_wrt lt xs" and "x \<in> set xs"
  shows "set_find lt x xs < length xs" and "xs ! set_find lt x xs = x"
proof -
  obtain ys zs where xs: "xs = ys @ x # zs"
    using assms(2) by (auto simp: in_set_conv_decomp)
  have "takeWhile (\<lambda>y. lt y x) xs = ys"
    using assms(1) xs by (auto simp: sorted_wrt_append takeWhile_append lt_irrefl)
  then have "set_lower_bound lt x xs = length ys"
    by (simp add: set_lower_bound_def)
  then have "set_find lt x xs = length ys"
    by (simp add: set_find_def xs lt_irrefl)
  then show "set_find lt x xs < length xs" and "xs ! set_find lt x xs = x"
    by (simp_all add: xs)
qed

lemma set_find_not_mem:
  assumes "x \<notin> set xs"
  shows "set_find lt x xs = length xs"
proof -
  let ?i = "set_lower_bound lt x xs"
  have "lt x (xs ! ?i)" if "?i < length xs"
  proof -
    have "\<not> lt (xs ! ?i) x"
      using that nth_length_takeWhile [of "\<lambda>y. lt y x" xs]
      by (simp add: set_lower_bound_def)
    moreover have "xs ! ?i \<noteq> x"
      using that assms nth_mem [OF that] by metis
    ultimately show ?thesis using lt_total by blast
  qed
  then show ?thesis
    by (auto simp: set_find_def Let_def)
qed

lemma set_find_iff:
  "sorted_wrt lt xs \<Longrightarrow> set_find lt x xs = length xs \<longleftrightarrow> x \<notin> set xs"
  using set_find_mem(1) set_find_not_mem by fastforce

lemma set_erase_find:
  assumes "sorted_wrt lt xs" and "x \<in> set xs"
  shows "set_erase (set_find lt x xs) xs = Inr (remove1 x xs)"
proof -
  let ?i = "set_find lt x xs"
  note i = set_find_mem [OF assms]
  have "distinct xs" using assms(1) by (rule sorted_set_distinct)
  then have "remove1 x (take ?i xs @ x # drop (Suc ?i) xs) = take ?i xs @ drop (Suc ?i) xs"
    using i by (auto simp: remove1_append in_set_conv_nth nth_eq_iff_index_eq)
  moreover have "take ?i xs @ x # drop (Suc ?i) xs = xs"
    using i id_take_nth_drop [of ?i xs] by simp
  ultimately show ?thesis
    using i by (simp add: set_erase_def)
qed

lemma sorted_remove1: "sorted_wrt lt xs \<Longrightarrow> sorted_wrt lt (remove1 x xs)"
  by (induction xs) (auto dest: notin_set_remove1)

lemma find_insert_front:
  assumes "sorted_wrt lt xs" and "x \<notin> set xs"
  shows "set_find lt x (set_insert lt x xs) = 0 \<longleftrightarrow> (\<forall>y\<in>set xs. lt x y)"
proof (cases xs)
  case Nil
  then show ?thesis
    by (simp add: set_find_def set_lower_bound_def lt_irrefl)
next
  case (Cons y ys)
  show ?thesis
  proof (cases "lt x y")
    case True
    then show ?thesis
      using assms(1) Cons lt_trans
      by (auto simp: set_find_def set_lower_bound_def lt_irrefl)
  next
    case False
    then have "lt y x" using assms(2) Cons lt_total by auto
    with False Cons show ?thesis
      by (auto simp: set_find_def set_lower_bound_def Let_def)
  qed
qed

end

end
