(* ===== verification/Timer.thy ===== *)
theory Timer
  imports OrderedSet
begin

text \<open>
  The timer component (\<open>sylar/timer.h\<close>, \<open>sylar/timer.cpp\<close>). Timer objects live in a store
  indexed by their address, because handles returned by \<open>addTimer\<close> alias the elements of
  the manager's ordered set and the comparator reads the deadline through the pointer. The
  current time (\<open>GetCurrentMS()\<close>) and the address returned by \<open>new\<close> are arguments. Every
  operation body runs under the manager's write lock, so an operation is one step.
\<close>

section \<open>Data\<close>

record timer =
  tm_recurring :: bool
  tm_ms :: u64
  tm_next :: u64
  tm_cb :: "closure option"

type_synonym timer_heap = "nat \<rightharpoonup> timer"

record timer_manager =
  heap :: timer_heap
  timers :: "nat list"
  tickled :: bool
  previouseTime :: u64

definition null_timer :: timer where
  "null_timer = \<lparr>tm_recurring = False, tm_ms = 0, tm_next = 0, tm_cb = None\<rparr>"

text \<open>Dereferencing a \<open>Timer::ptr\<close>.\<close>

definition timer_at :: "timer_heap \<Rightarrow> nat \<Rightarrow> timer" where
  "timer_at h a = (case h a of Some t \<Rightarrow> t | None \<Rightarrow> null_timer)"

definition Comparator :: "timer_heap \<Rightarrow> nat option \<Rightarrow> nat option \<Rightarrow> bool" where
  "Comparator h lhs rhs =
     (case lhs of
        None \<Rightarrow> (case rhs of None \<Rightarrow> False | Some _ \<Rightarrow> True)
      | Some l \<Rightarrow>
          (case rhs of
             None \<Rightarrow> False
           | Some r \<Rightarrow>
               if tm_next (timer_at h l) < tm_next (timer_at h r) then True
               else if tm_next (timer_at h r) < tm_next (timer_at h l) then False
               else l < r))"

abbreviation before :: "timer_heap \<Rightarrow> nat \<Rightarrow> nat \<Rightarrow> bool" where
  "before h a b \<equiv> Comparator h (Some a) (Some b)"

section \<open>Operations\<close>

definition Timer_new :: "u64 \<Rightarrow> closure option \<Rightarrow> bool \<Rightarrow> u64 \<Rightarrow> timer" where
  "Timer_new ms cb recurring now =
     \<lparr>tm_recurring = recurring, tm_ms = ms, tm_next = now + ms, tm_cb = cb\<rparr>"

definition Timer_new_key :: "u64 \<Rightarrow> timer" where
  "Timer_new_key nxt = null_timer\<lparr>tm_next := nxt\<rparr>"

definition Timer_cancel :: "nat \<Rightarrow> timer_manager \<Rightarrow> (bool \<times> timer_manager) result" where
  "Timer_cancel a m =
     (let t = timer_at (heap m) a in
      if tm_cb t \<noteq> None then
        let h = (heap m)(a \<mapsto> t\<lparr>tm_cb := None\<rparr>);
            it = set_find (before h) a (timers m)
        in rbind (set_erase it (timers m)) (\<lambda>ts.
             Inr (True, m\<lparr>heap := h, timers := ts\<rparr>))
      else Inr (False, m))"

definition Timer_refresh :: "u64 \<Rightarrow> nat \<Rightarrow> timer_manager \<Rightarrow> (bool \<times> timer_manager) result" where
  "Timer_refresh now a m =
     (let t = timer_at (heap m) a; it = set_find (before (heap m)) a (timers m) in
      if tm_cb t = None then Inr (False, m)
      else if it = length (timers m) then Inr (False, m)
      else rbind (set_erase it (timers m)) (\<lambda>ts.
        let h = (heap m)(a \<mapsto> t\<lparr>tm_next := now + tm_ms t\<rparr>)
        in Inr (True, m\<lparr>heap := h, timers := set_insert (before h) a ts\<rparr>)))"

text \<open>
  \<open>TimerManager::addTimer(Timer::ptr, WriteLock&)\<close>: the boolean says whether
  \<open>onTimerInsertedAtFront()\<close> is called once the lock is released.
\<close>

definition TimerManager_insert :: "nat \<Rightarrow> timer_manager \<Rightarrow> bool \<times> timer_manager" where
  "TimerManager_insert a m =
     (let ts = set_insert (before (heap m)) a (timers m);
          it = set_find (before (heap m)) a ts;
          at_front = (it = 0 \<and> \<not> tickled m)
      in (at_front, m\<lparr>timers := ts, tickled := (if at_front then True else tickled m)\<rparr>))"

text \<open>
  \<open>Timer::reset\<close>. The result is the returned boolean, whether
  \<open>onTimerInsertedAtFront()\<close> was called, and the new state. With \<open>from_now\<close> false the
  start is \<open>next_ - ms\<close>, computed with the new interval.
\<close>

definition Timer_reset ::
  "u64 \<Rightarrow> nat \<Rightarrow> u64 \<Rightarrow> bool \<Rightarrow> timer_manager \<Rightarrow> (bool \<times> bool \<times> timer_manager) result" where
  "Timer_reset now a ms from_now m =
     (let t = timer_at (heap m) a; it = set_find (before (heap m)) a (timers m) in
      if tm_ms t = ms \<and> \<not> from_now then Inr (True, False, m)
      else if tm_cb t = None then Inr (False, False, m)
      else if it = length (timers m) then Inr (False, False, m)
      else rbind (set_erase it (timers m)) (\<lambda>ts.
        let start = (if from_now then now else tm_next t - ms);
            h = (heap m)(a \<mapsto> t\<lparr>tm_ms := ms, tm_next := start + ms\<rparr>);
            (front, m') = TimerManager_insert a (m\<lparr>heap := h, timers := ts\<rparr>)
        in Inr (True, front, m')))"

definition TimerManager_new :: "u64 \<Rightarrow> timer_manager" where
  "TimerManager_new now =
     \<lparr>heap = Map.empty, timers = [], tickled = False, previouseTime = now\<rparr>"

definition TimerManager_addTimer ::
  "u64 \<Rightarrow> nat \<Rightarrow> u64 \<Rightarrow> closure option \<Rightarrow> bool \<Rightarrow> timer_manager \<Rightarrow> bool \<times> timer_manager" where
  "TimerManager_addTimer now a ms cb recurring m =
     TimerManager_insert a (m\<lparr>heap := (heap m)(a \<mapsto> Timer_new ms cb recurring now)\<rparr>)"

text \<open>The function behind an \<open>OnTimer\<close> closure: the inner callback runs only while the
  condition object is alive; \<open>locks w\<close> says whether \<open>weak_cond.lock()\<close> succeeds.\<close>

definition OnTimer_call :: "(nat \<Rightarrow> bool) \<Rightarrow> nat \<Rightarrow> closure \<Rightarrow> closure list" where
  "OnTimer_call locks weak_cond cb = (if locks weak_cond then [cb] else [])"

definition TimerManager_addConditionTimer ::
  "u64 \<Rightarrow> nat \<Rightarrow> u64 \<Rightarrow> closure \<Rightarrow> nat \<Rightarrow> bool \<Rightarrow> timer_manager \<Rightarrow> bool \<times> timer_manager" where
  "TimerManager_addConditionTimer now a ms cb weak_cond recurring m =
     TimerManager_addTimer now a ms (Some (OnTimer weak_cond cb)) recurring m"

definition TimerManager_getNextTimer :: "u64 \<Rightarrow> timer_manager \<Rightarrow> u64 \<times> timer_manager" where
  "TimerManager_getNextTimer now m =
     (let m' = m\<lparr>tickled := False\<rparr> in
      case timers m of
        [] \<Rightarrow> (-1, m')
      | a # _ \<Rightarrow>
          let nxt = tm_next (timer_at (heap m) a)
          in if now \<ge> nxt then (0, m') else (nxt - now, m'))"

definition TimerManager_detectClockRollover ::
  "u64 \<Rightarrow> timer_manager \<Rightarrow> bool \<times> timer_manager" where
  "TimerManager_detectClockRollover now m =
     (now < previouseTime m \<and> now < previouseTime m - 60 * 60 * 1000,
      m\<lparr>previouseTime := now\<rparr>)"

text \<open>The loop over the expired timers at the end of \<open>listExpiredCb\<close>.\<close>

fun expire_loop ::
  "u64 \<Rightarrow> nat list \<Rightarrow> timer_manager \<Rightarrow> closure option list
    \<Rightarrow> closure option list \<times> timer_manager" where
  "expire_loop now [] m cbs = (cbs, m)"
| "expire_loop now (a # as) m cbs =
     (let t = timer_at (heap m) a; cbs' = cbs @ [tm_cb t] in
      if tm_recurring t then
        let h = (heap m)(a \<mapsto> t\<lparr>tm_next := now + tm_ms t\<rparr>)
        in expire_loop now as
             (m\<lparr>heap := h, timers := set_insert (before h) a (timers m)\<rparr>) cbs'
      else expire_loop now as (m\<lparr>heap := (heap m)(a \<mapsto> t\<lparr>tm_cb := None\<rparr>)\<rparr>) cbs')"

text \<open>The iterator up to which the set is expired: \<open>lower_bound\<close> of a temporary timer at
  address \<open>p\<close> with deadline \<open>now\<close>, then on past the timers due exactly now.\<close>

definition expired_end :: "u64 \<Rightarrow> nat \<Rightarrow> bool \<Rightarrow> timer_manager \<Rightarrow> nat" where
  "expired_end now p rollover m =
     (let h = (heap m)(p \<mapsto> Timer_new_key now);
          it = (if rollover then length (timers m) else set_lower_bound (before h) p (timers m))
      in it + length (takeWhile (\<lambda>a. tm_next (timer_at h a) = now) (drop it (timers m))))"

definition TimerManager_listExpiredCb ::
  "u64 \<Rightarrow> nat \<Rightarrow> timer_manager \<Rightarrow> closure option list
    \<Rightarrow> closure option list \<times> timer_manager" where
  "TimerManager_listExpiredCb now p m cbs =
     (if timers m = [] then (cbs, m)
      else
        let (rollover, m1) = TimerManager_detectClockRollover now m in
        if \<not> rollover \<and> tm_next (timer_at (heap m1) (hd (timers m1))) > now then (cbs, m1)
        else
          let it = expired_end now p rollover m1;
              expired = take it (timers m1)
          in expire_loop now expired (m1\<lparr>timers := drop it (timers m1)\<rparr>) cbs)"

definition TimerManager_hasTimer :: "timer_manager \<Rightarrow> bool" where
  "TimerManager_hasTimer m = (timers m \<noteq> [])"

section \<open>The comparator\<close>

lemma Comparator_null [simp]:
  "\<not> Comparator h lhs None"
  "Comparator h None (Some r)"
  by (simp_all add: Comparator_def split: option.splits)

lemma before_iff:
  "before h a b \<longleftrightarrow>
     tm_next (timer_at h a) < tm_next (timer_at h b) \<or>
     tm_next (timer_at h a) = tm_next (timer_at h b) \<and> a < b"
  by (auto simp: Comparator_def)

lemma timer_at_upd [simp]:
  "timer_at (h(a \<mapsto> t)) b = (if b = a then t else timer_at h b)"
  by (simp add: timer_at_def)

lemma timer_at_Some: "h a = Some t \<Longrightarrow> timer_at h a = t"
  by (simp add: timer_at_def)

interpretation tcmp: key_ordering "before h" for h
  by unfold_locales (auto simp: before_iff)

interpretation tptr: key_ordering "Comparator h" for h
proof unfold_locales
  fix x y z :: "nat option"
  show "\<not> Comparator h x x"
    by (cases x) (auto simp: tcmp.lt_irrefl)
  show "Comparator h x y \<Longrightarrow> Comparator h y z \<Longrightarrow> Comparator h x z"
    by (cases x; cases y; cases z) (auto intro: tcmp.lt_trans)
  show "\<not> Comparator h x y \<Longrightarrow> \<not> Comparator h y x \<Longrightarrow> \<not> Comparator h y z \<Longrightarrow>
      \<not> Comparator h z y \<Longrightarrow> \<not> Comparator h x z"
    by (cases x; cases y; cases z) (auto dest: tcmp.incomp_trans)
  show "x \<noteq> y \<Longrightarrow> Comparator h x y \<or> Comparator h y x"
    by (cases x; cases y) (auto dest: tcmp.lt_total)
qed

lemma before_upd_other: "a \<noteq> c \<Longrightarrow> b \<noteq> c \<Longrightarrow> before (h(c \<mapsto> t)) a b = before h a b"
  by (simp add: before_iff)

lemma sorted_before_upd:
  "c \<notin> set xs \<Longrightarrow> sorted_wrt (before (h(c \<mapsto> t))) xs = sorted_wrt (before h) xs"
  by (rule sorted_wrt_cong_on) (metis before_upd_other)

lemma sorted_before_same_next:
  "tm_next t = tm_next (timer_at h c) \<Longrightarrow>
     sorted_wrt (before (h(c \<mapsto> t))) xs = sorted_wrt (before h) xs"
  by (rule sorted_wrt_cong_on) (auto simp: before_iff)

section \<open>The manager's invariant\<close>

text \<open>
  The set is strictly sorted by the comparator, holds live timers only, and holds every
  timer whose callback is still set. The last part is what \<open>Timer::cancel\<close> relies on: it
  erases the result of \<open>find\<close> without comparing it to \<open>end()\<close>.
\<close>

definition armed :: "timer_manager \<Rightarrow> nat \<Rightarrow> bool" where
  "armed m a \<longleftrightarrow> tm_cb (timer_at (heap m) a) \<noteq> None"

definition timer_inv :: "timer_manager \<Rightarrow> bool" where
  "timer_inv m \<longleftrightarrow>
     sorted_wrt (before (heap m)) (timers m) \<and> set (timers m) \<subseteq> dom (heap m) \<and>
     (\<forall>a. armed m a \<longrightarrow> a \<in> set (timers m))"

lemma timer_invD:
  assumes "timer_inv m"
  shows "sorted_wrt (before (heap m)) (timers m)" and "set (timers m) \<subseteq> dom (heap m)"
    and "armed m a \<Longrightarrow> a \<in> set (timers m)" and "distinct (timers m)"
  using assms tcmp.sorted_set_distinct by (auto simp: timer_inv_def)

lemma set_remove1_sorted:
  "sorted_wrt (before h) xs \<Longrightarrow> set (remove1 a xs) = set xs - {a}"
  by (simp add: tcmp.sorted_set_distinct)

text \<open>Re-inserting a timer under a changed heap cell keeps the invariant.\<close>

lemma timer_inv_reinsert:
  assumes inv: "timer_inv m" and live: "a \<in> dom (heap m)"
    and ts: "ts = remove1 a (timers m)" and h: "h = (heap m)(a \<mapsto> t)"
  shows "timer_inv (m\<lparr>heap := h, timers := set_insert (before h) a ts\<rparr>)"
proof -
  note i = timer_invD [OF inv]
  have rem: "set ts = set (timers m) - {a}" and srt: "sorted_wrt (before (heap m)) ts"
    using i(1) tcmp.sorted_remove1 by (simp_all add: ts set_remove1_sorted)
  then have "sorted_wrt (before h) ts"
    by (simp add: h sorted_before_upd)
  then have "sorted_wrt (before h) (set_insert (before h) a ts)"
    by (rule tcmp.sorted_set_insert)
  with rem i(2,3) live show ?thesis
    by (auto simp: timer_inv_def tcmp.set_set_insert armed_def h)
qed

lemma timer_inv_tickled [simp]: "timer_inv (m\<lparr>tickled := b\<rparr>) = timer_inv m"
  by (simp add: timer_inv_def armed_def)

lemma timer_inv_previous [simp]: "timer_inv (m\<lparr>previouseTime := n\<rparr>) = timer_inv m"
  by (simp add: timer_inv_def armed_def)

lemma TimerManager_insert_state:
  "snd (TimerManager_insert a m) =
     m\<lparr>timers := set_insert (before (heap m)) a (timers m),
       tickled := (tickled m \<or> fst (TimerManager_insert a m))\<rparr>"
  by (simp add: TimerManager_insert_def Let_def)

section \<open>Every operation keeps the invariant\<close>

lemma TimerManager_new_inv [inv_intros]: "timer_inv (TimerManager_new now)"
  by (simp add: timer_inv_def armed_def TimerManager_new_def timer_at_def null_timer_def)

lemma TimerManager_addTimer_inv [inv_intros]:
  assumes inv: "timer_inv m" and fresh: "heap m a = None"
  shows "timer_inv (snd (TimerManager_addTimer now a ms cb r m))"
proof -
  let ?t = "Timer_new ms cb r now"
  have notin: "a \<notin> set (timers m)"
    using timer_invD(2) [OF inv] fresh by auto
  let ?m = "m\<lparr>heap := (heap m)(a \<mapsto> null_timer)\<rparr>"
  have "timer_inv ?m"
    using timer_invD [OF inv] notin
    by (auto simp: timer_inv_def sorted_before_upd armed_def null_timer_def)
  then have "timer_inv (?m\<lparr>heap := (heap ?m)(a \<mapsto> ?t),
      timers := set_insert (before ((heap ?m)(a \<mapsto> ?t))) a (remove1 a (timers ?m))\<rparr>)"
    by (rule timer_inv_reinsert) auto
  with notin show ?thesis
    by (simp add: TimerManager_addTimer_def TimerManager_insert_state remove1_idem)
qed

lemma Timer_cancel_ok:
  assumes inv: "timer_inv m"
  shows "Timer_cancel a m =
    Inr (armed m a,
         if armed m a
         then m\<lparr>heap := (heap m)(a \<mapsto> (timer_at (heap m) a)\<lparr>tm_cb := None\<rparr>),
                timers := remove1 a (timers m)\<rparr>
         else m)"
proof (cases "armed m a")
  case True
  let ?t = "timer_at (heap m) a"
  let ?h = "(heap m)(a \<mapsto> ?t\<lparr>tm_cb := None\<rparr>)"
  note i = timer_invD [OF inv]
  have "sorted_wrt (before ?h) (timers m)"
    using i(1) by (simp add: sorted_before_same_next)
  moreover have "a \<in> set (timers m)"
    using True by (rule i(3))
  ultimately have "set_erase (set_find (before ?h) a (timers m)) (timers m)
      = Inr (remove1 a (timers m))"
    by (rule tcmp.set_erase_find)
  with True show ?thesis
    by (auto simp: Timer_cancel_def Let_def armed_def)
next
  case False
  then show ?thesis by (simp add: Timer_cancel_def Let_def armed_def)
qed

lemma Timer_cancel_inv [inv_intros]:
  assumes inv: "timer_inv m" and res: "Timer_cancel a m = Inr (b, m')"
  shows "timer_inv m'"
proof -
  note i = timer_invD [OF inv]
  have "timer_inv (m\<lparr>heap := (heap m)(a \<mapsto> (timer_at (heap m) a)\<lparr>tm_cb := None\<rparr>),
      timers := remove1 a (timers m)\<rparr>)"
    using i tcmp.sorted_remove1 [OF i(1)]
    by (auto simp: timer_inv_def sorted_before_same_next armed_def set_remove1_sorted)
  then show ?thesis
    using inv res by (auto simp: Timer_cancel_ok split: if_splits)
qed

lemma find_erase_ok:
  assumes "timer_inv m" and "a \<in> set (timers m)"
  shows "set_find (before (heap m)) a (timers m) \<noteq> length (timers m)"
    and "set_erase (set_find (before (heap m)) a (timers m)) (timers m)
      = Inr (remove1 a (timers m))"
  using assms tcmp.set_erase_find tcmp.set_find_iff by (auto dest: timer_invD)

lemma Timer_refresh_ok:
  assumes inv: "timer_inv m"
  shows "Timer_refresh now a m =
    Inr (armed m a,
         if armed m a
         then let t = timer_at (heap m) a; h = (heap m)(a \<mapsto> t\<lparr>tm_next := now + tm_ms t\<rparr>)
              in m\<lparr>heap := h, timers := set_insert (before h) a (remove1 a (timers m))\<rparr>
         else m)"
proof (cases "armed m a")
  case True
  then show ?thesis
    using find_erase_ok [OF inv timer_invD(3) [OF inv True]]
    by (simp add: Timer_refresh_def Let_def armed_def)
next
  case False
  then show ?thesis by (simp add: Timer_refresh_def Let_def armed_def)
qed

lemma Timer_refresh_inv [inv_intros]:
  assumes inv: "timer_inv m" and res: "Timer_refresh now a m = Inr (b, m')"
  shows "timer_inv m'"
proof (cases "armed m a")
  case True
  then have "a \<in> dom (heap m)"
    using timer_invD(2,3) [OF inv] by blast
  with True res show ?thesis
    by (auto simp: Timer_refresh_ok [OF inv] Let_def intro!: timer_inv_reinsert [OF inv])
next
  case False
  with res inv show ?thesis by (auto simp: Timer_refresh_ok [OF inv])
qed

text \<open>What \<open>reset\<close> does to the cell: the interval changes, the deadline only with
  \<open>from_now\<close>.\<close>

definition reset_cell :: "u64 \<Rightarrow> u64 \<Rightarrow> bool \<Rightarrow> timer \<Rightarrow> timer" where
  "reset_cell now ms from_now t =
     t\<lparr>tm_ms := ms, tm_next := (if from_now then now + ms else tm_next t)\<rparr>"

lemma Timer_reset_ok:
  assumes inv: "timer_inv m"
  shows "Timer_reset now a ms from_now m =
    (if tm_ms (timer_at (heap m) a) = ms \<and> \<not> from_now then Inr (True, False, m)
     else if \<not> armed m a then Inr (False, False, m)
     else let h = (heap m)(a \<mapsto> reset_cell now ms from_now (timer_at (heap m) a))
          in Inr (True, TimerManager_insert a (m\<lparr>heap := h, timers := remove1 a (timers m)\<rparr>)))"
proof (cases "armed m a")
  case True
  then show ?thesis
    using find_erase_ok [OF inv timer_invD(3) [OF inv True]]
    by (auto simp: Timer_reset_def Let_def armed_def reset_cell_def split: prod.splits)
next
  case False
  then show ?thesis by (simp add: Timer_reset_def Let_def armed_def)
qed

lemma Timer_reset_inv [inv_intros]:
  assumes inv: "timer_inv m" and res: "Timer_reset now a ms from_now m = Inr (b, f, m')"
  shows "timer_inv m'"
proof (cases "armed m a \<and> \<not> (tm_ms (timer_at (heap m) a) = ms \<and> \<not> from_now)")
  case True
  let ?h = "(heap m)(a \<mapsto> reset_cell now ms from_now (timer_at (heap m) a))"
  have live: "a \<in> dom (heap m)"
    using True timer_invD(2,3) [OF inv] by blast
  have "m' = snd (TimerManager_insert a (m\<lparr>heap := ?h, timers := remove1 a (timers m)\<rparr>))"
    using True res by (auto simp: Timer_reset_ok [OF inv] Let_def split: if_splits dest: sym)
  then have "m' = m\<lparr>heap := ?h, timers := set_insert (before ?h) a (remove1 a (timers m))\<rparr>
      \<lparr>tickled := tickled m'\<rparr>"
    by (simp add: TimerManager_insert_state)
  then show ?thesis
    using timer_inv_reinsert [OF inv live refl refl] by (metis timer_inv_tickled)
next
  case False
  with res inv show ?thesis by (auto simp: Timer_reset_ok [OF inv] split: if_splits)
qed

lemma TimerManager_getNextTimer_state:
  "snd (TimerManager_getNextTimer now m) = m\<lparr>tickled := False\<rparr>"
  by (auto simp: TimerManager_getNextTimer_def Let_def split: list.splits)

lemma TimerManager_getNextTimer_inv [inv_intros]:
  "timer_inv m \<Longrightarrow> timer_inv (snd (TimerManager_getNextTimer now m))"
  by (simp add: TimerManager_getNextTimer_state)

section \<open>Expiry\<close>

definition due :: "u64 \<Rightarrow> timer_manager \<Rightarrow> nat \<Rightarrow> bool" where
  "due now m a \<longleftrightarrow> tm_next (timer_at (heap m) a) \<le> now"

lemma due_prefix:
  assumes "sorted_wrt (before h) ts" and "p \<notin> set ts" and "tm_next (timer_at h p) = now"
  shows "takeWhile (\<lambda>a. before h a p) ts @
      takeWhile (\<lambda>a. tm_next (timer_at h a) = now) (dropWhile (\<lambda>a. before h a p) ts)
    = filter (\<lambda>a. tm_next (timer_at h a) \<le> now) ts"
  using assms
proof (induction ts)
  case (Cons a ts)
  show ?case
  proof (cases "before h a p")
    case True
    with Cons show ?thesis by (auto simp: before_iff)
  next
    case False
    let ?due = "\<lambda>a. tm_next (timer_at h a) \<le> now"
    have "\<not> before h b p" if "b \<in> set (a # ts)" for b
      using that False Cons.prems(1) tcmp.lt_trans by auto
    then have "\<not> tm_next (timer_at h b) < now" if "b \<in> set (a # ts)" for b
      using that Cons.prems(3) by (auto simp: before_iff)
    then have "takeWhile (\<lambda>a. tm_next (timer_at h a) = now) (a # ts) = takeWhile ?due (a # ts)"
      by (intro takeWhile_cong) (auto simp: order.order_iff_strict)
    also have "\<dots> = filter ?due (a # ts)"
      using Cons.prems(1) by (rule takeWhile_eq_filter_sorted) (auto simp: before_iff)
    finally show ?thesis using False by simp
  qed
qed simp

lemma expired_end_split:
  assumes inv: "timer_inv m" and fresh: "heap m p = None"
  shows "take (expired_end now p False m) (timers m) = filter (due now m) (timers m)"
    and "drop (expired_end now p False m) (timers m) = filter (\<lambda>a. \<not> due now m a) (timers m)"
proof -
  let ?h = "(heap m)(p \<mapsto> Timer_new_key now)"
  let ?ts = "timers m"
  let ?P = "\<lambda>a. before ?h a p" and ?Q = "\<lambda>a. tm_next (timer_at ?h a) = now"
  have notin: "p \<notin> set ?ts"
    using timer_invD(2) [OF inv] fresh by auto
  have srt: "sorted_wrt (before ?h) ?ts"
    using timer_invD(1) [OF inv] notin by (simp add: sorted_before_upd)
  have key: "tm_next (timer_at ?h p) = now"
    by (simp add: Timer_new_key_def)
  have due: "filter (\<lambda>a. tm_next (timer_at ?h a) \<le> now) ?ts = filter (due now m) ?ts"
    using notin by (auto simp: due_def intro!: filter_cong)
  have pre: "takeWhile ?P ?ts @ takeWhile ?Q (dropWhile ?P ?ts) = filter (due now m) ?ts"
    using due_prefix [OF srt notin key] due by simp
  have end_eq: "expired_end now p False m =
      length (takeWhile ?P ?ts @ takeWhile ?Q (dropWhile ?P ?ts))"
    by (simp add: expired_end_def set_lower_bound_def Let_def)
  have split: "?ts = (takeWhile ?P ?ts @ takeWhile ?Q (dropWhile ?P ?ts)) @
      dropWhile ?Q (dropWhile ?P ?ts)"
    by simp
  then have tk: "take (expired_end now p False m) ?ts = filter (due now m) ?ts"
    unfolding end_eq by (metis append_eq_conv_conj pre)
  have down: "due now m y" if "before (heap m) y z" "due now m z" for y z
    using that by (auto simp: before_iff due_def)
  note srt' = timer_invD(1) [OF inv]
  have "filter (due now m) ?ts @ drop (expired_end now p False m) ?ts =
      filter (due now m) ?ts @ dropWhile (due now m) ?ts"
    using takeWhile_eq_filter_sorted [OF srt' down] takeWhile_dropWhile_id [of "due now m" ?ts]
    by (simp flip: tk)
  then have "drop (expired_end now p False m) ?ts = dropWhile (due now m) ?ts"
    by simp
  with tk dropWhile_eq_filter_sorted [OF srt' down]
  show "take (expired_end now p False m) ?ts = filter (due now m) ?ts"
    and "drop (expired_end now p False m) ?ts = filter (\<lambda>a. \<not> due now m a) ?ts"
    by simp_all
qed

text \<open>What one expiry does to a timer cell.\<close>

definition fire_cell :: "u64 \<Rightarrow> timer \<Rightarrow> timer" where
  "fire_cell now t =
     (if tm_recurring t then t\<lparr>tm_next := now + tm_ms t\<rparr> else t\<lparr>tm_cb := None\<rparr>)"

definition fire_heap :: "u64 \<Rightarrow> nat list \<Rightarrow> timer_heap \<Rightarrow> timer_heap" where
  "fire_heap now as h = (\<lambda>a. if a \<in> set as then Some (fire_cell now (timer_at h a)) else h a)"

lemma timer_at_fire_heap:
  "timer_at (fire_heap now as h) a =
     (if a \<in> set as then fire_cell now (timer_at h a) else timer_at h a)"
  by (simp add: timer_at_def fire_heap_def)

lemma fire_heap_Cons:
  "a \<notin> set as \<Longrightarrow>
     fire_heap now as (h(a \<mapsto> fire_cell now (timer_at h a))) = fire_heap now (a # as) h"
  by (auto simp: fire_heap_def fun_eq_iff)

definition expire_one :: "u64 \<Rightarrow> nat \<Rightarrow> timer_manager \<Rightarrow> timer_manager" where
  "expire_one now a m =
     (let t = timer_at (heap m) a; h = (heap m)(a \<mapsto> fire_cell now t)
      in m\<lparr>heap := h,
           timers := (if tm_recurring t then set_insert (before h) a (timers m) else timers m)\<rparr>)"

lemma expire_loop_Cons:
  "expire_loop now (a # as) m cbs =
     expire_loop now as (expire_one now a m) (cbs @ [tm_cb (timer_at (heap m) a)])"
  by (simp add: expire_one_def Let_def fire_cell_def)

lemma expire_one_simps:
  "heap (expire_one now a m) = (heap m)(a \<mapsto> fire_cell now (timer_at (heap m) a))"
  "tickled (expire_one now a m) = tickled m"
  "previouseTime (expire_one now a m) = previouseTime m"
  "set (timers (expire_one now a m)) =
     (if tm_recurring (timer_at (heap m) a) then insert a (set (timers m)) else set (timers m))"
  by (simp_all add: expire_one_def Let_def tcmp.set_set_insert)

lemma timer_at_expire_one:
  "timer_at (heap (expire_one now a m)) b =
     (if b = a then fire_cell now (timer_at (heap m) a) else timer_at (heap m) b)"
  by (simp add: expire_one_simps)

lemma expire_one_sorted:
  "a \<notin> set (timers m) \<Longrightarrow> sorted_wrt (before (heap m)) (timers m) \<Longrightarrow>
     sorted_wrt (before (heap (expire_one now a m))) (timers (expire_one now a m))"
  by (simp add: expire_one_def Let_def sorted_before_upd tcmp.sorted_set_insert)

lemma expire_loop_spec:
  assumes "expire_loop now as m cbs = (cbs', m')"
    and "sorted_wrt (before (heap m)) (timers m)"
    and "distinct as" and "set as \<inter> set (timers m) = {}"
  shows "cbs' = cbs @ map (\<lambda>a. tm_cb (timer_at (heap m) a)) as"
    and "heap m' = fire_heap now as (heap m)"
    and "set (timers m') = set (timers m) \<union> {a \<in> set as. tm_recurring (timer_at (heap m) a)}"
    and "sorted_wrt (before (heap m')) (timers m')"
    and "tickled m' = tickled m" and "previouseTime m' = previouseTime m"
  using assms
proof (induction as arbitrary: m cbs)
  case Nil
  {
    case 1 then show ?case by simp
  next
    case 2 then show ?case by (simp add: fire_heap_def)
  next
    case 3 then show ?case by auto
  next
    case 4 then show ?case by simp
  next
    case 5 then show ?case by simp
  next
    case 6 then show ?case by simp
  }
next
  case (Cons a as)
  let ?m = "\<lambda>m. expire_one now a m" and ?cbs = "\<lambda>m cbs. cbs @ [tm_cb (timer_at (heap m) a)]"
  have step: "expire_loop now as (?m m) (?cbs m cbs) = (cbs', m')"
      "sorted_wrt (before (heap (?m m))) (timers (?m m))" "distinct as"
      "set as \<inter> set (timers (?m m)) = {}"
    if "expire_loop now (a # as) m cbs = (cbs', m')"
      "sorted_wrt (before (heap m)) (timers m)" "distinct (a # as)"
      "set (a # as) \<inter> set (timers m) = {}" for m cbs
    using that expire_one_sorted [of a m now]
    by (auto simp: expire_loop_Cons expire_one_simps(4) simp del: expire_loop.simps)
  {
    case (1 m cbs)
    with Cons.IH(1) [OF step [OF 1]] show ?case
      by (auto simp: timer_at_expire_one)
  next
    case (2 m cbs)
    then have "a \<notin> set as" by simp
    from Cons.IH(2) [OF step [OF 2]] fire_heap_Cons [OF this] show ?case
      by (simp only: expire_one_simps(1))
  next
    case (3 m cbs)
    with Cons.IH(3) [OF step [OF 3]] show ?case
      by (auto simp: timer_at_expire_one expire_one_simps(4))
  next
    case (4 m cbs)
    with Cons.IH(4) [OF step [OF 4]] show ?case by simp
  next
    case (5 m cbs)
    with Cons.IH(5) [OF step [OF 5]] show ?case by (simp add: expire_one_simps)
  next
    case (6 m cbs)
    with Cons.IH(6) [OF step [OF 6]] show ?case by (simp add: expire_one_simps)
  }
qed

text \<open>The timers one call of \<open>listExpiredCb\<close> fires: all of them after a clock rollover,
  otherwise those whose deadline has come.\<close>

definition rolled_over :: "u64 \<Rightarrow> timer_manager \<Rightarrow> bool" where
  "rolled_over now m \<longleftrightarrow> fst (TimerManager_detectClockRollover now m)"

definition fired :: "u64 \<Rightarrow> timer_manager \<Rightarrow> nat list" where
  "fired now m = (if rolled_over now m then timers m else filter (due now m) (timers m))"

lemma fired_mem: "a \<in> set (fired now m) \<longleftrightarrow> a \<in> set (timers m) \<and> (rolled_over now m \<or> due now m a)"
  by (auto simp: fired_def)

lemma head_not_due:
  assumes "timer_inv m" and "timers m = a # ts" and "\<not> due now m a"
  shows "filter (due now m) (timers m) = []"
proof -
  have "\<not> due now m b" if "b \<in> set ts" for b
    using timer_invD(1) [OF assms(1)] assms(2,3) that by (fastforce simp: before_iff due_def)
  with assms show ?thesis by (auto simp: filter_empty_conv)
qed

lemma listExpiredCb_as_loop:
  assumes inv: "timer_inv m" and fresh: "heap m p = None"
  obtains rest prev where
    "TimerManager_listExpiredCb now p m cbs =
       expire_loop now (fired now m) (m\<lparr>previouseTime := prev, timers := rest\<rparr>) cbs"
    and "set rest = set (timers m) - set (fired now m)"
    and "sorted_wrt (before (heap m)) rest"
proof (cases "timers m")
  case Nil
  have "m\<lparr>previouseTime := previouseTime m, timers := []\<rparr> = m" using Nil by (cases m) simp
  with Nil show ?thesis
    by (intro that [where rest = "[]" and prev = "previouseTime m"])
      (simp_all add: TimerManager_listExpiredCb_def fired_def)
next
  case (Cons a ts)
  note srt = timer_invD(1) [OF inv]
  let ?m1 = "m\<lparr>previouseTime := now\<rparr>"
  have det: "TimerManager_detectClockRollover now m = (rolled_over now m, ?m1)"
    by (simp add: rolled_over_def TimerManager_detectClockRollover_def)
  consider (all) "rolled_over now m" | (none) "\<not> rolled_over now m" "\<not> due now m a"
    | (some) "\<not> rolled_over now m" "due now m a" by blast
  then show ?thesis
  proof cases
    case all
    then have "expired_end now p True ?m1 = length (timers m)"
      by (simp add: expired_end_def)
    with all Cons det show ?thesis
      by (intro that [where rest = "[]" and prev = now]) (simp_all add: TimerManager_listExpiredCb_def fired_def
          del: expire_loop.simps)
  next
    case none
    with head_not_due [OF inv Cons] have "fired now m = []" by (simp add: fired_def)
    with none Cons det srt show ?thesis
      by (intro that [where rest = "timers m" and prev = now])
        (simp_all add: TimerManager_listExpiredCb_def due_def linorder_not_le [symmetric])
  next
    case some
    have due1: "due now ?m1 = due now m" by (simp add: due_def fun_eq_iff)
    have "timer_inv ?m1" and "heap ?m1 p = None" using inv fresh by simp_all
    note cut = expired_end_split [OF this, of now, unfolded due1]
    have "sorted_wrt (before (heap m)) (filter (\<lambda>a. \<not> due now m a) (timers m))"
      using srt by (rule sorted_wrt_filter)
    with some Cons det cut show ?thesis
      by (intro that [where rest = "filter (\<lambda>a. \<not> due now m a) (timers m)" and prev = now])
        (auto simp: TimerManager_listExpiredCb_def fired_def due_def linorder_not_le [symmetric]
          simp del: expire_loop.simps)
  qed
qed

lemma listExpiredCb_spec:
  assumes inv: "timer_inv m" and fresh: "heap m p = None"
    and res: "TimerManager_listExpiredCb now p m cbs = (cbs', m')"
  shows "cbs' = cbs @ map (\<lambda>a. tm_cb (timer_at (heap m) a)) (fired now m)"
    and "heap m' = fire_heap now (fired now m) (heap m)"
    and "set (timers m') = (set (timers m) - set (fired now m)) \<union>
           {a \<in> set (fired now m). tm_recurring (timer_at (heap m) a)}"
    and "timer_inv m'" and "tickled m' = tickled m"
proof -
  obtain rest prev where loop: "TimerManager_listExpiredCb now p m cbs =
       expire_loop now (fired now m) (m\<lparr>previouseTime := prev, timers := rest\<rparr>) cbs"
    and rest: "set rest = set (timers m) - set (fired now m)"
    and srt: "sorted_wrt (before (heap m)) rest"
    using listExpiredCb_as_loop [OF inv fresh] .
  have dist: "distinct (fired now m)"
    using timer_invD(4) [OF inv] by (simp add: fired_def)
  let ?m0 = "m\<lparr>previouseTime := prev, timers := rest\<rparr>"
  note sp = expire_loop_spec [OF loop [symmetric, unfolded res, simplified], simplified,
      OF srt dist, unfolded rest, simplified]
  show "cbs' = cbs @ map (\<lambda>a. tm_cb (timer_at (heap m) a)) (fired now m)"
    and h: "heap m' = fire_heap now (fired now m) (heap m)"
    and ts: "set (timers m') = (set (timers m) - set (fired now m)) \<union>
           {a \<in> set (fired now m). tm_recurring (timer_at (heap m) a)}"
    and "tickled m' = tickled m"
    using sp by simp_all
  have "armed m' a \<Longrightarrow> a \<in> set (timers m')" for a
    using timer_invD(3) [OF inv, of a]
    by (auto simp: armed_def h ts timer_at_fire_heap fire_cell_def split: if_splits)
  moreover have "set (timers m') \<subseteq> dom (heap m')"
    using timer_invD(2) [OF inv] fired_mem by (auto simp: h ts fire_heap_def)
  ultimately show "timer_inv m'"
    using sp(4) by (simp add: timer_inv_def)
qed

lemma listExpiredCb_inv [inv_intros]:
  "timer_inv m \<Longrightarrow> heap m p = None \<Longrightarrow>
     timer_inv (snd (TimerManager_listExpiredCb now p m cbs))"
  using listExpiredCb_spec(4) by (cases "TimerManager_listExpiredCb now p m cbs") fastforce

section \<open>Steps and reachable states\<close>

inductive timer_step :: "timer_manager \<Rightarrow> timer_manager \<Rightarrow> bool" where
  step_add: "heap m a = None \<Longrightarrow> timer_step m (snd (TimerManager_addTimer now a ms cb r m))"
| step_cancel: "Timer_cancel a m = Inr (b, m') \<Longrightarrow> timer_step m m'"
| step_refresh: "Timer_refresh now a m = Inr (b, m') \<Longrightarrow> timer_step m m'"
| step_reset: "Timer_reset now a ms from_now m = Inr (b, f, m') \<Longrightarrow> timer_step m m'"
| step_next: "timer_step m (snd (TimerManager_getNextTimer now m))"
| step_expire: "heap m p = None \<Longrightarrow>
    timer_step m (snd (TimerManager_listExpiredCb now p m cbs))"

inductive timer_reachable :: "timer_manager \<Rightarrow> bool" where
  init: "timer_reachable (TimerManager_new now)"
| step: "timer_reachable m \<Longrightarrow> timer_step m m' \<Longrightarrow> timer_reachable m'"

lemma timer_step_inv: "timer_step m m' \<Longrightarrow> timer_inv m \<Longrightarrow> timer_inv m'"
  by (induction rule: timer_step.induct) (auto intro: inv_intros)

lemma timer_reachable_inv: "timer_reachable m \<Longrightarrow> timer_inv m"
  by (induction rule: timer_reachable.induct) (auto intro: inv_intros timer_step_inv)

text \<open>A timer that exists and has lost its callback never comes back.\<close>

definition retired :: "timer_manager \<Rightarrow> nat \<Rightarrow> bool" where
  "retired m a \<longleftrightarrow> heap m a \<noteq> None \<and> \<not> armed m a \<and> a \<notin> set (timers m)"

lemma timer_step_retired:
  assumes "timer_step m m'" and "timer_inv m" and "retired m a"
  shows "retired m' a"
  using assms
proof (cases rule: timer_step.cases)
  case (step_add c now ms cb r)
  with assms(3) show ?thesis
    by (auto simp: retired_def armed_def TimerManager_addTimer_def TimerManager_insert_state
        tcmp.set_set_insert)
next
  case (step_cancel c b)
  with assms(2,3) show ?thesis
    by (auto simp: Timer_cancel_ok retired_def armed_def split: if_splits dest: notin_set_remove1)
next
  case (step_refresh now c b)
  with assms(2,3) show ?thesis
    by (auto simp: Timer_refresh_ok Let_def retired_def armed_def tcmp.set_set_insert
        split: if_splits dest: notin_set_remove1)
next
  case (step_reset now c ms from_now b f)
  have "m' = m \<or> m' = snd (f, m') \<and> armed m c \<and>
     (f, m') = TimerManager_insert c (m\<lparr>heap := (heap m)(c \<mapsto>
        reset_cell now ms from_now (timer_at (heap m) c)), timers := remove1 c (timers m)\<rparr>)"
    using step_reset assms(2) by (auto simp: Timer_reset_ok Let_def split: if_splits)
  then have "m' = m \<or> armed m c \<and> m' = snd (TimerManager_insert c (m\<lparr>heap := (heap m)(c \<mapsto>
        reset_cell now ms from_now (timer_at (heap m) c)), timers := remove1 c (timers m)\<rparr>))"
    by (metis snd_conv)
  with assms(3) show ?thesis
    by (auto simp: TimerManager_insert_state retired_def armed_def tcmp.set_set_insert reset_cell_def
        dest: notin_set_remove1)
next
  case (step_next now)
  with assms(3) show ?thesis
    by (simp add: TimerManager_getNextTimer_state retired_def armed_def)
next
  case (step_expire p now cbs)
  obtain cbs' where res: "TimerManager_listExpiredCb now p m cbs = (cbs', m')"
    using step_expire(1) by (metis prod.collapse)
  note sp = listExpiredCb_spec(2,3) [OF assms(2) step_expire(2) res]
  have a: "a \<notin> set (fired now m)"
    using assms(3) by (simp add: fired_mem retired_def)
  then have "heap m' a = heap m a"
    by (simp add: sp(1) fire_heap_def)
  moreover from this have "armed m' a = armed m a"
    by (simp add: armed_def timer_at_def)
  ultimately show ?thesis
    using assms(3) sp(2) a by (simp add: retired_def)
qed

lemma timer_steps_retired:
  assumes "timer_step\<^sup>*\<^sup>* m m'" and "timer_inv m" and "retired m a"
  shows "timer_inv m' \<and> retired m' a"
  using assms by (induction rule: rtranclp_induct) (auto intro: timer_step_inv timer_step_retired)

section \<open>Abstract specification\<close>

text \<open>The manager as a finite map from handles to the timers it still has to fire.\<close>

definition timer_abs :: "timer_manager \<Rightarrow> nat \<rightharpoonup> timer" where
  "timer_abs m = (heap m) |` set (timers m)"

definition spec_expire :: "u64 \<Rightarrow> bool \<Rightarrow> (nat \<rightharpoonup> timer) \<Rightarrow> (nat \<rightharpoonup> timer)" where
  "spec_expire now all A = (\<lambda>a.
     case A a of
       None \<Rightarrow> None
     | Some t \<Rightarrow>
         if all \<or> tm_next t \<le> now
         then if tm_recurring t then Some (t\<lparr>tm_next := now + tm_ms t\<rparr>) else None
         else Some t)"

lemma timer_abs_live: "timer_inv m \<Longrightarrow> a \<in> set (timers m) \<Longrightarrow>
    timer_abs m a = Some (timer_at (heap m) a)"
  using timer_invD(2) [of m] by (force simp: timer_abs_def timer_at_def restrict_map_def)

lemma timer_abs_None: "a \<notin> set (timers m) \<Longrightarrow> timer_abs m a = None"
  by (simp add: timer_abs_def)

lemma timer_abs_eq: "timer_inv m \<Longrightarrow>
    timer_abs m a = (if a \<in> set (timers m) then Some (timer_at (heap m) a) else None)"
  by (simp add: timer_abs_live timer_abs_None)

lemma addTimer_abs:
  "timer_inv m \<Longrightarrow> heap m a = None \<Longrightarrow>
     timer_abs (snd (TimerManager_addTimer now a ms cb r m)) =
       (timer_abs m)(a \<mapsto> Timer_new ms cb r now)"
  by (auto simp: timer_abs_def TimerManager_addTimer_def TimerManager_insert_state
      tcmp.set_set_insert restrict_map_def fun_eq_iff)

lemma cancel_abs:
  assumes "timer_inv m" and "Timer_cancel a m = Inr (b, m')"
  shows "timer_abs m' = (if b then (timer_abs m)(a := None) else timer_abs m)"
proof (cases "armed m a")
  case True
  let ?c = "(timer_at (heap m) a)\<lparr>tm_cb := None\<rparr>"
  have "b" and m': "m' = m\<lparr>heap := (heap m)(a \<mapsto> ?c), timers := remove1 a (timers m)\<rparr>"
    using assms True by (simp_all add: Timer_cancel_ok)
  moreover have "((heap m)(a \<mapsto> ?c)) |` (set (timers m) - {a}) =
      ((heap m) |` set (timers m))(a := None)"
    by (simp add: restrict_map_def fun_eq_iff)
  ultimately show ?thesis
    using set_remove1_sorted [OF timer_invD(1) [OF assms(1)], of a]
    by (simp add: timer_abs_def)
next
  case False
  with assms show ?thesis by (simp add: Timer_cancel_ok)
qed

lemma expire_abs:
  assumes inv: "timer_inv m" and fresh: "heap m p = None"
    and res: "TimerManager_listExpiredCb now p m cbs = (cbs', m')"
  shows "timer_abs m' = spec_expire now (rolled_over now m) (timer_abs m)"
proof
  fix a
  note sp = listExpiredCb_spec [OF inv fresh res]
  have "timer_at (heap m') a =
      (if a \<in> set (fired now m) then fire_cell now (timer_at (heap m) a) else timer_at (heap m) a)"
    by (simp add: sp(2) timer_at_fire_heap)
  moreover have "a \<in> set (timers m') \<longleftrightarrow> a \<in> set (timers m) \<and>
      (a \<in> set (fired now m) \<longrightarrow> tm_recurring (timer_at (heap m) a))"
    using fired_mem [of a now m] by (auto simp: sp(3))
  ultimately show "timer_abs m' a = spec_expire now (rolled_over now m) (timer_abs m) a"
    using fired_mem [of a now m] due_def [of now m a]
    by (simp add: timer_abs_eq [OF inv] timer_abs_eq [OF sp(4)] spec_expire_def fire_cell_def)
qed

section \<open>The interface the event loop uses\<close>

text \<open>
  What \<open>IOManager::idle\<close> needs of a timer queue: how long it may block, and which callbacks
  it must run after waking. \<open>rolls now m\<close> says that the wall clock has gone back by more
  than an hour since the last expiry.
\<close>

locale timer_queue =
  fixes inv :: "'m \<Rightarrow> bool"
    and pending :: "'m \<Rightarrow> nat \<rightharpoonup> timer"
    and usable :: "'m \<Rightarrow> nat \<Rightarrow> bool"
    and rolls :: "u64 \<Rightarrow> 'm \<Rightarrow> bool"
    and timeout :: "u64 \<Rightarrow> 'm \<Rightarrow> u64 \<times> 'm"
    and expire :: "u64 \<Rightarrow> nat \<Rightarrow> 'm \<Rightarrow> closure option list \<Rightarrow> closure option list \<times> 'm"
  assumes timeout_keeps: "inv m \<Longrightarrow>
      inv (snd (timeout now m)) \<and> pending (snd (timeout now m)) = pending m \<and>
      usable (snd (timeout now m)) = usable m \<and> rolls t (snd (timeout now m)) = rolls t m"
    and timeout_empty: "inv m \<Longrightarrow> pending m = Map.empty \<Longrightarrow> fst (timeout now m) = - 1"
    and timeout_first: "inv m \<Longrightarrow> pending m \<noteq> Map.empty \<Longrightarrow>
      \<exists>a t. pending m a = Some t \<and>
        fst (timeout now m) = (if tm_next t \<le> now then 0 else tm_next t - now) \<and>
        (\<forall>b u. pending m b = Some u \<longrightarrow> tm_next t \<le> tm_next u)"
    and expire_inv: "inv m \<Longrightarrow> usable m p \<Longrightarrow> inv (snd (expire now p m cbs))"
    and expire_pending: "inv m \<Longrightarrow> usable m p \<Longrightarrow>
      pending (snd (expire now p m cbs)) = spec_expire now (rolls now m) (pending m)"
    and expire_count: "inv m \<Longrightarrow> usable m p \<Longrightarrow>
      length (fst (expire now p m cbs)) = length cbs +
        card {a. \<exists>t. pending m a = Some t \<and> (rolls now m \<or> tm_next t \<le> now)}"
    and pending_finite: "inv m \<Longrightarrow> finite (dom (pending m))"
begin

lemma due_finite: "inv m \<Longrightarrow> finite {a. \<exists>t. pending m a = Some t \<and> P t}"
  by (rule finite_subset [OF _ pending_finite [of m]]) auto

text \<open>Blocking for the announced time is enough: some callback is then delivered.\<close>

lemma wait_delivers:
  assumes "inv m" and "usable m p" and "pending m \<noteq> Map.empty"
    and later: "unat now + unat (fst (timeout now m)) \<le> unat now'"
  shows "length cbs < length (fst (expire now' p (snd (timeout now m)) cbs))"
proof -
  obtain a t where t: "pending m a = Some t"
    "fst (timeout now m) = (if tm_next t \<le> now then 0 else tm_next t - now)"
    using timeout_first [OF assms(1,3)] by blast
  have "tm_next t \<le> now'"
  proof (cases "tm_next t \<le> now")
    case True
    with later t(2) show ?thesis by (simp add: word_le_nat_alt)
  next
    case False
    then have "unat (tm_next t - now) = unat (tm_next t) - unat now"
      by (simp add: unat_sub)
    with later t(2) False show ?thesis by (simp add: word_le_nat_alt)
  qed
  then have "a \<in> {a. \<exists>t. pending m a = Some t \<and> (rolls now' m \<or> tm_next t \<le> now')}"
    using t(1) by auto
  then have "0 < card {a. \<exists>t. pending m a = Some t \<and> (rolls now' m \<or> tm_next t \<le> now')}"
    by (auto simp: card_gt_0_iff due_finite [OF assms(1)])
  then show ?thesis
    using assms timeout_keeps [OF assms(1)] by (simp add: expire_count)
qed

text \<open>Before that time nothing is delivered.\<close>

lemma early_delivers_nothing:
  assumes "inv m" and "usable m p" and "\<not> rolls now' m"
    and early: "now \<le> now'" "now' - now < fst (timeout now m)"
  shows "length (fst (expire now' p (snd (timeout now m)) cbs)) = length cbs"
proof -
  have "now' < tm_next t" if "pending m a = Some t" for a t
  proof -
    obtain b u where u: "pending m b = Some u"
      "fst (timeout now m) = (if tm_next u \<le> now then 0 else tm_next u - now)"
      "tm_next u \<le> tm_next t"
      using timeout_first [OF assms(1), of now] \<open>pending m a = Some t\<close>
      by (metis option.distinct(1))
    then have "now < tm_next u" and "now' - now < tm_next u - now"
      using early(2) by (auto split: if_splits)
    then have "now' < tm_next u"
      using early(1) by (simp add: word_less_nat_alt word_le_nat_alt unat_sub)
    with u(3) show ?thesis by simp
  qed
  then have "{a. \<exists>t. pending m a = Some t \<and> (rolls now' m \<or> tm_next t \<le> now')} = {}"
    using assms(3) by (auto simp: linorder_not_le [symmetric])
  then have "card {a. \<exists>t. pending m a = Some t \<and> (rolls now' m \<or> tm_next t \<le> now')} = 0"
    by (simp only: card.empty)
  then show ?thesis
    using assms timeout_keeps [OF assms(1)] by (simp add: expire_count)
qed

end

lemma getNextTimer_first:
  assumes inv: "timer_inv m" and ne: "timer_abs m \<noteq> Map.empty"
  shows "\<exists>a t. timer_abs m a = Some t \<and>
        fst (TimerManager_getNextTimer now m) = (if tm_next t \<le> now then 0 else tm_next t - now) \<and>
        (\<forall>b u. timer_abs m b = Some u \<longrightarrow> tm_next t \<le> tm_next u)"
proof (cases "timers m")
  case Nil
  with ne show ?thesis by (simp add: timer_abs_def restrict_map_def)
next
  case (Cons a ts)
  let ?t = "timer_at (heap m) a"
  have "tm_next ?t \<le> tm_next (timer_at (heap m) b)" if "b \<in> set (timers m)" for b
    using timer_invD(1) [OF inv] that by (auto simp: Cons before_iff)
  then show ?thesis
    using Cons by (intro exI [of _ a] exI [of _ ?t])
      (auto simp: timer_abs_eq [OF inv] TimerManager_getNextTimer_def split: if_splits)
qed

lemma fired_abs:
  assumes "timer_inv m"
  shows "length (fired now m) =
    card {a. \<exists>t. timer_abs m a = Some t \<and> (rolled_over now m \<or> tm_next t \<le> now)}"
proof -
  have "distinct (fired now m)"
    using timer_invD(4) [OF assms] by (simp add: fired_def)
  moreover have "set (fired now m) =
      {a. \<exists>t. timer_abs m a = Some t \<and> (rolled_over now m \<or> tm_next t \<le> now)}"
    by (auto simp: timer_abs_eq [OF assms] fired_mem due_def)
  ultimately show ?thesis by (metis distinct_card)
qed

interpretation tq: timer_queue timer_inv timer_abs "\<lambda>m p. heap m p = None" rolled_over
  TimerManager_getNextTimer TimerManager_listExpiredCb
proof unfold_locales
  fix m :: timer_manager and now t :: u64 and p :: nat and cbs :: "closure option list"
  assume inv: "timer_inv m"
  show "timer_inv (snd (TimerManager_getNextTimer now m)) \<and>
      timer_abs (snd (TimerManager_getNextTimer now m)) = timer_abs m \<and>
      (\<lambda>p. heap (snd (TimerManager_getNextTimer now m)) p = None) = (\<lambda>p. heap m p = None) \<and>
      rolled_over t (snd (TimerManager_getNextTimer now m)) = rolled_over t m"
    using inv by (simp add: TimerManager_getNextTimer_state timer_abs_def rolled_over_def
        TimerManager_detectClockRollover_def)
  show "timer_abs m = Map.empty \<Longrightarrow> fst (TimerManager_getNextTimer now m) = - 1"
    using timer_abs_live [OF inv]
    by (cases "timers m") (auto simp: TimerManager_getNextTimer_def fun_eq_iff)
  show "timer_abs m \<noteq> Map.empty \<Longrightarrow> \<exists>a t. timer_abs m a = Some t \<and>
        fst (TimerManager_getNextTimer now m) = (if tm_next t \<le> now then 0 else tm_next t - now) \<and>
        (\<forall>b u. timer_abs m b = Some u \<longrightarrow> tm_next t \<le> tm_next u)"
    using getNextTimer_first [OF inv] by blast
  show "finite (dom (timer_abs m))"
    by (simp add: timer_abs_def dom_restrict)
  assume fresh: "heap m p = None"
  obtain cbs' m' where res: "TimerManager_listExpiredCb now p m cbs = (cbs', m')"
    by fastforce
  note sp = listExpiredCb_spec [OF inv fresh res]
  show "timer_inv (snd (TimerManager_listExpiredCb now p m cbs))"
    using sp(4) res by simp
  show "timer_abs (snd (TimerManager_listExpiredCb now p m cbs)) =
      spec_expire now (rolled_over now m) (timer_abs m)"
    using expire_abs [OF inv fresh res] res by simp
  show "length (fst (TimerManager_listExpiredCb now p m cbs)) = length cbs +
      card {a. \<exists>t. timer_abs m a = Some t \<and> (rolled_over now m \<or> tm_next t \<le> now)}"
    using sp(1) res fired_abs [OF inv] by simp
qed

section \<open>Properties\<close>

text \<open>C1. In every state the timer manager can reach, the set of timers is strictly ordered by
  (deadline, address) and holds every timer that still has a callback; therefore
  \<open>Timer::cancel\<close>, which erases the result of \<open>find\<close> unchecked, never erases \<open>end()\<close>, and
  \<open>refresh\<close> and \<open>reset\<close> return as well. \<open>cancel\<close> and \<open>refresh\<close> report exactly whether the
  timer was still armed.\<close>

theorem timer_handles_safe:
  assumes "timer_reachable m"
  shows "timer_inv m \<and>
    (\<exists>m'. Timer_cancel a m = Inr (armed m a, m')) \<and>
    (\<exists>m'. Timer_refresh now a m = Inr (armed m a, m')) \<and>
    (\<exists>b f m'. Timer_reset now a ms from_now m = Inr (b, f, m'))"
proof -
  have inv: "timer_inv m" using assms by (rule timer_reachable_inv)
  have "\<exists>b f m'. Timer_reset now a ms from_now m = Inr (b, f, m')"
    by (cases "TimerManager_insert a (m\<lparr>heap := (heap m)(a \<mapsto>
          reset_cell now ms from_now (timer_at (heap m) a)), timers := remove1 a (timers m)\<rparr>)")
      (auto simp: Timer_reset_ok [OF inv] Let_def)
  with inv show ?thesis by (simp add: Timer_cancel_ok Timer_refresh_ok)
qed

definition sample_timers :: timer_manager where
  "sample_timers = snd (TimerManager_addTimer 1000 8 50 (Some (UserFn 1)) False
     (snd (TimerManager_addTimer 1000 4 20 (Some (UserFn 2)) True (TimerManager_new 1000))))"

lemma sample_timers_reachable: "timer_reachable sample_timers"
proof -
  let ?m = "snd (TimerManager_addTimer 1000 4 20 (Some (UserFn 2)) True (TimerManager_new 1000))"
  have "timer_reachable ?m"
    by (rule timer_reachable.step [OF timer_reachable.init timer_step.step_add])
      (simp add: TimerManager_new_def)
  moreover have "heap ?m 8 = None"
    by (simp add: TimerManager_addTimer_def TimerManager_insert_def TimerManager_new_def Let_def)
  ultimately show ?thesis
    unfolding sample_timers_def by (rule timer_reachable.step [OF _ timer_step.step_add])
qed

lemma sample_timers_state:
  "timers sample_timers = [4, 8]" "tickled sample_timers"
  "heap sample_timers 4 = Some (Timer_new 20 (Some (UserFn 2)) True 1000)"
  "heap sample_timers 8 = Some (Timer_new 50 (Some (UserFn 1)) False 1000)"
  "heap sample_timers 0 = None" "previouseTime sample_timers = 1000"
  by code_simp+

theorem timer_handles_safe_witness:
  "timer_reachable sample_timers \<and> timer_inv sample_timers \<and>
   (\<exists>m'. Timer_cancel 8 sample_timers = Inr (True, m'))"
  using timer_handles_safe [OF sample_timers_reachable, of 8] sample_timers_reachable
  by (simp add: armed_def timer_at_def sample_timers_state Timer_new_def)

text \<open>C2. \<open>listExpiredCb\<close> appends to its output exactly the callbacks of the timers whose
  deadline has come (all timers after a clock rollover), in the order of their deadlines; on
  the abstract map of pending timers it removes those of them that do not recur, moves the
  deadline of the recurring ones to \<open>now + ms\<close> and leaves every other timer alone.\<close>

theorem listExpiredCb_exact:
  assumes "timer_inv m" and "heap m p = None"
    and "TimerManager_listExpiredCb now p m cbs = (cbs', m')"
  shows "cbs' = cbs @ map (\<lambda>a. tm_cb (timer_at (heap m) a))
        (filter (\<lambda>a. rolled_over now m \<or> due now m a) (timers m)) \<and>
    timer_abs m' = spec_expire now (rolled_over now m) (timer_abs m) \<and> timer_inv m'"
proof -
  have "fired now m = filter (\<lambda>a. rolled_over now m \<or> due now m a) (timers m)"
    by (simp add: fired_def)
  then show ?thesis
    using listExpiredCb_spec(1,4) [OF assms] expire_abs [OF assms] by simp
qed

theorem listExpiredCb_exact_witness:
  "\<exists>m'. TimerManager_listExpiredCb 1030 0 sample_timers [] = ([Some (UserFn 2)], m') \<and>
     timer_abs m' 4 = Some (Timer_new 20 (Some (UserFn 2)) True 1030) \<and>
     timer_abs m' 8 = Some (Timer_new 50 (Some (UserFn 1)) False 1000)"
proof -
  obtain cbs' m' where res: "TimerManager_listExpiredCb 1030 0 sample_timers [] = (cbs', m')"
    by fastforce
  have inv: "timer_inv sample_timers"
    by (rule timer_reachable_inv [OF sample_timers_reachable])
  show ?thesis
    using listExpiredCb_exact [OF inv _ res] res
    by (simp add: sample_timers_state rolled_over_def TimerManager_detectClockRollover_def due_def
        timer_at_def Timer_new_def spec_expire_def timer_abs_def)
qed

text \<open>C3. Cancelling is final: once \<open>Timer::cancel\<close> has returned true, no later sequence of
  operations on the manager arms that timer again or puts it among the timers that
  \<open>listExpiredCb\<close> fires.\<close>

theorem cancel_is_final:
  assumes "timer_inv m" and "Timer_cancel a m = Inr (True, m')" and "timer_step\<^sup>*\<^sup>* m' m''"
  shows "\<not> armed m'' a \<and> a \<notin> set (fired now m'')"
proof -
  have "armed m a"
    using assms(1,2) by (auto simp: Timer_cancel_ok)
  then have live: "a \<in> set (timers m)" "a \<in> dom (heap m)"
    using timer_invD(2,3) [OF assms(1)] by auto
  have "m' = m\<lparr>heap := (heap m)(a \<mapsto> (timer_at (heap m) a)\<lparr>tm_cb := None\<rparr>),
      timers := remove1 a (timers m)\<rparr>"
    using assms(1,2) \<open>armed m a\<close> by (simp add: Timer_cancel_ok)
  then have "retired m' a"
    using set_remove1_sorted [OF timer_invD(1) [OF assms(1)], of a]
    by (simp add: retired_def armed_def)
  moreover have "timer_inv m'"
    using assms(1,2) by (rule Timer_cancel_inv)
  ultimately have "retired m'' a"
    using timer_steps_retired [OF assms(3)] by blast
  then show ?thesis by (simp add: retired_def fired_mem)
qed

theorem cancel_is_final_witness:
  "\<exists>m'. Timer_cancel 4 sample_timers = Inr (True, m') \<and>
     \<not> armed (snd (TimerManager_listExpiredCb 1030 0 m' [])) 4"
proof -
  have inv: "timer_inv sample_timers"
    by (rule timer_reachable_inv [OF sample_timers_reachable])
  have "armed sample_timers 4"
    by (simp add: armed_def timer_at_def sample_timers_state Timer_new_def)
  then obtain m' where m': "Timer_cancel 4 sample_timers = Inr (True, m')" "heap m' 0 = None"
    by (auto simp: Timer_cancel_ok [OF inv] sample_timers_state)
  then have "timer_step m' (snd (TimerManager_listExpiredCb 1030 0 m' []))"
    by (intro timer_step.step_expire)
  from cancel_is_final [OF inv m'(1) r_into_rtranclp [of timer_step, OF this]] m'(1)
  show ?thesis by blast
qed

text \<open>C4. The time \<open>getNextTimer\<close> announces is exact: blocking that long (or longer) makes
  \<open>listExpiredCb\<close> deliver at least one callback, and before that time it delivers none.\<close>

theorem getNextTimer_wait_exact:
  assumes "timer_inv m" and "heap m p = None" and "timer_abs m \<noteq> Map.empty"
    and "now \<le> now'" and "\<not> rolled_over now' m"
    and "unat now + unat (fst (TimerManager_getNextTimer now m)) < 2 ^ 64"
  shows "cbs \<noteq> fst (TimerManager_listExpiredCb now' p
      (snd (TimerManager_getNextTimer now m)) cbs) \<longleftrightarrow>
    now + fst (TimerManager_getNextTimer now m) \<le> now'"
proof (cases "now + fst (TimerManager_getNextTimer now m) \<le> now'")
  case True
  have "unat now + unat (fst (TimerManager_getNextTimer now m)) \<le> unat now'"
    using True word_plus_no_wrap(2) [of now "fst (TimerManager_getNextTimer now m)"] assms(6)
    by (simp add: word_le_nat_alt)
  with tq.wait_delivers [OF assms(1-3) this, of cbs] True show ?thesis by force
next
  case False
  then have "now' - now < fst (TimerManager_getNextTimer now m)"
    using assms(4,6) word_plus_no_wrap(2) [of now "fst (TimerManager_getNextTimer now m)"]
    by (simp add: word_le_nat_alt word_less_nat_alt unat_sub)
  note len = tq.early_delivers_nothing [OF assms(1,2,5,4) this, of cbs]
  let ?m = "snd (TimerManager_getNextTimer now m)"
  obtain cbs' m' where res: "TimerManager_listExpiredCb now' p ?m cbs = (cbs', m')"
    by fastforce
  have "timer_inv ?m" "heap ?m p = None"
    using assms(1,2) by (simp_all add: TimerManager_getNextTimer_state)
  from listExpiredCb_spec(1) [OF this res] len res False show ?thesis by simp
qed

theorem getNextTimer_wait_exact_witness:
  "[] \<noteq> fst (TimerManager_listExpiredCb 1020 0
      (snd (TimerManager_getNextTimer 1005 sample_timers)) [])"
proof -
  have inv: "timer_inv sample_timers"
    by (rule timer_reachable_inv [OF sample_timers_reachable])
  have nt: "fst (TimerManager_getNextTimer 1005 sample_timers) = 15"
    by (simp add: TimerManager_getNextTimer_def sample_timers_state timer_at_def Timer_new_def)
  have "timer_abs sample_timers \<noteq> Map.empty"
    by (metis option.distinct(1) sample_timers_state(1) inv list.set_intros(1) timer_abs_live)
  from getNextTimer_wait_exact [OF inv _ this, of 0 1005 1020 "[]"] show ?thesis
    by (simp add: nt sample_timers_state rolled_over_def TimerManager_detectClockRollover_def)
qed

text \<open>\<open>Timer::reset(ms, false)\<close> on an armed timer stores the new interval but leaves the
  deadline where it was, because the start it computes, \<open>next_ - ms\<close>, already uses the new
  interval; \<open>reset(ms, true)\<close> moves the deadline to \<open>now + ms\<close>.\<close>

theorem reset_deadline:
  assumes "timer_inv m" and "armed m a" and "tm_ms (timer_at (heap m) a) \<noteq> ms"
  shows "\<exists>f m'. Timer_reset now a ms from_now m = Inr (True, f, m') \<and>
    tm_ms (timer_at (heap m') a) = ms \<and>
    tm_next (timer_at (heap m') a) =
      (if from_now then now + ms else tm_next (timer_at (heap m) a)) \<and>
    a \<in> set (timers m')"
proof -
  let ?m = "m\<lparr>heap := (heap m)(a \<mapsto> reset_cell now ms from_now (timer_at (heap m) a)),
      timers := remove1 a (timers m)\<rparr>"
  have "Timer_reset now a ms from_now m = Inr (True, TimerManager_insert a ?m)"
    using assms by (simp add: Timer_reset_ok Let_def)
  moreover obtain f m' where ins: "TimerManager_insert a ?m = (f, m')"
    by fastforce
  moreover have "heap m' = heap ?m" and "a \<in> set (timers m')"
    using TimerManager_insert_state [of a ?m] by (simp_all add: ins tcmp.set_set_insert)
  ultimately show ?thesis
    by (auto simp: reset_cell_def)
qed

theorem reset_deadline_witness:
  "\<exists>f m'. Timer_reset 1010 8 9000 False sample_timers = Inr (True, f, m') \<and>
     tm_next (timer_at (heap m') 8) = 1050"
proof -
  have "armed sample_timers 8" "tm_ms (timer_at (heap sample_timers) 8) \<noteq> 9000"
    by (simp_all add: armed_def timer_at_def sample_timers_state Timer_new_def)
  from reset_deadline [OF timer_reachable_inv [OF sample_timers_reachable] this, of 1010 False]
  show ?thesis by (auto simp: timer_at_def sample_timers_state Timer_new_def)
qed

text \<open>\<open>addTimer\<close> calls \<open>onTimerInsertedAtFront\<close> exactly when the new timer precedes every
  pending one and no notification is outstanding, and remembers it in \<open>tickled_\<close>; the new
  timer joins the abstract map, the others are untouched.\<close>

theorem addTimer_notifies:
  assumes "timer_inv m" and "heap m a = None"
  shows "(fst (TimerManager_addTimer now a ms cb r m) \<longleftrightarrow>
      \<not> tickled m \<and> (\<forall>b\<in>set (timers m).
        now + ms < tm_next (timer_at (heap m) b) \<or>
        now + ms = tm_next (timer_at (heap m) b) \<and> a < b)) \<and>
    tickled (snd (TimerManager_addTimer now a ms cb r m)) =
      (tickled m \<or> fst (TimerManager_addTimer now a ms cb r m)) \<and>
    timer_abs (snd (TimerManager_addTimer now a ms cb r m)) =
      (timer_abs m)(a \<mapsto> Timer_new ms cb r now)"
proof -
  let ?h = "(heap m)(a \<mapsto> Timer_new ms cb r now)"
  have notin: "a \<notin> set (timers m)"
    using timer_invD(2) [OF assms(1)] assms(2) by auto
  then have srt: "sorted_wrt (before ?h) (timers m)"
    using timer_invD(1) [OF assms(1)] by (simp add: sorted_before_upd)
  have "(\<forall>b\<in>set (timers m). before ?h a b) \<longleftrightarrow> (\<forall>b\<in>set (timers m).
        now + ms < tm_next (timer_at (heap m) b) \<or>
        now + ms = tm_next (timer_at (heap m) b) \<and> a < b)"
    using notin by (intro ball_cong) (auto simp: before_iff Timer_new_def)
  then have "fst (TimerManager_addTimer now a ms cb r m) \<longleftrightarrow>
      \<not> tickled m \<and> (\<forall>b\<in>set (timers m).
        now + ms < tm_next (timer_at (heap m) b) \<or>
        now + ms = tm_next (timer_at (heap m) b) \<and> a < b)"
    using tcmp.find_insert_front [OF srt notin]
    by (auto simp: TimerManager_addTimer_def TimerManager_insert_def Let_def)
  moreover have "tickled (snd (TimerManager_addTimer now a ms cb r m)) =
      (tickled m \<or> fst (TimerManager_addTimer now a ms cb r m))"
    by (simp add: TimerManager_addTimer_def TimerManager_insert_state)
  ultimately show ?thesis
    using addTimer_abs [OF assms] by simp
qed

theorem addTimer_notifies_witness:
  "fst (TimerManager_addTimer 1000 2 5 None False (snd (TimerManager_getNextTimer 1000 sample_timers)))"
proof -
  let ?m = "snd (TimerManager_getNextTimer 1000 sample_timers)"
  have "timer_inv ?m"
    by (intro TimerManager_getNextTimer_inv timer_reachable_inv sample_timers_reachable)
  moreover have "heap ?m 2 = None"
    by (simp add: TimerManager_getNextTimer_state sample_timers_def TimerManager_addTimer_def
        TimerManager_insert_def TimerManager_new_def Let_def)
  ultimately show ?thesis
    using addTimer_notifies [of ?m 2 1000 5 None False]
    by (simp add: TimerManager_getNextTimer_state sample_timers_state timer_at_def Timer_new_def)
qed

end
