(* ===== verification/IOManager.thy ===== *)
theory IOManager
  imports Scheduler Timer
begin

unbundle bit_operations_syntax

text \<open>
  The event loop (\<open>sylar/iomanager.h\<close>, \<open>sylar/iomanager.cpp\<close>): per descriptor the events
  waited for and who waits for them, \<open>addEvent\<close>, \<open>delEvent\<close>, \<open>cancelEvent\<close>, \<open>cancelAll\<close>,
  and \<open>idle\<close>, which waits for events and timers and schedules what has become ready.

  \<open>epoll\<close> belongs to the kernel: \<open>io_epoll\<close> is its interest set for \<open>epfd_\<close>, changed by
  \<open>epoll_ctl\<close> as documented (\<open>ADD\<close> of a registered descriptor and \<open>MOD\<close> or \<open>DEL\<close> of
  an unknown one fail), and \<open>fault\<close> is an arbitrary predicate for every other failure. What
  \<open>epoll_wait\<close> returns is an argument of \<open>idle\<close>.
\<close>

section \<open>Events and their printers\<close>

abbreviation NONE :: u32 where "NONE \<equiv> 0"
abbreviation READ :: u32 where "READ \<equiv> 1"
abbreviation WRITE :: u32 where "WRITE \<equiv> 4"

abbreviation EPOLLIN :: u32 where "EPOLLIN \<equiv> 1"
abbreviation EPOLLOUT :: u32 where "EPOLLOUT \<equiv> 4"
abbreviation EPOLLERR :: u32 where "EPOLLERR \<equiv> 8"
abbreviation EPOLLHUP :: u32 where "EPOLLHUP \<equiv> 16"
abbreviation EPOLLET :: u32 where "EPOLLET \<equiv> 2147483648"

datatype ctl_op = EPOLL_CTL_ADD | EPOLL_CTL_DEL | EPOLL_CTL_MOD | CtlOther int

definition print_ctl_op :: "ctl_op \<Rightarrow> string" where
  "print_ctl_op op =
     (case op of EPOLL_CTL_ADD \<Rightarrow> ''EPOLL_CTL_ADD'' | EPOLL_CTL_MOD \<Rightarrow> ''EPOLL_CTL_MOD''
      | EPOLL_CTL_DEL \<Rightarrow> ''EPOLL_CTL_DEL'' | CtlOther i \<Rightarrow> show_int i)"

definition epoll_event_names :: "(u32 \<times> string) list" where
  "epoll_event_names =
     [(1, ''EPOLLIN''), (2, ''EPOLLPRI''), (4, ''EPOLLOUT''), (0x40, ''EPOLLRDNORM''),
      (0x80, ''EPOLLRDBAND''), (0x100, ''EPOLLWRNORM''), (0x200, ''EPOLLWRBAND''),
      (0x400, ''EPOLLMSG''), (8, ''EPOLLERR''), (16, ''EPOLLHUP''), (0x2000, ''EPOLLRDHUP''),
      (0x40000000, ''EPOLLONESHOT''), (0x80000000, ''EPOLLET'')]"

fun print_events_loop :: "u32 \<Rightarrow> bool \<Rightarrow> (u32 \<times> string) list \<Rightarrow> string" where
  "print_events_loop events first [] = []"
| "print_events_loop events first ((E, name) # es) =
     (if events AND E \<noteq> 0
      then (if first then [] else ''|'') @ name @ print_events_loop events False es
      else print_events_loop events first es)"

definition print_events :: "u32 \<Rightarrow> string" where
  "print_events events = (if events = 0 then ''0'' else print_events_loop events True epoll_event_names)"

section \<open>State\<close>

text \<open>\<open>FdContext::EventContext\<close>.\<close>

record event_context =
  ec_scheduler :: "nat option"
  ec_fiber :: "nat option"
  ec_cb :: "closure option"

record fd_context =
  fc_read :: event_context
  fc_write :: event_context
  fc_fd :: int
  fc_events :: u32

text \<open>\<open>io_this\<close> is the address of the scheduler part; tasks for other schedulers are logged in
  \<open>io_foreign\<close>. \<open>io_pipe\<close> is the number of bytes in the pipe of \<open>tickleFds_\<close>.\<close>

record iomanager =
  io_this :: nat
  io_sched :: scheduler
  io_timers :: timer_manager
  io_contexts :: "fd_context list"
  io_pending :: u64
  io_epoll :: "int \<rightharpoonup> u32"
  io_pipe :: nat
  io_foreign :: "(nat \<times> task) list"

definition empty_context :: event_context where
  "empty_context = \<lparr>ec_scheduler = None, ec_fiber = None, ec_cb = None\<rparr>"

definition FdContext_new :: "int \<Rightarrow> fd_context" where
  "FdContext_new fd = \<lparr>fc_read = empty_context, fc_write = empty_context, fc_fd = fd, fc_events = NONE\<rparr>"

section \<open>\<open>FdContext\<close>\<close>

definition getContext :: "u32 \<Rightarrow> fd_context \<Rightarrow> event_context result" where
  "getContext event c =
     (if event = READ then Inr (fc_read c)
      else if event = WRITE then Inr (fc_write c)
      else Inl (AssertFailed ''getContext''))"

text \<open>Storing through the reference \<open>getContext\<close> returns.\<close>

definition putContext :: "u32 \<Rightarrow> event_context \<Rightarrow> fd_context \<Rightarrow> fd_context" where
  "putContext event x c = (if event = READ then c\<lparr>fc_read := x\<rparr> else c\<lparr>fc_write := x\<rparr>)"

definition resetContext :: "event_context \<Rightarrow> event_context" where
  "resetContext x = x\<lparr>ec_scheduler := None, ec_fiber := None, ec_cb := None\<rparr>"

section \<open>Waking up and delivering\<close>

definition IOManager_tickle :: "iomanager \<Rightarrow> iomanager" where
  "IOManager_tickle io =
     (if \<not> Scheduler_hasIdleThreads (io_sched io) then io else io\<lparr>io_pipe := Suc (io_pipe io)\<rparr>)"

definition IOManager_onTimerInsertedAtFront :: "iomanager \<Rightarrow> iomanager" where
  "IOManager_onTimerInsertedAtFront io = IOManager_tickle io"

text \<open>\<open>Scheduler::schedule\<close> on the scheduler \<open>sid\<close>.\<close>

definition io_schedule :: "nat \<Rightarrow> task \<Rightarrow> iomanager \<Rightarrow> iomanager" where
  "io_schedule sid t io =
     (if sid = io_this io then
        let (need_tickle, s) = scheduleNoLock t (io_sched io); io1 = io\<lparr>io_sched := s\<rparr>
        in if need_tickle then IOManager_tickle io1 else io1
      else io\<lparr>io_foreign := io_foreign io @ [(sid, t)]\<rparr>)"

definition FdContext_triggerEvent :: "u32 \<Rightarrow> fd_context \<Rightarrow> iomanager \<Rightarrow> (fd_context \<times> iomanager) result" where
  "FdContext_triggerEvent event c io =
     rbind (sylar_assert (fc_events c AND event \<noteq> 0) ''events & event'') (\<lambda>_.
     let c1 = c\<lparr>fc_events := fc_events c AND NOT event\<rparr> in
     rbind (getContext event c1) (\<lambda>ctx.
     case ec_scheduler ctx of
       None \<Rightarrow> Inl (Undefined ''ctx.scheduler->schedule'')
     | Some sid \<Rightarrow>
         let (t, ctx1) = (case ec_cb ctx of
               Some cb \<Rightarrow> (FiberAndThread_cb (Some cb) (-1), ctx\<lparr>ec_cb := None\<rparr>)
             | None \<Rightarrow> (FiberAndThread_fiber (ec_fiber ctx) (-1), ctx\<lparr>ec_fiber := None\<rparr>))
         in Inr (putContext event (ctx1\<lparr>ec_scheduler := None\<rparr>) c1, io_schedule sid t io)))"

section \<open>Contexts and \<open>epoll_ctl\<close>\<close>

definition contextResize :: "nat \<Rightarrow> iomanager \<Rightarrow> iomanager" where
  "contextResize n io =
     (let old = io_contexts io
      in io\<lparr>io_contexts := take n old @ map (\<lambda>i. FdContext_new (int i)) [length old..<n]\<rparr>)"

definition epoll_ctl :: "(ctl_op \<Rightarrow> int \<Rightarrow> bool) \<Rightarrow> ctl_op \<Rightarrow> int \<Rightarrow> u32 \<Rightarrow> (int \<rightharpoonup> u32) \<Rightarrow>
    int \<times> (int \<rightharpoonup> u32)" where
  "epoll_ctl fault op fd events k =
     (if fault op fd then (-1, k)
      else case op of
        EPOLL_CTL_ADD \<Rightarrow> if k fd = None then (0, k(fd \<mapsto> events)) else (-1, k)
      | EPOLL_CTL_MOD \<Rightarrow> if k fd = None then (-1, k) else (0, k(fd \<mapsto> events))
      | EPOLL_CTL_DEL \<Rightarrow> if k fd = None then (-1, k) else (0, k(fd := None))
      | CtlOther i \<Rightarrow> (-1, k))"

text \<open>Indexing \<open>fdContexts_\<close>: a negative descriptor passes the size test and reads before the
  first element.\<close>

definition context_at :: "int \<Rightarrow> iomanager \<Rightarrow> fd_context result" where
  "context_at fd io =
     (if 0 \<le> fd \<and> nat fd < length (io_contexts io) then Inr (io_contexts io ! nat fd)
      else Inl (Undefined ''fdContexts_[fd]''))"

definition put_context :: "int \<Rightarrow> fd_context \<Rightarrow> iomanager \<Rightarrow> iomanager" where
  "put_context fd c io = io\<lparr>io_contexts := (io_contexts io)[nat fd := c]\<rparr>"

section \<open>Operations\<close>

text \<open>\<open>addEvent\<close> first looks the context up, growing the table when the descriptor is beyond it.
  \<open>cur\<close> is \<open>Scheduler::GetThis()\<close>, \<open>this_fiber\<close> the current fiber with its state.\<close>

definition addEvent_context :: "int \<Rightarrow> iomanager \<Rightarrow> iomanager" where
  "addEvent_context fd io =
     (if int (length (io_contexts io)) > fd then io
      else contextResize (nat (fd * 3 div 2)) io)"

definition IOManager_addEvent :: "(ctl_op \<Rightarrow> int \<Rightarrow> bool) \<Rightarrow> nat option \<Rightarrow> nat \<times> fiber_state \<Rightarrow> int \<Rightarrow> u32 \<Rightarrow>
    closure option \<Rightarrow> iomanager \<Rightarrow> (int \<times> iomanager) result" where
  "IOManager_addEvent fault cur this_fiber fd event cb io0 =
     (let io = addEvent_context fd io0 in
      rbind (context_at fd io) (\<lambda>c.
      rbind (sylar_assert (fc_events c AND event = 0) ''!(fd_ctx->events & event)'') (\<lambda>_.
      let op = (if fc_events c \<noteq> 0 then EPOLL_CTL_MOD else EPOLL_CTL_ADD);
          (rt, k) = epoll_ctl fault op fd (EPOLLET OR fc_events c OR event) (io_epoll io)
      in if rt \<noteq> 0 then Inr (-1, io)
         else
           let io1 = io\<lparr>io_epoll := k, io_pending := io_pending io + 1\<rparr>;
               c1 = c\<lparr>fc_events := fc_events c OR event\<rparr>
           in rbind (getContext event c1) (\<lambda>ctx.
              rbind (sylar_assert (ec_scheduler ctx = None \<and> ec_fiber ctx = None \<and> ec_cb ctx = None)
                ''!event_ctx.scheduler && !event_ctx.fiber && !event_ctx.cb'') (\<lambda>_.
              let ctx1 = ctx\<lparr>ec_scheduler := cur\<rparr> in
              rbind (case cb of
                  Some f \<Rightarrow> Inr (ctx1\<lparr>ec_cb := Some f\<rparr>)
                | None \<Rightarrow> rbind (sylar_assert (snd this_fiber = EXEC) ''state='') (\<lambda>_.
                    Inr (ctx1\<lparr>ec_fiber := Some (fst this_fiber)\<rparr>))) (\<lambda>ctx2.
              Inr (0, put_context fd (putContext event ctx2 c1) io1)))))))"

definition IOManager_delEvent :: "(ctl_op \<Rightarrow> int \<Rightarrow> bool) \<Rightarrow> int \<Rightarrow> u32 \<Rightarrow> iomanager \<Rightarrow>
    (bool \<times> iomanager) result" where
  "IOManager_delEvent fault fd event io =
     (if int (length (io_contexts io)) \<le> fd then Inr (False, io)
      else
      rbind (context_at fd io) (\<lambda>c.
      if fc_events c AND event = 0 then Inr (False, io)
      else
        let new_events = fc_events c AND NOT event;
            op = (if new_events \<noteq> 0 then EPOLL_CTL_MOD else EPOLL_CTL_DEL);
            (rt, k) = epoll_ctl fault op fd (EPOLLET OR new_events) (io_epoll io)
        in if rt \<noteq> 0 then Inr (False, io)
           else
             let io1 = io\<lparr>io_epoll := k, io_pending := io_pending io - 1\<rparr>;
                 c1 = c\<lparr>fc_events := new_events\<rparr>
             in rbind (getContext event c1) (\<lambda>ctx.
                Inr (True, put_context fd (putContext event (resetContext ctx) c1) io1))))"

definition IOManager_cancelEvent :: "(ctl_op \<Rightarrow> int \<Rightarrow> bool) \<Rightarrow> int \<Rightarrow> u32 \<Rightarrow> iomanager \<Rightarrow>
    (bool \<times> iomanager) result" where
  "IOManager_cancelEvent fault fd event io =
     (if int (length (io_contexts io)) \<le> fd then Inr (False, io)
      else
      rbind (context_at fd io) (\<lambda>c.
      if fc_events c AND event = 0 then Inr (False, io)
      else
        let new_events = fc_events c AND NOT event;
            op = (if new_events \<noteq> 0 then EPOLL_CTL_MOD else EPOLL_CTL_DEL);
            (rt, k) = epoll_ctl fault op fd (EPOLLET OR new_events) (io_epoll io)
        in if rt \<noteq> 0 then Inr (False, io)
           else
             rbind (FdContext_triggerEvent event c (io\<lparr>io_epoll := k\<rparr>)) (\<lambda>(c1, io1).
             Inr (True, put_context fd c1 (io1\<lparr>io_pending := io_pending io1 - 1\<rparr>)))))"

text \<open>\<open>cancelAll\<close> and \<open>idle\<close> trigger the events of a mask in the same way.\<close>

definition trigger_if :: "u32 \<Rightarrow> bool \<Rightarrow> fd_context \<times> iomanager \<Rightarrow> (fd_context \<times> iomanager) result" where
  "trigger_if event b = (\<lambda>(c, io).
     if b then rbind (FdContext_triggerEvent event c io) (\<lambda>(c1, io1).
       Inr (c1, io1\<lparr>io_pending := io_pending io1 - 1\<rparr>))
     else Inr (c, io))"

definition IOManager_cancelAll :: "(ctl_op \<Rightarrow> int \<Rightarrow> bool) \<Rightarrow> int \<Rightarrow> iomanager \<Rightarrow>
    (bool \<times> iomanager) result" where
  "IOManager_cancelAll fault fd io =
     (if int (length (io_contexts io)) \<le> fd then Inr (False, io)
      else
      rbind (context_at fd io) (\<lambda>c.
      if fc_events c = 0 then Inr (False, io)
      else
        let (rt, k) = epoll_ctl fault EPOLL_CTL_DEL fd 0 (io_epoll io)
        in if rt \<noteq> 0 then Inr (False, io)
           else
             rbind (trigger_if READ (fc_events c AND READ \<noteq> 0) (c, io\<lparr>io_epoll := k\<rparr>)) (\<lambda>(c1, io1).
             rbind (trigger_if WRITE (fc_events c1 AND WRITE \<noteq> 0) (c1, io1)) (\<lambda>(c2, io2).
             rbind (sylar_assert (fc_events c2 = 0) ''fd_ctx->events == 0'') (\<lambda>_.
             Inr (True, put_context fd c2 io2))))))"

section \<open>Stopping and idling\<close>

definition IOManager_stopping :: "u64 \<Rightarrow> iomanager \<Rightarrow> bool \<times> u64 \<times> iomanager" where
  "IOManager_stopping now io =
     (let (timeout, m) = TimerManager_getNextTimer now (io_timers io)
      in (timeout = - 1 \<and> io_pending io = 0 \<and> Scheduler_stopping (io_sched io),
          timeout, io\<lparr>io_timers := m\<rparr>))"

definition MAX_TIMEOUT :: int where "MAX_TIMEOUT = 3000"

text \<open>One round of the \<open>do\<close>--\<open>while\<close> loop around \<open>epoll_wait\<close>: the new \<open>next_timeout\<close>, and the
  timeout passed to \<open>epoll_wait\<close>. Both conversions to \<open>int\<close> keep the low 32 bits.\<close>

definition clamp_timeout :: "u64 \<Rightarrow> u64" where
  "clamp_timeout next_timeout =
     (if next_timeout \<noteq> - 1 then
        (if sint (ucast next_timeout :: u32) > MAX_TIMEOUT then 3000 else next_timeout)
      else 3000)"

definition wait_timeout :: "u64 \<Rightarrow> int" where
  "wait_timeout next_timeout = sint (ucast (clamp_timeout next_timeout) :: u32)"

datatype ep_data = TickleFd | CtxPtr nat

text \<open>The body of the loop over the events \<open>epoll_wait\<close> returned.\<close>

definition real_events_of :: "u32 \<Rightarrow> u32 \<Rightarrow> u32" where
  "real_events_of events registered =
     (let ev = (if events AND (EPOLLERR OR EPOLLHUP) \<noteq> 0
                then events OR ((EPOLLIN OR EPOLLOUT) AND registered) else events)
      in (if ev AND EPOLLIN \<noteq> 0 then READ else NONE) OR (if ev AND EPOLLOUT \<noteq> 0 then WRITE else NONE))"

definition idle_event :: "(ctl_op \<Rightarrow> int \<Rightarrow> bool) \<Rightarrow> u32 \<times> ep_data \<Rightarrow> iomanager \<Rightarrow> iomanager result" where
  "idle_event fault ev io =
     (case snd ev of
        TickleFd \<Rightarrow> Inr (io\<lparr>io_pipe := 0\<rparr>)
      | CtxPtr n \<Rightarrow>
          rbind (context_at (int n) io) (\<lambda>c.
          let real_events = real_events_of (fst ev) (fc_events c) in
          if fc_events c AND real_events = 0 then Inr io
          else
            let left_events = fc_events c AND NOT real_events;
                op = (if left_events \<noteq> 0 then EPOLL_CTL_MOD else EPOLL_CTL_DEL);
                (rt, k) = epoll_ctl fault op (fc_fd c) (EPOLLET OR left_events) (io_epoll io)
            in if rt \<noteq> 0 then Inr io
               else
                 rbind (trigger_if READ (real_events AND READ \<noteq> 0) (c, io\<lparr>io_epoll := k\<rparr>)) (\<lambda>(c1, io1).
                 rbind (trigger_if WRITE (real_events AND WRITE \<noteq> 0) (c1, io1)) (\<lambda>(c2, io2).
                 Inr (put_context (int n) c2 io2)))))"

fun idle_events :: "(ctl_op \<Rightarrow> int \<Rightarrow> bool) \<Rightarrow> (u32 \<times> ep_data) list \<Rightarrow> iomanager \<Rightarrow> iomanager result" where
  "idle_events fault [] io = Inr io"
| "idle_events fault (ev # evs) io = rbind (idle_event fault ev io) (idle_events fault evs)"

text \<open>One round of \<open>idle\<close>, up to the \<open>swapOut\<close>: \<open>None\<close> when the loop is left. \<open>evs\<close> is what
  \<open>epoll_wait\<close> returned after waiting at most \<open>wait_timeout\<close>, \<open>now'\<close> the time then and
  \<open>p\<close> the address of the timer object \<open>listExpiredCb\<close> allocates.\<close>

definition schedule_expired :: "u64 \<Rightarrow> nat \<Rightarrow> iomanager \<Rightarrow> iomanager" where
  "schedule_expired now p io =
     (let (cbs, m) = TimerManager_listExpiredCb now p (io_timers io) [];
          io1 = io\<lparr>io_timers := m\<rparr>
      in if cbs = [] then io1
         else
           let (need_tickle, cbs', s) = schedule_batch_loop cbs False (io_sched io1);
               io2 = io1\<lparr>io_sched := s\<rparr>
           in if need_tickle then IOManager_tickle io2 else io2)"

definition IOManager_idle_round :: "(ctl_op \<Rightarrow> int \<Rightarrow> bool) \<Rightarrow> u64 \<Rightarrow> u64 \<Rightarrow> nat \<Rightarrow> (u32 \<times> ep_data) list \<Rightarrow>
    iomanager \<Rightarrow> iomanager option result" where
  "IOManager_idle_round fault now now' p evs io =
     (let (stop, next_timeout, io1) = IOManager_stopping now io
      in if stop then Inr None
         else rbind (idle_events fault evs (schedule_expired now' p io1)) (\<lambda>io2. Inr (Some io2)))"

section \<open>Construction\<close>

text \<open>The constructor: the results of \<open>epoll_create\<close>, \<open>pipe\<close>, \<open>fcntl\<close> and \<open>epoll_ctl\<close> for the
  pipe are arguments, and \<open>s\<close> is the scheduler its base class constructor made.\<close>

definition IOManager_new :: "int \<Rightarrow> int \<Rightarrow> int \<Rightarrow> int \<Rightarrow> int list \<Rightarrow> nat \<Rightarrow> scheduler \<Rightarrow> u64 \<Rightarrow> iomanager result" where
  "IOManager_new epfd rt_pipe rt_fcntl rt_ctl ids this s now =
     rbind (sylar_assert (epfd > 0) ''epfd_ > 0'') (\<lambda>_.
     rbind (sylar_assert (rt_pipe = 0) ''!rt'') (\<lambda>_.
     rbind (sylar_assert (rt_fcntl = 0) ''!rt'') (\<lambda>_.
     rbind (sylar_assert (rt_ctl = 0) ''!rt'') (\<lambda>_.
     rbind (Scheduler_start ids s) (\<lambda>s1.
     Inr (contextResize 32 \<lparr>io_this = this, io_sched = s1, io_timers = TimerManager_new now,
       io_contexts = [], io_pending = 0, io_epoll = Map.empty, io_pipe = 0, io_foreign = []\<rparr>))))))"

definition IOManager_destroy :: "u64 \<Rightarrow> nat option \<Rightarrow> iomanager \<Rightarrow> (stop_action \<times> iomanager) result" where
  "IOManager_destroy now cur io =
     rbind (Scheduler_stop (\<lambda>s. fst (IOManager_stopping now (io\<lparr>io_sched := s\<rparr>))) (io_this io) cur (io_sched io)) (\<lambda>(act, s).
     Inr (act, io\<lparr>io_sched := s, io_contexts := [], io_epoll := Map.empty, io_pipe := 0\<rparr>))"

section \<open>Invariant\<close>

definition event_set :: "u32 set" where "event_set = {0, 1, 4, 5}"

definition ctx_armed :: "event_context \<Rightarrow> bool" where
  "ctx_armed x \<longleftrightarrow> ec_scheduler x \<noteq> None \<and> (ec_fiber x = None \<longleftrightarrow> ec_cb x \<noteq> None)"

text \<open>An event is registered exactly when its context names who waits for it.\<close>

definition ctx_ok :: "fd_context \<Rightarrow> bool" where
  "ctx_ok c \<longleftrightarrow> fc_events c \<in> event_set \<and>
     (if fc_events c AND READ \<noteq> 0 then ctx_armed (fc_read c) else fc_read c = empty_context) \<and>
     (if fc_events c AND WRITE \<noteq> 0 then ctx_armed (fc_write c) else fc_write c = empty_context)"

definition nevents :: "u32 \<Rightarrow> nat" where
  "nevents e = of_bool (e AND READ \<noteq> 0) + of_bool (e AND WRITE \<noteq> 0)"

definition total_events :: "iomanager \<Rightarrow> nat" where
  "total_events io = (\<Sum>c \<leftarrow> io_contexts io. nevents (fc_events c))"

definition interest :: "u32 \<Rightarrow> u32 option" where
  "interest e = (if e = 0 then None else Some (EPOLLET OR e))"

definition io_inv :: "iomanager \<Rightarrow> bool" where
  "io_inv io \<longleftrightarrow> 32 \<le> length (io_contexts io) \<and>
     (\<forall>i < length (io_contexts io). ctx_ok (io_contexts io ! i) \<and> fc_fd (io_contexts io ! i) = int i \<and>
        io_epoll io (int i) = interest (fc_events (io_contexts io ! i))) \<and>
     (\<forall>fd. fd < 0 \<or> length (io_contexts io) \<le> nat fd \<longrightarrow> io_epoll io fd = None) \<and>
     io_pending io = of_nat (total_events io)"

lemma event_cases:
  assumes "e \<in> event_set"
  obtains "e = 0" | "e = 1" | "e = 4" | "e = 5"
  using assms by (auto simp: event_set_def)

text \<open>Who waits in a context, and as which task.\<close>

definition waiter :: "event_context \<Rightarrow> nat \<times> task" where
  "waiter x = (the (ec_scheduler x), case ec_cb x of
     Some cb \<Rightarrow> FiberAndThread_cb (Some cb) (-1) | None \<Rightarrow> FiberAndThread_fiber (ec_fiber x) (-1))"

definition context_of :: "u32 \<Rightarrow> fd_context \<Rightarrow> event_context" where
  "context_of event c = (if event = READ then fc_read c else fc_write c)"

definition cleared :: "u32 \<Rightarrow> fd_context \<Rightarrow> fd_context" where
  "cleared event c = putContext event empty_context (c\<lparr>fc_events := fc_events c AND NOT event\<rparr>)"

lemma triggerEvent_armed:
  assumes "ctx_ok c" and "event \<in> {READ, WRITE}" and "fc_events c AND event \<noteq> 0"
  shows "FdContext_triggerEvent event c io =
    Inr (cleared event c, io_schedule (fst (waiter (context_of event c))) (snd (waiter (context_of event c))) io)"
proof -
  have "ctx_armed (context_of event c)"
    using assms by (auto simp: ctx_ok_def context_of_def split: if_splits)
  moreover have "getContext event (c\<lparr>fc_events := fc_events c AND NOT event\<rparr>) = Inr (context_of event c)"
    using assms(2) by (auto simp: getContext_def context_of_def)
  moreover have "x\<lparr>ec_fiber := None, ec_scheduler := None\<rparr> = empty_context" if "ec_cb x = None" for x
    using that by (simp add: empty_context_def)
  moreover have "x\<lparr>ec_cb := None, ec_scheduler := None\<rparr> = empty_context" if "ec_fiber x = None" for x
    using that by (simp add: empty_context_def)
  ultimately show ?thesis
    using assms(3)
    by (cases "ec_cb (context_of event c)")
      (auto simp: FdContext_triggerEvent_def ctx_armed_def waiter_def cleared_def Let_def)
qed

lemma cleared_ok:
  assumes "ctx_ok c" and "event \<in> {READ, WRITE}"
  shows "ctx_ok (cleared event c)" and "fc_fd (cleared event c) = fc_fd c"
    and "fc_events (cleared event c) = fc_events c AND NOT event"
    and "fc_events c AND event \<noteq> 0 \<Longrightarrow> nevents (fc_events c) = Suc (nevents (fc_events (cleared event c)))"
  using assms
  by (auto simp: ctx_ok_def cleared_def putContext_def event_set_def nevents_def split: if_splits)

text \<open>Scheduling touches neither the contexts nor the kernel.\<close>

lemma io_schedule_fields [simp]:
  "io_contexts (io_schedule sid t io) = io_contexts io" "io_epoll (io_schedule sid t io) = io_epoll io"
  "io_pending (io_schedule sid t io) = io_pending io" "io_this (io_schedule sid t io) = io_this io"
  by (simp_all add: io_schedule_def IOManager_tickle_def Let_def split: prod.splits)

lemma context_at_Inr:
  assumes "io_inv io" and "0 \<le> fd" and "fd < int (length (io_contexts io))"
  obtains c where "context_at fd io = Inr c" "ctx_ok c" "fc_fd c = fd"
    "io_epoll io fd = interest (fc_events c)" "c = io_contexts io ! nat fd"
proof -
  have "nat fd < length (io_contexts io)" using assms by simp
  then have "ctx_ok (io_contexts io ! nat fd) \<and> fc_fd (io_contexts io ! nat fd) = fd \<and>
      io_epoll io fd = interest (fc_events (io_contexts io ! nat fd))"
    using assms(1,2) unfolding io_inv_def by (metis int_nat_eq)
  moreover have "context_at fd io = Inr (io_contexts io ! nat fd)"
    using assms(2,3) by (simp add: context_at_def)
  ultimately show thesis using that by simp
qed

lemma context_at_ex: "0 \<le> fd \<Longrightarrow> \<not> int (length (io_contexts io)) \<le> fd \<Longrightarrow> \<exists>c. context_at fd io = Inr c"
  by (simp add: context_at_def nat_less_iff)

lemma total_events_upd:
  assumes "i < length (io_contexts io)"
  shows "total_events (io\<lparr>io_contexts := (io_contexts io)[i := c]\<rparr>) + nevents (fc_events (io_contexts io ! i)) =
    total_events io + nevents (fc_events c)"
proof -
  have "i < length xs \<Longrightarrow> sum_list (map g (xs[i := c])) + g (xs ! i) = sum_list (map g xs) + g c"
    for xs and g :: "fd_context \<Rightarrow> nat"
    by (induction xs arbitrary: i) (auto split: nat.splits)
  from this [OF assms, of "\<lambda>c. nevents (fc_events c)"] show ?thesis
    by (simp add: total_events_def)
qed

text \<open>Replacing one context, its kernel entry and the count accordingly keeps the invariant.\<close>

lemma io_inv_update:
  assumes inv: "io_inv io" and i: "0 \<le> fd" "fd < int (length (io_contexts io))"
    and c: "ctx_ok c" "fc_fd c = fd"
    and io': "io_contexts io' = io_contexts io" "io_epoll io' = (io_epoll io)(fd := interest (fc_events c))"
      "io_pending io' + of_nat (nevents (fc_events (io_contexts io ! nat fd))) =
        io_pending io + of_nat (nevents (fc_events c))"
  shows "io_inv (put_context fd c io')"
proof -
  let ?io = "put_context fd c io'"
  have n: "nat fd < length (io_contexts io)" using i by simp
  have "total_events ?io + nevents (fc_events (io_contexts io ! nat fd)) =
      total_events io + nevents (fc_events c)"
    using total_events_upd [OF n, of c] by (simp add: put_context_def io' total_events_def)
  then have "(of_nat (total_events ?io) :: u64) + of_nat (nevents (fc_events (io_contexts io ! nat fd))) =
      of_nat (total_events io) + of_nat (nevents (fc_events c))"
    by (metis of_nat_add)
  moreover have "io_pending io = of_nat (total_events io)" using inv by (simp add: io_inv_def)
  ultimately have "io_pending io' = of_nat (total_events ?io)"
    using io'(3) by (metis add_right_cancel)
  moreover have "nat fd = i \<longleftrightarrow> fd = int i" for i using i(1) by auto
  ultimately show ?thesis
    using inv i c by (auto simp: io_inv_def put_context_def io' nth_list_update)
qed

lemma contextResize_grow:
  assumes "io_inv io" and "length (io_contexts io) \<le> n"
  shows "io_inv (contextResize n io)"
proof -
  have new: "ctx_ok (FdContext_new i)" "fc_events (FdContext_new i) = 0" "fc_fd (FdContext_new i) = i" for i
    by (simp_all add: FdContext_new_def ctx_ok_def event_set_def)
  have "total_events (contextResize n io) = total_events io"
    using assms(2) by (simp add: contextResize_def total_events_def new nevents_def sum_list_triv Let_def comp_def)
  then show ?thesis
    using assms new
    by (auto simp: io_inv_def contextResize_def nth_append interest_def Let_def)
qed

lemma addEvent_context_inv:
  assumes "io_inv io" and "0 \<le> fd"
  shows "io_inv (addEvent_context fd io)" and "fd < int (length (io_contexts (addEvent_context fd io)))"
    and "fd < int (length (io_contexts io)) \<Longrightarrow> addEvent_context fd io = io"
proof -
  have len: "32 \<le> length (io_contexts io)" using assms(1) by (simp add: io_inv_def)
  have "length (io_contexts (contextResize n io)) = n" for n
    by (simp add: contextResize_def Let_def)
  with len contextResize_grow [OF assms(1), of "nat (fd * 3 div 2)"] assms
  show "io_inv (addEvent_context fd io)"
    and "fd < int (length (io_contexts (addEvent_context fd io)))"
    by (auto simp: addEvent_context_def)
  show "fd < int (length (io_contexts io)) \<Longrightarrow> addEvent_context fd io = io"
    by (simp add: addEvent_context_def)
qed

text \<open>The kernel's answer to the calls the manager makes.\<close>

lemma epoll_ctl_in_sync:
  assumes "k fd = interest e" and "\<not> fault op fd"
    and "op = (if e \<noteq> 0 then EPOLL_CTL_MOD else EPOLL_CTL_ADD)"
  shows "epoll_ctl fault op fd e' k = (0, k(fd \<mapsto> e'))"
  using assms by (auto simp: epoll_ctl_def interest_def)

lemma epoll_ctl_remove:
  assumes "k fd = interest e" and "e \<noteq> 0" and "\<not> fault op fd"
    and "op = (if e' \<noteq> 0 then EPOLL_CTL_MOD else EPOLL_CTL_DEL)"
  shows "epoll_ctl fault op fd (EPOLLET OR e') k = (0, k(fd := interest e'))"
  using assms by (auto simp: epoll_ctl_def interest_def)

lemma epoll_ctl_fault: "fault op fd \<Longrightarrow> epoll_ctl fault op fd e k = (-1, k)"
  by (simp add: epoll_ctl_def)

definition armed_context :: "nat option \<Rightarrow> nat \<Rightarrow> closure option \<Rightarrow> event_context" where
  "armed_context cur f cb = (case cb of
     Some c \<Rightarrow> \<lparr>ec_scheduler = cur, ec_fiber = None, ec_cb = Some c\<rparr>
   | None \<Rightarrow> \<lparr>ec_scheduler = cur, ec_fiber = Some f, ec_cb = None\<rparr>)"

definition add_op :: "fd_context \<Rightarrow> ctl_op" where
  "add_op c = (if fc_events c \<noteq> 0 then EPOLL_CTL_MOD else EPOLL_CTL_ADD)"

definition del_op :: "u32 \<Rightarrow> fd_context \<Rightarrow> ctl_op" where
  "del_op event c = (if fc_events c AND NOT event \<noteq> 0 then EPOLL_CTL_MOD else EPOLL_CTL_DEL)"

lemma addEvent_cases:
  assumes inv: "io_inv io" and fd: "0 \<le> fd" and ev: "event \<in> {READ, WRITE}"
    and c: "context_at fd (addEvent_context fd io) = Inr c" and free: "fc_events c AND event = 0"
    and st: "st = EXEC \<or> cb \<noteq> None"
  shows "IOManager_addEvent fault cur (f, st) fd event cb io =
    Inr (if fault (add_op c) fd then (-1, addEvent_context fd io)
      else (0, put_context fd (putContext event (armed_context cur f cb) (c\<lparr>fc_events := fc_events c OR event\<rparr>))
        ((addEvent_context fd io)\<lparr>io_epoll := (io_epoll (addEvent_context fd io))(fd \<mapsto> EPOLLET OR fc_events c OR event),
          io_pending := io_pending (addEvent_context fd io) + 1\<rparr>)))"
proof -
  let ?io = "addEvent_context fd io"
  note io = addEvent_context_inv(1,2) [OF inv fd]
  obtain ok: "ctx_ok c" and sync: "io_epoll ?io fd = interest (fc_events c)"
    using context_at_Inr [OF io(1) fd io(2)] c by (metis sum.inject(2))
  have ctx: "getContext event (c\<lparr>fc_events := fc_events c OR event\<rparr>) = Inr empty_context"
    using ok ev free by (auto simp: getContext_def ctx_ok_def)
  show ?thesis
  proof (cases "fault (add_op c) fd")
    case True
    then show ?thesis
      using c free by (simp add: IOManager_addEvent_def epoll_ctl_fault add_op_def [symmetric] Let_def)
  next
    case False
    note ctl = epoll_ctl_in_sync [of "io_epoll ?io", OF sync, of fault "add_op c", OF False add_op_def]
    show ?thesis
      using c free ctx st False
      by (auto simp: IOManager_addEvent_def add_op_def [symmetric] ctl Let_def armed_context_def
          empty_context_def split: option.splits)
  qed
qed

lemma delEvent_cases:
  assumes inv: "io_inv io" and fd: "0 \<le> fd" and ev: "event \<in> {READ, WRITE}"
    and c: "context_at fd io = Inr c"
  shows "IOManager_delEvent fault fd event io =
    Inr (if fc_events c AND event = 0 \<or> fault (del_op event c) fd then (False, io)
      else (True, put_context fd (cleared event c)
        (io\<lparr>io_epoll := (io_epoll io)(fd := interest (fc_events c AND NOT event)),
          io_pending := io_pending io - 1\<rparr>)))"
proof -
  have len: "\<not> int (length (io_contexts io)) \<le> fd" "fd < int (length (io_contexts io))"
    using c by (auto simp: context_at_def split: if_splits)
  obtain ok: "ctx_ok c" and sync: "io_epoll io fd = interest (fc_events c)"
    using context_at_Inr [OF inv fd len(2)] c by (metis sum.inject(2))
  show ?thesis
  proof (cases "fc_events c AND event = 0 \<or> fault (del_op event c) fd")
    case True
    then show ?thesis
      using c len by (auto simp: IOManager_delEvent_def epoll_ctl_fault del_op_def [symmetric] Let_def)
  next
    case False
    then have ne: "fc_events c \<noteq> 0" "\<not> fault (del_op event c) fd" by auto
    note ctl = epoll_ctl_remove [of "io_epoll io", OF sync ne(1), of fault "del_op event c", OF ne(2) del_op_def]
    have "resetContext x = empty_context" for x by (simp add: resetContext_def empty_context_def)
    then show ?thesis
      using c len False ev
      by (auto simp: IOManager_delEvent_def del_op_def [symmetric] ctl Let_def cleared_def getContext_def)
  qed
qed

definition deliver :: "event_context \<Rightarrow> iomanager \<Rightarrow> iomanager" where
  "deliver x io = io_schedule (fst (waiter x)) (snd (waiter x)) io"

lemma deliver_fields [simp]:
  "io_contexts (deliver x io) = io_contexts io" "io_epoll (deliver x io) = io_epoll io"
  "io_pending (deliver x io) = io_pending io" "io_this (deliver x io) = io_this io"
  by (simp_all add: deliver_def)

lemma cancelEvent_cases:
  assumes inv: "io_inv io" and fd: "0 \<le> fd" and ev: "event \<in> {READ, WRITE}"
    and c: "context_at fd io = Inr c"
  shows "IOManager_cancelEvent fault fd event io =
    Inr (if fc_events c AND event = 0 \<or> fault (del_op event c) fd then (False, io)
      else (True, put_context fd (cleared event c)
        ((deliver (context_of event c)
          (io\<lparr>io_epoll := (io_epoll io)(fd := interest (fc_events c AND NOT event))\<rparr>))
         \<lparr>io_pending := io_pending io - 1\<rparr>)))"
proof -
  have len: "\<not> int (length (io_contexts io)) \<le> fd" "fd < int (length (io_contexts io))"
    using c by (auto simp: context_at_def split: if_splits)
  obtain ok: "ctx_ok c" and sync: "io_epoll io fd = interest (fc_events c)"
    using context_at_Inr [OF inv fd len(2)] c by (metis sum.inject(2))
  show ?thesis
  proof (cases "fc_events c AND event = 0 \<or> fault (del_op event c) fd")
    case True
    then show ?thesis
      using c len by (auto simp: IOManager_cancelEvent_def epoll_ctl_fault del_op_def [symmetric] Let_def)
  next
    case False
    then have ne: "fc_events c \<noteq> 0" "\<not> fault (del_op event c) fd" "fc_events c AND event \<noteq> 0" by auto
    note ctl = epoll_ctl_remove [of "io_epoll io", OF sync ne(1), of fault "del_op event c", OF ne(2) del_op_def]
    note trig = triggerEvent_armed [OF ok ev ne(3)]
    show ?thesis
      using c len False
      by (auto simp: IOManager_cancelEvent_def del_op_def [symmetric] ctl trig Let_def deliver_def)
  qed
qed

text \<open>Triggering the events of a mask that is registered.\<close>

definition trigger_mask :: "u32 \<Rightarrow> fd_context \<Rightarrow> iomanager \<Rightarrow> iomanager" where
  "trigger_mask e c io =
     (let io1 = (if e AND READ \<noteq> 0 then deliver (fc_read c) io else io)
      in if e AND WRITE \<noteq> 0 then deliver (fc_write c) io1 else io1)"

lemma trigger_if_armed:
  assumes "ctx_ok c" and "event \<in> {READ, WRITE}" and "b \<Longrightarrow> fc_events c AND event \<noteq> 0"
  shows "trigger_if event b (c, io) = Inr (if b then cleared event c else c,
    if b then (deliver (context_of event c) io)\<lparr>io_pending := io_pending io - 1\<rparr> else io)"
  using assms triggerEvent_armed [OF assms(1,2)] by (simp add: trigger_if_def deliver_def)

definition cleared_mask :: "u32 \<Rightarrow> fd_context \<Rightarrow> fd_context" where
  "cleared_mask e c =
     (let c1 = (if e AND READ \<noteq> 0 then cleared READ c else c)
      in if e AND WRITE \<noteq> 0 then cleared WRITE c1 else c1)"

lemma deliver_pending:
  "deliver x (io\<lparr>io_pending := n\<rparr>) = (deliver x io)\<lparr>io_pending := n\<rparr>"
  by (simp add: deliver_def io_schedule_def IOManager_tickle_def Let_def split: prod.splits)

lemma cleared_write_read:
  "fc_events (cleared READ c) AND WRITE = fc_events c AND WRITE" "fc_write (cleared READ c) = fc_write c"
  by (simp_all add: cleared_def putContext_def and.assoc)

lemma trigger_both:
  assumes ok: "ctx_ok c" and sub: "e AND READ \<noteq> 0 \<Longrightarrow> fc_events c AND READ \<noteq> 0"
    "e AND WRITE \<noteq> 0 \<Longrightarrow> fc_events c AND WRITE \<noteq> 0"
  shows "rbind (trigger_if READ (e AND READ \<noteq> 0) (c, io)) (\<lambda>(c1, io1).
      trigger_if WRITE (e AND WRITE \<noteq> 0) (c1, io1)) =
    Inr (cleared_mask e c, (trigger_mask e c io)\<lparr>io_pending := io_pending io - of_nat (nevents e)\<rparr>)"
proof -
  let ?c = "if e AND READ \<noteq> 0 then cleared READ c else c"
  have "ctx_ok ?c" using ok cleared_ok(1) [OF ok, of READ] by simp
  moreover have "fc_events ?c AND WRITE \<noteq> 0" if "e AND WRITE \<noteq> 0"
    using sub(2) [OF that] by (simp add: cleared_write_read)
  ultimately have w: "trigger_if WRITE (e AND WRITE \<noteq> 0) (?c, io1) = Inr
      (if e AND WRITE \<noteq> 0 then cleared WRITE ?c else ?c, if e AND WRITE \<noteq> 0
        then (deliver (fc_write c) io1)\<lparr>io_pending := io_pending io1 - 1\<rparr> else io1)" for io1
    using trigger_if_armed [of ?c WRITE "e AND WRITE \<noteq> 0" io1]
    by (simp add: context_of_def cleared_write_read)
  have r: "trigger_if READ (e AND READ \<noteq> 0) (c, io) = Inr (?c, if e AND READ \<noteq> 0
      then (deliver (fc_read c) io)\<lparr>io_pending := io_pending io - 1\<rparr> else io)"
    using trigger_if_armed [OF ok, of READ "e AND READ \<noteq> 0" io] sub(1) by (simp add: context_of_def)
  show ?thesis
    unfolding r rbind_Inr prod.case w
    by (simp add: cleared_mask_def trigger_mask_def nevents_def deliver_pending Let_def)
qed

lemma cleared_mask_ok:
  assumes "ctx_ok c" and "e \<in> event_set"
  shows "ctx_ok (cleared_mask e c)" "fc_fd (cleared_mask e c) = fc_fd c"
    "fc_events (cleared_mask e c) = fc_events c AND NOT e"
proof -
  have r: "READ \<in> {READ, WRITE}" "WRITE \<in> {READ, WRITE}" by simp_all
  have five: "(x AND NOT 1) AND NOT 4 = x AND NOT (5 :: u32)" for x
    by (simp add: and.assoc)
  note one = cleared_ok [OF assms(1)]
  note two = cleared_ok [OF one(1) [OF r(1)] r(2)]
  show "ctx_ok (cleared_mask e c)" "fc_fd (cleared_mask e c) = fc_fd c"
    "fc_events (cleared_mask e c) = fc_events c AND NOT e"
    using assms(2) one [OF r(1)] one [OF r(2)] two assms(1) five
    by (auto simp: event_set_def cleared_mask_def)
qed

lemma nevents_remove:
  assumes "x \<in> event_set" and "e \<in> event_set" and "x AND e = e"
  shows "nevents x = nevents (x AND NOT e) + nevents e"
  using assms by (auto simp: event_set_def nevents_def)

text \<open>The state after the events \<open>e\<close> of descriptor \<open>fd\<close> have been triggered.\<close>

definition triggered :: "int \<Rightarrow> u32 \<Rightarrow> fd_context \<Rightarrow> iomanager \<Rightarrow> iomanager" where
  "triggered fd e c io =
     put_context fd (cleared_mask e c)
       ((trigger_mask e c (io\<lparr>io_epoll := (io_epoll io)(fd := interest (fc_events c AND NOT e))\<rparr>))
        \<lparr>io_pending := io_pending io - of_nat (nevents e)\<rparr>)"

lemma cancelAll_cases:
  assumes inv: "io_inv io" and fd: "0 \<le> fd" and c: "context_at fd io = Inr c"
  shows "IOManager_cancelAll fault fd io =
    Inr (if fc_events c = 0 \<or> fault EPOLL_CTL_DEL fd then (False, io)
      else (True, triggered fd (fc_events c) c io))"
proof -
  have len: "\<not> int (length (io_contexts io)) \<le> fd" "fd < int (length (io_contexts io))"
    using c by (auto simp: context_at_def split: if_splits)
  obtain ok: "ctx_ok c" and sync: "io_epoll io fd = interest (fc_events c)"
    using context_at_Inr [OF inv fd len(2)] c by (metis sum.inject(2))
  show ?thesis
  proof (cases "fc_events c = 0 \<or> fault EPOLL_CTL_DEL fd")
    case True
    then show ?thesis
      using c len by (auto simp: IOManager_cancelAll_def epoll_ctl_fault Let_def)
  next
    case False
    let ?e = "fc_events c" and ?io = "io\<lparr>io_epoll := (io_epoll io)(fd := None)\<rparr>"
    have ctl: "epoll_ctl fault EPOLL_CTL_DEL fd 0 (io_epoll io) = (0, (io_epoll io)(fd := None))"
      using False sync by (simp add: epoll_ctl_def interest_def)
    obtain c1 io1 where r: "trigger_if READ (?e AND READ \<noteq> 0) (c, ?io) = Inr (c1, io1)"
      and c1: "c1 = (if ?e AND READ \<noteq> 0 then cleared READ c else c)"
      using trigger_if_armed [OF ok, of READ "?e AND READ \<noteq> 0" ?io] by auto
    have w: "fc_events c1 AND WRITE = ?e AND WRITE" using c1 by (simp add: cleared_write_read)
    have both: "trigger_if WRITE (?e AND WRITE \<noteq> 0) (c1, io1) = Inr (cleared_mask ?e c,
        (trigger_mask ?e c ?io)\<lparr>io_pending := io_pending io - of_nat (nevents ?e)\<rparr>)"
      using trigger_both [OF ok, of ?e ?io] r by simp
    have "ctx_ok c \<Longrightarrow> ?e \<in> event_set" by (simp add: ctx_ok_def)
    then have zero: "fc_events (cleared_mask ?e c) = 0"
      using cleared_mask_ok(3) [OF ok] ok by simp
    show ?thesis
      using c len False
      by (simp add: IOManager_cancelAll_def ctl r w both zero triggered_def interest_def)
  qed
qed

lemma real_events_in: "real_events_of ev reg \<in> event_set"
  by (simp add: real_events_of_def event_set_def Let_def)

lemma masked_bits:
  fixes x e :: u32
  assumes "x AND e = e"
  shows "e AND READ \<noteq> 0 \<Longrightarrow> x AND READ \<noteq> 0" and "e AND WRITE \<noteq> 0 \<Longrightarrow> x AND WRITE \<noteq> 0"
proof -
  have "e AND r = (x AND r) AND e" for r
    by (subst assms [symmetric]) (simp only: and.assoc and.commute [of r])
  then show "e AND READ \<noteq> 0 \<Longrightarrow> x AND READ \<noteq> 0" and "e AND WRITE \<noteq> 0 \<Longrightarrow> x AND WRITE \<noteq> 0"
    by auto
qed

lemma idle_event_cases:
  assumes inv: "io_inv io" and n: "context_at (int n) io = Inr c"
    and e: "e = real_events_of ev (fc_events c)" and fresh: "fc_events c AND e = e"
  shows "idle_event fault (ev, CtxPtr n) io =
    Inr (if e = 0 \<or> fault (del_op e c) (int n) then io else triggered (int n) e c io)"
proof -
  have len: "int n < int (length (io_contexts io))"
    using n by (auto simp: context_at_def split: if_splits)
  obtain ok: "ctx_ok c" and fd: "fc_fd c = int n" and sync: "io_epoll io (int n) = interest (fc_events c)"
    using context_at_Inr [OF inv _ len] n by (metis sum.inject(2) of_nat_0_le_iff)
  show ?thesis
  proof (cases "e = 0 \<or> fault (del_op e c) (int n)")
    case True
    then show ?thesis
      using n fd fresh by (auto simp: idle_event_def e [symmetric] epoll_ctl_fault del_op_def [symmetric])
  next
    case False
    then have ne: "fc_events c \<noteq> 0" "\<not> fault (del_op e c) (int n)" using fresh by auto
    note ctl = epoll_ctl_remove [of "io_epoll io", OF sync ne(1), of fault "del_op e c", OF ne(2) del_op_def]
    let ?io = "io\<lparr>io_epoll := (io_epoll io)(int n := interest (fc_events c AND NOT e))\<rparr>"
    obtain c1 io1 where r: "trigger_if READ (e AND READ \<noteq> 0) (c, ?io) = Inr (c1, io1)"
      using trigger_if_armed [OF ok, of READ "e AND READ \<noteq> 0" ?io] masked_bits(1) [OF fresh] by auto
    then have both: "trigger_if WRITE (e AND WRITE \<noteq> 0) (c1, io1) = Inr (cleared_mask e c,
        (trigger_mask e c ?io)\<lparr>io_pending := io_pending io - of_nat (nevents e)\<rparr>)"
      using trigger_both [of c e ?io, OF ok masked_bits [OF fresh]] by simp
    show ?thesis
      using n fd fresh False
      by (simp add: idle_event_def e [symmetric] del_op_def [symmetric] ctl r both triggered_def)
  qed
qed

lemma trigger_mask_fields [simp]:
  "io_contexts (trigger_mask e c io) = io_contexts io" "io_epoll (trigger_mask e c io) = io_epoll io"
  by (simp_all add: trigger_mask_def Let_def)

lemma triggered_inv:
  assumes inv: "io_inv io" and fd: "0 \<le> fd" and c: "context_at fd io = Inr c"
    and e: "e \<in> event_set" "fc_events c AND e = e"
  shows "io_inv (triggered fd e c io)"
proof -
  have len: "fd < int (length (io_contexts io))"
    using c by (auto simp: context_at_def split: if_splits)
  obtain ok: "ctx_ok c" and cfd: "fc_fd c = fd" and cn: "c = io_contexts io ! nat fd"
    using context_at_Inr [OF inv fd len] c by (metis sum.inject(2))
  have "nevents (fc_events c) = nevents (fc_events c AND NOT e) + nevents e"
    using nevents_remove [OF _ e] ok by (simp add: ctx_ok_def)
  then show ?thesis
    unfolding triggered_def
    by (intro io_inv_update [OF inv fd len])
      (use cleared_mask_ok [OF ok e(1)] cfd cn in \<open>simp_all\<close>)
qed

section \<open>Steps\<close>

text \<open>
  The calls on an event loop, each with its own kernel faults. \<open>addEvent\<close> is called on a thread of
  a scheduler, with a callback or from a running fiber; \<open>idle\<close> handles an event the kernel
  reported, as long as it concerns events that are still registered. The timers, the queue and the
  pipe may change in any way in between.
\<close>

inductive io_step :: "iomanager \<Rightarrow> iomanager \<Rightarrow> bool" where
  add: "0 \<le> fd \<Longrightarrow> event \<in> {READ, WRITE} \<Longrightarrow> cur \<noteq> None \<Longrightarrow> st = EXEC \<or> cb \<noteq> None \<Longrightarrow>
    IOManager_addEvent fault cur (f, st) fd event cb io = Inr (r, io') \<Longrightarrow> io_step io io'"
| del: "0 \<le> fd \<Longrightarrow> event \<in> {READ, WRITE} \<Longrightarrow>
    IOManager_delEvent fault fd event io = Inr (b, io') \<Longrightarrow> io_step io io'"
| cancel: "0 \<le> fd \<Longrightarrow> event \<in> {READ, WRITE} \<Longrightarrow>
    IOManager_cancelEvent fault fd event io = Inr (b, io') \<Longrightarrow> io_step io io'"
| cancel_all: "0 \<le> fd \<Longrightarrow> IOManager_cancelAll fault fd io = Inr (b, io') \<Longrightarrow> io_step io io'"
| ready: "context_at (int n) io = Inr c \<Longrightarrow>
    fc_events c AND real_events_of ev (fc_events c) = real_events_of ev (fc_events c) \<Longrightarrow>
    idle_event fault (ev, CtxPtr n) io = Inr io' \<Longrightarrow> io_step io io'"
| other: "io_step io (io\<lparr>io_sched := s, io_timers := m, io_pipe := n, io_foreign := fs\<rparr>)"

inductive io_reachable :: "iomanager \<Rightarrow> bool" where
  start: "IOManager_new epfd rt1 rt2 rt3 ids this s now = Inr io \<Longrightarrow> io_reachable io"
| step: "io_reachable io \<Longrightarrow> io_step io io' \<Longrightarrow> io_reachable io'"

lemma IOManager_new_inv:
  assumes "IOManager_new epfd rt1 rt2 rt3 ids this s now = Inr io"
  shows "io_inv io"
proof -
  have "io_contexts io = map (\<lambda>i. FdContext_new (int i)) [0..<32]" "io_pending io = 0"
    "io_epoll io = Map.empty"
    using assms by (auto simp: IOManager_new_def contextResize_def result_simps Let_def)
  moreover have "ctx_ok (FdContext_new i)" for i
    by (simp add: FdContext_new_def ctx_ok_def event_set_def)
  ultimately show ?thesis
    by (simp add: io_inv_def total_events_def FdContext_new_def interest_def nevents_def comp_def
        sum_list_triv del: upt_conv_Cons)
qed

lemma add_ok:
  assumes ok: "ctx_ok c" and ev: "event \<in> {READ, WRITE}" and free: "fc_events c AND event = 0"
    and cur: "cur \<noteq> None"
  shows "ctx_ok (putContext event (armed_context cur f cb) (c\<lparr>fc_events := fc_events c OR event\<rparr>))"
    and "nevents (fc_events c OR event) = Suc (nevents (fc_events c))" "fc_events c OR event \<noteq> 0"
proof -
  have "ctx_armed (armed_context cur f cb)"
    using cur by (auto simp: ctx_armed_def armed_context_def split: option.splits)
  then show "ctx_ok (putContext event (armed_context cur f cb) (c\<lparr>fc_events := fc_events c OR event\<rparr>))"
    and "nevents (fc_events c OR event) = Suc (nevents (fc_events c))" "fc_events c OR event \<noteq> 0"
    using ok ev free by (auto simp: ctx_ok_def putContext_def event_set_def nevents_def split: if_splits)
qed

lemma addEvent_assert:
  assumes "context_at fd (addEvent_context fd io) = Inr c" and "fc_events c AND event \<noteq> 0"
  shows "IOManager_addEvent fault cur tf fd event cb io = Inl (AssertFailed ''!(fd_ctx->events & event)'')"
  using assms by (simp add: IOManager_addEvent_def Let_def)

lemma addEvent_inv:
  assumes inv: "io_inv io" and fd: "0 \<le> fd" and ev: "event \<in> {READ, WRITE}" and cur: "cur \<noteq> None"
    and st: "st = EXEC \<or> cb \<noteq> None"
    and add: "IOManager_addEvent fault cur (f, st) fd event cb io = Inr (r, io')"
  shows "io_inv io'"
proof -
  let ?io = "addEvent_context fd io"
  note io = addEvent_context_inv(1,2) [OF inv fd]
  obtain c where c: "context_at fd ?io = Inr c" "ctx_ok c" "fc_fd c = fd" "c = io_contexts ?io ! nat fd"
    using context_at_Inr [OF io(1) fd io(2)] by metis
  have free: "fc_events c AND event = 0"
    using add addEvent_assert [OF c(1)] by (metis sum.distinct(1))
  note new = add_ok(1) [OF c(2) ev free cur, of f cb] add_ok(2,3) [OF c(2) ev free cur]
  show ?thesis
  proof (cases "fault (add_op c) fd")
    case True
    then show ?thesis using add addEvent_cases [OF inv fd ev c(1) free st] io(1) by simp
  next
    case False
    then have io': "io' = put_context fd
        (putContext event (armed_context cur f cb) (c\<lparr>fc_events := fc_events c OR event\<rparr>))
        (?io\<lparr>io_epoll := (io_epoll ?io)(fd \<mapsto> EPOLLET OR fc_events c OR event),
             io_pending := io_pending ?io + 1\<rparr>)"
      using add addEvent_cases [OF inv fd ev c(1) free st] by simp
    show ?thesis
      unfolding io'
      by (rule io_inv_update [OF io(1) fd io(2)])
        (use new c(3,4) in \<open>auto simp: putContext_def interest_def or.assoc split: if_splits\<close>)
  qed
qed

lemma removed_inv:
  assumes inv: "io_inv io" and fd: "0 \<le> fd" and c: "context_at fd io = Inr c"
    and ev: "event \<in> {READ, WRITE}" "fc_events c AND event \<noteq> 0"
    and io': "io_contexts io' = io_contexts io"
      "io_epoll io' = (io_epoll io)(fd := interest (fc_events c AND NOT event))"
      "io_pending io' = io_pending io - 1"
  shows "io_inv (put_context fd (cleared event c) io')"
proof -
  have len: "fd < int (length (io_contexts io))"
    using c by (auto simp: context_at_def split: if_splits)
  obtain ok: "ctx_ok c" and cfd: "fc_fd c = fd" and cn: "c = io_contexts io ! nat fd"
    using context_at_Inr [OF inv fd len] c by (metis sum.inject(2))
  show ?thesis
    by (rule io_inv_update [OF inv fd len])
      (use cleared_ok [OF ok ev(1)] ev(2) cfd cn io' in simp_all)
qed

lemma io_step_inv: "io_step io io' \<Longrightarrow> io_inv io \<Longrightarrow> io_inv io'"
proof (induction rule: io_step.induct)
  case (add fd event cur st cb fault f io r io')
  then show ?case using addEvent_inv by metis
next
  case (del fd event fault io b io')
  show ?case
  proof (cases "int (length (io_contexts io)) \<le> fd")
    case True
    then show ?thesis using del by (simp add: IOManager_delEvent_def)
  next
    case False
    then obtain c where c: "context_at fd io = Inr c" using context_at_ex [OF del(1)] by blast
    show ?thesis
      using del delEvent_cases [OF del(4,1,2) c, of fault] removed_inv [OF del(4,1) c del(2)]
      by (auto split: if_splits)
  qed
next
  case (cancel fd event fault io b io')
  show ?case
  proof (cases "int (length (io_contexts io)) \<le> fd")
    case True
    then show ?thesis using cancel by (simp add: IOManager_cancelEvent_def)
  next
    case False
    then obtain c where c: "context_at fd io = Inr c" using context_at_ex [OF cancel(1)] by blast
    show ?thesis
      using cancel cancelEvent_cases [OF cancel(4,1,2) c, of fault] removed_inv [OF cancel(4,1) c cancel(2)]
      by (auto split: if_splits)
  qed
next
  case (cancel_all fd fault io b io')
  show ?case
  proof (cases "int (length (io_contexts io)) \<le> fd")
    case True
    then show ?thesis using cancel_all by (simp add: IOManager_cancelAll_def)
  next
    case False
    then obtain c where c: "context_at fd io = Inr c" "ctx_ok c"
      using context_at_Inr [OF cancel_all(3,1)] by (metis not_le)
    show ?thesis
      using cancel_all cancelAll_cases [OF cancel_all(3,1) c(1), of fault]
        triggered_inv [OF cancel_all(3,1) c(1), of "fc_events c"] c(2)
      by (auto simp: ctx_ok_def split: if_splits)
  qed
next
  case (ready n io c ev fault io')
  show ?case
    using ready idle_event_cases [OF ready(4,1) refl ready(2), of fault]
      triggered_inv [OF ready(4) _ ready(1) real_events_in ready(2)]
    by (auto split: if_splits)
next
  case (other io s m n fs)
  then show ?case by (simp add: io_inv_def total_events_def)
qed

lemma io_reachable_inv: "io_reachable io \<Longrightarrow> io_inv io"
  by (induction rule: io_reachable.induct) (use IOManager_new_inv io_step_inv in blast)+

section \<open>Properties\<close>


definition no_fault :: "ctl_op \<Rightarrow> int \<Rightarrow> bool" where
  "no_fault op fd = False"

definition sample_io0 :: iomanager where
  "sample_io0 = contextResize 32 \<lparr>io_this = 1, io_sched = sample_scheduler\<lparr>sc_stopping := False\<rparr>,
     io_timers = TimerManager_new 1000, io_contexts = [], io_pending = 0, io_epoll = Map.empty,
     io_pipe = 0, io_foreign = []\<rparr>"

text \<open>Descriptor 5 with a fiber waiting to read.\<close>

definition sample_io :: iomanager where
  "sample_io = put_context 5 (putContext READ (armed_context (Some 1) 7 None)
       ((FdContext_new 5)\<lparr>fc_events := READ\<rparr>))
     (sample_io0\<lparr>io_epoll := [5 \<mapsto> EPOLLET OR READ], io_pending := 1\<rparr>)"

lemma sample_io0_reachable: "io_reachable sample_io0"
proof -
  have "IOManager_new 3 0 0 0 [] 1 sample_scheduler 1000 = Inr sample_io0"
    by (simp add: IOManager_new_def sample_io0_def sample_scheduler_def Scheduler_start_def)
  then show ?thesis by (rule io_reachable.start)
qed

lemma sample_contexts: "fd \<in> {5, 6} \<Longrightarrow> context_at fd sample_io0 = Inr (FdContext_new fd)"
  by (auto simp: context_at_def sample_io0_def contextResize_def)

lemma sample_add:
  "IOManager_addEvent no_fault (Some 1) (7, EXEC) 5 READ None sample_io0 = Inr (0, sample_io)"
proof -
  have [simp]: "addEvent_context 5 sample_io0 = sample_io0"
    by (simp add: addEvent_context_def sample_io0_def contextResize_def)
  have c: "context_at 5 (addEvent_context 5 sample_io0) = Inr (FdContext_new 5)"
    using sample_contexts [of 5] by simp
  have z: "io_epoll sample_io0 = Map.empty" "io_pending sample_io0 = 0"
    by (simp_all add: sample_io0_def contextResize_def Let_def)
  show ?thesis
    using addEvent_cases [OF io_reachable_inv [OF sample_io0_reachable] _ _ c, of READ EXEC None no_fault "Some 1" 7]
    by (simp add: FdContext_new_def no_fault_def sample_io_def z)
qed

lemma sample_io_reachable: "io_reachable sample_io"
  by (rule io_reachable.step [OF sample_io0_reachable io_step.add [OF _ _ _ _ sample_add]]) simp_all

lemma sample_io_context:
  "context_at 5 sample_io = Inr (putContext READ (armed_context (Some 1) 7 None)
     ((FdContext_new 5)\<lparr>fc_events := READ\<rparr>))"
  by (simp add: context_at_def sample_io_def put_context_def sample_io0_def contextResize_def)




lemma put_context_at:
  assumes "0 \<le> fd" and "fd < int (length (io_contexts io))" and "io_contexts io' = io_contexts io"
  shows "context_at fd (put_context fd c io') = Inr c"
  using assms by (simp add: context_at_def put_context_def nat_less_iff)

lemma cleared_added:
  assumes "ctx_ok c" and "event \<in> {READ, WRITE}" and "fc_events c AND event = 0"
  shows "cleared event (putContext event x (c\<lparr>fc_events := fc_events c OR event\<rparr>)) = c"
    and "(fc_events c OR event) AND NOT event = fc_events c"
    and "(fc_events c OR event) AND event \<noteq> 0"
    and "context_of event (putContext event x c) = x"
proof -
  show ev: "(fc_events c OR event) AND NOT event = fc_events c" "(fc_events c OR event) AND event \<noteq> 0"
    using assms by (auto simp: ctx_ok_def event_set_def)
  have "context_of event c = empty_context"
    using assms by (auto simp: ctx_ok_def context_of_def split: if_splits)
  then show "cleared event (putContext event x (c\<lparr>fc_events := fc_events c OR event\<rparr>)) = c"
    using ev(1) assms(2) by (cases c) (auto simp: cleared_def putContext_def context_of_def)
  show "context_of event (putContext event x c) = x"
    using assms(2) by (auto simp: context_of_def putContext_def)
qed

lemma addEvent_added:
  assumes inv: "io_inv io" and fd: "0 \<le> fd" and ev: "event \<in> {READ, WRITE}"
    and st: "st = EXEC \<or> cb \<noteq> None" and cur: "cur \<noteq> None"
    and add: "IOManager_addEvent fault cur (f, st) fd event cb io = Inr (0, io1)"
  obtains c c1 where "context_at fd (addEvent_context fd io) = Inr c" "ctx_ok c" "fc_events c AND event = 0"
    "c1 = putContext event (armed_context cur f cb) (c\<lparr>fc_events := fc_events c OR event\<rparr>)"
    "io1 = put_context fd c1 ((addEvent_context fd io)\<lparr>
       io_epoll := (io_epoll (addEvent_context fd io))(fd \<mapsto> EPOLLET OR fc_events c OR event),
       io_pending := io_pending (addEvent_context fd io) + 1\<rparr>)"
    "io_inv io1" "context_at fd io1 = Inr c1" "io_epoll (addEvent_context fd io) fd = interest (fc_events c)"
    "c = io_contexts (addEvent_context fd io) ! nat fd"
proof -
  let ?io = "addEvent_context fd io"
  note io = addEvent_context_inv(1,2) [OF inv fd]
  obtain c where c: "context_at fd ?io = Inr c" "ctx_ok c" "io_epoll ?io fd = interest (fc_events c)"
    "c = io_contexts ?io ! nat fd"
    using context_at_Inr [OF io(1) fd io(2)] by metis
  have free: "fc_events c AND event = 0"
    using add addEvent_assert [OF c(1)] by (metis sum.distinct(1))
  let ?c1 = "putContext event (armed_context cur f cb) (c\<lparr>fc_events := fc_events c OR event\<rparr>)"
  have io1: "io1 = put_context fd ?c1 (?io\<lparr>
       io_epoll := (io_epoll ?io)(fd \<mapsto> EPOLLET OR fc_events c OR event),
       io_pending := io_pending ?io + 1\<rparr>)"
    using add addEvent_cases [OF inv fd ev c(1) free st, of fault cur f] by (auto split: if_splits)
  moreover have "context_at fd io1 = Inr ?c1" unfolding io1 by (rule put_context_at [OF fd io(2)]) simp
  ultimately show thesis
    using that [OF c(1,2) free refl] addEvent_inv [OF inv fd ev cur st add] c(3,4) by blast
qed

text \<open>A registration can be taken back: after \<open>addEvent\<close> succeeded, \<open>delEvent\<close> of the same event
  restores every context, the kernel's interest set and the counter, and wakes nobody.\<close>

theorem add_del_round_trip:
  assumes "io_reachable io" and "0 \<le> fd" and "event \<in> {READ, WRITE}"
    and "st = EXEC \<or> cb \<noteq> None" and "cur \<noteq> None"
    and "IOManager_addEvent fault cur (f, st) fd event cb io = Inr (0, io1)"
    and "\<And>op. \<not> fault op fd"
  shows "IOManager_delEvent fault fd event io1 = Inr (True, addEvent_context fd io)"
proof -
  note inv = io_reachable_inv [OF assms(1)]
  let ?io = "addEvent_context fd io"
  obtain c c1 where c: "context_at fd ?io = Inr c" "ctx_ok c" "fc_events c AND event = 0"
    and c1: "c1 = putContext event (armed_context cur f cb) (c\<lparr>fc_events := fc_events c OR event\<rparr>)"
    and io1: "io1 = put_context fd c1 (?io\<lparr>
       io_epoll := (io_epoll ?io)(fd \<mapsto> EPOLLET OR fc_events c OR event),
       io_pending := io_pending ?io + 1\<rparr>)"
    and at: "io_inv io1" "context_at fd io1 = Inr c1" "io_epoll ?io fd = interest (fc_events c)"
      "c = io_contexts ?io ! nat fd"
    using addEvent_added [OF inv assms(2-6)] .
  note cl = cleared_added [OF c(2) assms(3) c(3)]
  have e1: "fc_events c1 = fc_events c OR event" by (simp add: c1 putContext_def)
  have "nat fd < length (io_contexts ?io)" using addEvent_context_inv(2) [OF inv assms(2)] assms(2) by simp
  then have same: "(io_contexts ?io)[nat fd := c] = io_contexts ?io" using at(4) by simp
  have upd: "(io_epoll ?io)(fd := interest (fc_events c)) = io_epoll ?io"
    using at(3) by (metis fun_upd_triv)
  have "IOManager_delEvent fault fd event io1 = Inr (True, put_context fd c
      (io1\<lparr>io_epoll := (io_epoll io1)(fd := interest (fc_events c)), io_pending := io_pending io1 - 1\<rparr>))"
    using delEvent_cases [OF at(1) assms(2,3) at(2), of fault] assms(7) cl(1-3) by (simp add: e1 c1 [symmetric])
      (simp add: c1 cl(1))
  also have "put_context fd c (io1\<lparr>io_epoll := (io_epoll io1)(fd := interest (fc_events c)),
      io_pending := io_pending io1 - 1\<rparr>) = ?io"
    using same upd by (simp add: io1 put_context_def)
  finally show ?thesis .
qed

theorem add_del_round_trip_witness:
  "IOManager_delEvent no_fault 5 READ sample_io = Inr (True, sample_io0)"
  using add_del_round_trip [OF sample_io0_reachable _ _ _ _ sample_add]
  by (simp add: no_fault_def addEvent_context_def sample_io0_def contextResize_def Let_def)

lemma deliver_frame:
  "deliver x (io\<lparr>io_epoll := k, io_contexts := cs\<rparr>) = (deliver x io)\<lparr>io_epoll := k, io_contexts := cs\<rparr>"
  by (simp add: deliver_def io_schedule_def IOManager_tickle_def Let_def split: prod.splits)

lemma iomanager_restore:
  "io_contexts io = cs \<Longrightarrow> io_epoll io = k \<Longrightarrow> io_pending io = n \<Longrightarrow>
    (io :: iomanager)\<lparr>io_epoll := k, io_contexts := cs, io_pending := n\<rparr> = io"
  by auto

lemma cancel_after_add:
  assumes "io_inv io" and "0 \<le> fd" and "event \<in> {READ, WRITE}"
    and "st = EXEC \<or> cb \<noteq> None" and "cur \<noteq> None"
    and "IOManager_addEvent fault cur (f, st) fd event cb io = Inr (0, io1)"
    and "\<And>op. \<not> fault op fd"
  shows "IOManager_cancelEvent fault fd event io1 =
    Inr (True, io_schedule (the cur) (case cb of Some g \<Rightarrow> FiberAndThread_cb (Some g) (-1)
      | None \<Rightarrow> FiberAndThread_fiber (Some f) (-1)) (addEvent_context fd io))"
proof -
  note inv = assms(1)
  let ?io = "addEvent_context fd io" and ?x = "armed_context cur f cb"
  obtain c c1 where c: "context_at fd ?io = Inr c" "ctx_ok c" "fc_events c AND event = 0"
    and c1: "c1 = putContext event ?x (c\<lparr>fc_events := fc_events c OR event\<rparr>)"
    and io1: "io1 = put_context fd c1 (?io\<lparr>
       io_epoll := (io_epoll ?io)(fd \<mapsto> EPOLLET OR fc_events c OR event),
       io_pending := io_pending ?io + 1\<rparr>)"
    and at: "io_inv io1" "context_at fd io1 = Inr c1" "io_epoll ?io fd = interest (fc_events c)"
      "c = io_contexts ?io ! nat fd"
    using addEvent_added [OF inv assms(2-6)] .
  note cl = cleared_added [OF c(2) assms(3) c(3)]
  have e1: "fc_events c1 = fc_events c OR event" by (simp add: c1 putContext_def)
  have x1: "context_of event c1 = ?x" using assms(3) by (auto simp: c1 context_of_def putContext_def)
  have "nat fd < length (io_contexts ?io)" using addEvent_context_inv(2) [OF inv assms(2)] assms(2) by simp
  then have same: "(io_contexts ?io)[nat fd := c] = io_contexts ?io" using at(4) by simp
  have upd: "(io_epoll ?io)(fd := interest (fc_events c)) = io_epoll ?io"
    using at(3) by (metis fun_upd_triv)
  let ?io2 = "?io\<lparr>io_epoll := io_epoll ?io, io_contexts := io_contexts ?io, io_pending := io_pending ?io + 1\<rparr>"
  have "IOManager_cancelEvent fault fd event io1 = Inr (True, put_context fd c
      ((deliver ?x (io1\<lparr>io_epoll := (io_epoll io1)(fd := interest (fc_events c))\<rparr>))
       \<lparr>io_pending := io_pending io1 - 1\<rparr>))"
    using cancelEvent_cases [OF at(1) assms(2,3) at(2), of fault] assms(7) cl(2,3) cl(1) [of ?x]
    by (simp add: e1 x1) (simp add: c1)
  also have "put_context fd c ((deliver ?x (io1\<lparr>io_epoll := (io_epoll io1)(fd := interest (fc_events c))\<rparr>))
       \<lparr>io_pending := io_pending io1 - 1\<rparr>) = deliver ?x ?io"
  proof -
    have "io1\<lparr>io_epoll := (io_epoll io1)(fd := interest (fc_events c))\<rparr> =
        (?io\<lparr>io_epoll := io_epoll ?io, io_contexts := (io_contexts ?io)[nat fd := c1]\<rparr>)
        \<lparr>io_pending := io_pending ?io + 1\<rparr>"
      using upd by (simp add: io1 put_context_def)
    moreover have "io_pending io1 = io_pending ?io + 1" by (simp add: io1 put_context_def)
    ultimately show ?thesis
      using same by (simp only: deliver_pending deliver_frame)
        (simp add: put_context_def iomanager_restore)
  qed
  also have "deliver ?x ?io = io_schedule (the cur) (case cb of Some g \<Rightarrow> FiberAndThread_cb (Some g) (-1)
      | None \<Rightarrow> FiberAndThread_fiber (Some f) (-1)) ?io"
    by (simp add: deliver_def waiter_def armed_context_def split: option.splits)
  finally show ?thesis .
qed

text \<open>Cancelling delivers exactly once: after \<open>addEvent\<close> succeeded, \<open>cancelEvent\<close> of the same event
  schedules the fiber or the callback that waited, on the scheduler it waited on, and otherwise
  leaves the loop as it was before the registration.\<close>

theorem cancelEvent_delivers:
  assumes "io_reachable io" and "0 \<le> fd" and "event \<in> {READ, WRITE}"
    and "st = EXEC \<or> cb \<noteq> None" and "cur \<noteq> None"
    and "IOManager_addEvent fault cur (f, st) fd event cb io = Inr (0, io1)"
    and "\<And>op. \<not> fault op fd"
  shows "IOManager_cancelEvent fault fd event io1 =
    Inr (True, io_schedule (the cur) (case cb of Some g \<Rightarrow> FiberAndThread_cb (Some g) (-1)
      | None \<Rightarrow> FiberAndThread_fiber (Some f) (-1)) (addEvent_context fd io))"
  by (rule cancel_after_add [OF io_reachable_inv [OF assms(1)] assms(2-7)])

theorem cancelEvent_delivers_witness:
  "IOManager_cancelEvent no_fault 5 READ sample_io =
     Inr (True, io_schedule 1 (FiberAndThread_fiber (Some 7) (-1)) sample_io0)"
  using cancelEvent_delivers [OF sample_io0_reachable _ _ _ _ sample_add]
  by (simp add: no_fault_def addEvent_context_def sample_io0_def contextResize_def Let_def)



text \<open>A reported event that another thread has removed meanwhile is not safe: when the kernel
  reported reading and writing and only writing is still registered, \<open>idle\<close> does not mask the
  reported events with the registered ones and fails the assertion of \<open>triggerEvent\<close>.\<close>

theorem idle_stale_event_aborts:
  assumes "context_at (int n) io = Inr c" and "fc_events c = WRITE" and "fc_fd c = int n"
    and "io_epoll io (int n) = interest WRITE" and "\<And>op. \<not> fault op (int n)"
  shows "idle_event fault (EPOLLIN OR EPOLLOUT, CtxPtr n) io = Inl (AssertFailed ''events & event'')"
proof -
  have "real_events_of (EPOLLIN OR EPOLLOUT) WRITE = 5" by (simp add: real_events_of_def)
  then show ?thesis
    using assms
    by (simp add: idle_event_def epoll_ctl_def interest_def trigger_if_def FdContext_triggerEvent_def)
qed

theorem idle_stale_event_aborts_witness:
  "idle_event no_fault (EPOLLIN OR EPOLLOUT, CtxPtr 6)
     (put_context 6 ((FdContext_new 6)\<lparr>fc_events := WRITE, fc_write := armed_context (Some 1) 7 None\<rparr>)
       (sample_io0\<lparr>io_epoll := [6 \<mapsto> EPOLLET OR WRITE], io_pending := 1\<rparr>)) =
   Inl (AssertFailed ''events & event'')"
  by (rule idle_stale_event_aborts [where c =
      "(FdContext_new 6)\<lparr>fc_events := WRITE, fc_write := armed_context (Some 1) 7 None\<rparr>"])
    (simp_all add: context_at_def put_context_def sample_io0_def contextResize_def Let_def FdContext_new_def
      no_fault_def interest_def)

text \<open>C15. The time \<open>idle\<close> blocks for is the smaller of three seconds and the time to the next
  timer whenever that fits 31 bits. Beyond that the conversion to \<open>int\<close> fails: from \<open>2\<^sup>31\<close> up to
  \<open>2\<^sup>32\<close> milliseconds it passes a negative timeout, which blocks without limit.\<close>

theorem wait_timeout_exact:
  "(t < 2 ^ 31 \<longrightarrow> wait_timeout t = min 3000 (uint t)) \<and> wait_timeout (- 1) = 3000 \<and>
   (2 ^ 31 \<le> t \<and> t < 2 ^ 32 \<longrightarrow> wait_timeout t < 0)"
proof -
  have low: "sint (ucast t :: u32) = uint t" if "t < 2 ^ 31"
  proof -
    have t: "uint t < 2 ^ 31" using that by (simp add: word_less_def)
    then have "uint (ucast t :: u32) = uint t"
      by (simp add: uint_up_ucast unsigned_ucast_eq take_bit_int_eq_self)
    moreover have "- (2 ^ 31) \<le> uint t" by (rule order_trans [of _ 0]) simp_all
    ultimately show ?thesis using t signed_take_bit_int_eq_self [of 31 "uint t"]
      by (simp add: sint_uint)
  qed
  have high: "sint (ucast t :: u32) < 0" if "2 ^ 31 \<le> t" "t < 2 ^ 32"
  proof -
    have t: "2 ^ 31 \<le> uint t" "uint t < 2 ^ 32" using that by (simp_all add: word_less_def word_le_def)
    then have u: "uint (ucast t :: u32) = uint t"
      by (simp add: unsigned_ucast_eq take_bit_int_eq_self)
    have "sint (ucast t :: u32) = signed_take_bit 31 (uint t)" by (simp add: sint_uint u)
    also have "\<dots> = uint t - 2 ^ 32"
    proof -
      have "uint t div 2 ^ 31 = 1" using t by (intro int_div_pos_eq [of _ _ _ "uint t - 2 ^ 31"]) simp_all
      then have "bit (uint t) 31" by (simp add: bit_iff_odd)
      then show ?thesis using t by (simp add: signed_take_bit_eq_take_bit_minus take_bit_int_eq_self)
    qed
    finally show ?thesis using t by simp
  qed
  have "t \<noteq> - 1" if "t < 2 ^ 32" using that by auto
  then show ?thesis
    using low high
    by (auto simp: wait_timeout_def clamp_timeout_def MAX_TIMEOUT_def min_def)
qed

theorem wait_timeout_exact_witness:
  "wait_timeout 5000 = 3000 \<and> wait_timeout 20 = 20 \<and> wait_timeout 2147483648 < 0"
  using wait_timeout_exact [of 5000] wait_timeout_exact [of 20] wait_timeout_exact [of 2147483648]
  by simp

definition cb_tasks :: "closure option list \<Rightarrow> task list" where
  "cb_tasks cs = map (\<lambda>c. FiberAndThread_cb c (-1)) (filter (\<lambda>c. c \<noteq> None) cs)"

lemma schedule_batch_loop_queue:
  "schedule_batch_loop cs need s = (need', cs', s') \<Longrightarrow>
    sc_fibers s' = sc_fibers s @ cb_tasks cs \<and> cs' = map (\<lambda>_. None) cs"
proof (induction cs arbitrary: need s need' cs' s')
  case (Cons c cs)
  then show ?case
    by (fastforce simp: Let_def FiberAndThread_swap_cb_def scheduleNoLock_def task_null_def cb_tasks_def
        FiberAndThread_cb_def split: prod.splits if_splits)
qed (simp add: cb_tasks_def)

text \<open>C16. A round of \<open>idle\<close> puts the callback of every timer that is due into the queue of the
  scheduler, in the order of their deadlines and behind what is there, and nothing else: the
  timer manager moves on exactly as its specification says.\<close>

theorem idle_schedules_due_timers:
  assumes "timer_inv (io_timers io)" and "heap (io_timers io) p = None"
  shows "sc_fibers (io_sched (schedule_expired now p io)) = sc_fibers (io_sched io) @
      cb_tasks (map (\<lambda>a. tm_cb (timer_at (heap (io_timers io)) a))
        (filter (\<lambda>a. rolled_over now (io_timers io) \<or> due now (io_timers io) a) (timers (io_timers io)))) \<and>
    timer_abs (io_timers (schedule_expired now p io)) =
      spec_expire now (rolled_over now (io_timers io)) (timer_abs (io_timers io)) \<and>
    timer_inv (io_timers (schedule_expired now p io))"
proof -
  obtain cbs m where res: "TimerManager_listExpiredCb now p (io_timers io) [] = (cbs, m)"
    by fastforce
  obtain need cs s where batch: "schedule_batch_loop cbs False (io_sched io) = (need, cs, s)"
    by (metis prod_cases3)
  have m: "io_timers (schedule_expired now p io) = m"
    and q: "sc_fibers (io_sched (schedule_expired now p io)) = sc_fibers (io_sched io) @ cb_tasks cbs"
    using schedule_batch_loop_queue [OF batch]
    by (auto simp: schedule_expired_def res batch IOManager_tickle_def Let_def cb_tasks_def)
  have "fired now (io_timers io) = filter (\<lambda>a. rolled_over now (io_timers io) \<or> due now (io_timers io) a)
      (timers (io_timers io))"
    by (simp add: fired_def)
  then show ?thesis
    using q m listExpiredCb_spec(1) [OF assms res] tq.expire_inv [OF assms, of now "[]"]
      tq.expire_pending [OF assms, of now "[]"] by (simp add: res)
qed

theorem idle_schedules_due_timers_witness:
  "sc_fibers (io_sched (schedule_expired 1030 0 (sample_io\<lparr>io_timers := sample_timers\<rparr>))) =
     [FiberAndThread_cb (Some (UserFn 2)) (-1)]"
proof -
  have "timer_inv sample_timers" by (rule timer_reachable_inv [OF sample_timers_reachable])
  then show ?thesis
    using idle_schedules_due_timers [of "sample_io\<lparr>io_timers := sample_timers\<rparr>" 0 1030]
    by (simp add: sample_timers_state rolled_over_def TimerManager_detectClockRollover_def due_def
        timer_at_def Timer_new_def cb_tasks_def sample_io_def put_context_def sample_io0_def
        contextResize_def Let_def sample_scheduler_def)
qed

lemma total_events_zero: "total_events io = 0 \<longleftrightarrow> (\<forall>c \<in> set (io_contexts io). nevents (fc_events c) = 0)"
  by (auto simp: total_events_def)

lemma total_events_bound: "total_events io \<le> 2 * length (io_contexts io)"
proof -
  have "(\<Sum>c \<leftarrow> cs. nevents (fc_events c)) \<le> 2 * length cs" for cs
  proof (induction cs)
    case (Cons c cs)
    moreover have "nevents (fc_events c) \<le> 2" by (simp add: nevents_def)
    ultimately show ?case by simp
  qed simp
  then show ?thesis by (simp add: total_events_def)
qed



text \<open>The table of contexts is grown without looking at its size again under the write lock: a thread
  that decided to grow it before another one grew it further makes it smaller.\<close>

lemma resize_race:
  assumes "fd < fd'" and "length (io_contexts io) \<le> nat fd" and "2 \<le> fd"
    and "fd * 3 div 2 \<le> fd'"
  shows "\<exists>c. context_at fd' (addEvent_context fd' io) = Inr c"
    and "context_at fd' (contextResize (nat (fd * 3 div 2)) (addEvent_context fd' io)) =
      Inl (Undefined ''fdContexts_[fd]'')"
proof -
  have "fd' < fd' * 3 div 2" using assms(1,3) by simp
  then show "\<exists>c. context_at fd' (addEvent_context fd' io) = Inr c"
    using assms(1-3) by (auto simp: context_at_def addEvent_context_def contextResize_def Let_def nat_less_iff)
  show "context_at fd' (contextResize (nat (fd * 3 div 2)) (addEvent_context fd' io)) =
      Inl (Undefined ''fdContexts_[fd]'')"
    using assms by (auto simp: context_at_def contextResize_def Let_def)
qed

text \<open>A negative descriptor passes the test of the size and indexes the table before its start.\<close>

lemma negative_fd_undefined:
  "fd < 0 \<Longrightarrow> IOManager_cancelEvent fault fd event io = Inl (Undefined ''fdContexts_[fd]'')"
  by (simp add: IOManager_cancelEvent_def context_at_def)

end
