(* ===== verification/FdManager.thy ===== *)
theory FdManager
  imports Prelude
begin

unbundle bit_operations_syntax

text \<open>
  The table of descriptors (\<open>sylar/fd_manager.h\<close>, \<open>sylar/fd_manager.cpp\<close>): for every
  descriptor whether it is a socket, whether the library and the user made it non-blocking, and its
  timeouts. The system calls underneath (\<open>fstat\<close>, and \<open>fcntl_f\<close>, the original \<open>fcntl\<close>) are
  the fields of \<open>libc\<close>, over an arbitrary type of kernel states; \<open>flags_law\<close> is what \<open>fcntl(2)\<close>
  documents about \<open>O_NONBLOCK\<close>.
\<close>

section \<open>The system underneath\<close>

abbreviation O_NONBLOCK :: u32 where "O_NONBLOCK \<equiv> 2048"

abbreviation SO_RCVTIMEO :: int where "SO_RCVTIMEO \<equiv> 20"
abbreviation SO_SNDTIMEO :: int where "SO_SNDTIMEO \<equiv> 21"

text \<open>\<open>lc_fstat\<close> is \<open>None\<close> when \<open>fstat\<close> fails and otherwise says whether the descriptor is a
  socket; \<open>lc_getfl\<close> and \<open>lc_setfl\<close> are \<open>fcntl_f\<close> with \<open>F_GETFL\<close> and \<open>F_SETFL\<close>.\<close>

record 'k libc =
  lc_fstat :: "int \<Rightarrow> 'k \<Rightarrow> bool option"
  lc_getfl :: "int \<Rightarrow> 'k \<Rightarrow> u32"
  lc_setfl :: "int \<Rightarrow> u32 \<Rightarrow> 'k \<Rightarrow> u32 \<times> 'k"

definition flags_law :: "'k libc \<Rightarrow> int \<Rightarrow> bool" where
  "flags_law lc fd \<longleftrightarrow> (\<forall>arg k. fst (lc_setfl lc fd arg k) = 0 \<and>
     lc_getfl lc fd (snd (lc_setfl lc fd arg k)) AND O_NONBLOCK = arg AND O_NONBLOCK)"

section \<open>\<open>FdCtx\<close>\<close>

record fd_ctx =
  fx_isInit :: bool
  fx_isSocket :: bool
  fx_sysNonblock :: bool
  fx_userNonblock :: bool
  fx_isClosed :: bool
  fx_fd :: int
  fx_recvTimeout :: u64
  fx_sendTimeout :: u64

definition FdCtx_init :: "'k libc \<Rightarrow> 'k \<Rightarrow> fd_ctx \<Rightarrow> bool \<times> fd_ctx \<times> 'k" where
  "FdCtx_init lc k c =
     (if fx_isInit c then (True, c, k)
      else
        let c1 = c\<lparr>fx_recvTimeout := - 1, fx_sendTimeout := - 1\<rparr>;
            c2 = (case lc_fstat lc (fx_fd c) k of
                    None \<Rightarrow> c1\<lparr>fx_isInit := False, fx_isSocket := False\<rparr>
                  | Some sock \<Rightarrow> c1\<lparr>fx_isInit := True, fx_isSocket := sock\<rparr>);
            (c3, k1) =
              (if fx_isSocket c2 then
                 let flags = lc_getfl lc (fx_fd c) k;
                     k' = (if flags AND O_NONBLOCK = 0
                           then snd (lc_setfl lc (fx_fd c) (flags OR O_NONBLOCK) k) else k)
                 in (c2\<lparr>fx_sysNonblock := True\<rparr>, k')
               else (c2\<lparr>fx_sysNonblock := False\<rparr>, k));
            c4 = c3\<lparr>fx_userNonblock := False, fx_isClosed := False\<rparr>
        in (fx_isInit c4, c4, k1))"

definition FdCtx_new :: "'k libc \<Rightarrow> int \<Rightarrow> 'k \<Rightarrow> fd_ctx \<times> 'k" where
  "FdCtx_new lc fd k =
     snd (FdCtx_init lc k \<lparr>fx_isInit = False, fx_isSocket = False, fx_sysNonblock = False,
       fx_userNonblock = False, fx_isClosed = False, fx_fd = fd, fx_recvTimeout = - 1,
       fx_sendTimeout = - 1\<rparr>)"

definition FdCtx_setTimeout :: "int \<Rightarrow> u64 \<Rightarrow> fd_ctx \<Rightarrow> fd_ctx" where
  "FdCtx_setTimeout type v c =
     (if type = SO_RCVTIMEO then c\<lparr>fx_recvTimeout := v\<rparr> else c\<lparr>fx_sendTimeout := v\<rparr>)"

definition FdCtx_getTimeout :: "int \<Rightarrow> fd_ctx \<Rightarrow> u64" where
  "FdCtx_getTimeout type c = (if type = SO_RCVTIMEO then fx_recvTimeout c else fx_sendTimeout c)"

section \<open>\<open>FdManager\<close>\<close>

type_synonym fd_table = "fd_ctx option list"

definition FdManager_new :: fd_table where
  "FdManager_new = replicate 64 None"

definition vector_resize :: "nat \<Rightarrow> 'a \<Rightarrow> 'a list \<Rightarrow> 'a list" where
  "vector_resize n x xs = take n xs @ replicate (n - length xs) x"

text \<open>Indexing with a negative descriptor other than \<open>-1\<close>, and past the end, is undefined.\<close>

definition table_at :: "int \<Rightarrow> fd_table \<Rightarrow> fd_ctx option result" where
  "table_at fd ds =
     (if 0 \<le> fd \<and> nat fd < length ds then Inr (ds ! nat fd) else Inl (Undefined ''datas_[fd]''))"

definition FdManager_get :: "'k libc \<Rightarrow> int \<Rightarrow> bool \<Rightarrow> fd_table \<Rightarrow> 'k \<Rightarrow>
    (fd_ctx option \<times> fd_table \<times> 'k) result" where
  "FdManager_get lc fd auto_create ds k =
     (let create =
        (let (ctx, k1) = FdCtx_new lc fd k;
             ds1 = (if fd \<ge> int (length ds) then vector_resize (nat (fd * 3 div 2)) None ds else ds)
         in rbind (table_at fd ds1) (\<lambda>_. Inr (Some ctx, ds1[nat fd := Some ctx], k1)))
      in if fd = -1 then Inr (None, ds, k)
         else if int (length ds) \<le> fd then
           (if \<not> auto_create then Inr (None, ds, k) else create)
         else
           rbind (table_at fd ds) (\<lambda>d.
           if d \<noteq> None \<or> \<not> auto_create then Inr (d, ds, k) else create))"

definition FdManager_del :: "int \<Rightarrow> fd_table \<Rightarrow> fd_table result" where
  "FdManager_del fd ds =
     (if int (length ds) \<le> fd then Inr ds
      else rbind (table_at fd ds) (\<lambda>_. Inr (ds[nat fd := None])))"

section \<open>Lemmas\<close>

definition table_ok :: "fd_table \<Rightarrow> bool" where
  "table_ok ds \<longleftrightarrow> 64 \<le> length ds \<and>
     (\<forall>i < length ds. \<forall>c. ds ! i = Some c \<longrightarrow> fx_fd c = int i \<and> fx_sysNonblock c = fx_isSocket c)"

definition lookup_ctx :: "int \<Rightarrow> fd_table \<Rightarrow> fd_ctx option" where
  "lookup_ctx fd ds = (if 0 \<le> fd \<and> nat fd < length ds then ds ! nat fd else None)"

lemma FdCtx_new_fields:
  "fx_fd (fst (FdCtx_new lc fd k)) = fd"
  "fx_sysNonblock (fst (FdCtx_new lc fd k)) = fx_isSocket (fst (FdCtx_new lc fd k))"
  "fx_userNonblock (fst (FdCtx_new lc fd k)) = False"
  "FdCtx_getTimeout t (fst (FdCtx_new lc fd k)) = - 1"
  by (auto simp: FdCtx_new_def FdCtx_init_def FdCtx_getTimeout_def Let_def split: option.splits)

lemma FdManager_get_lookup:
  assumes "0 \<le> fd"
  shows "FdManager_get lc fd False ds k = Inr (lookup_ctx fd ds, ds, k)"
  using assms by (auto simp: FdManager_get_def Let_def lookup_ctx_def table_at_def)

lemma FdManager_get_create:
  assumes ok: "table_ok ds" and fd: "0 \<le> fd"
  shows "\<exists>c ds' k'. FdManager_get lc fd True ds k = Inr (Some c, ds', k') \<and> table_ok ds' \<and>
    lookup_ctx fd ds' = Some c \<and> (\<forall>fd'. fd' \<noteq> fd \<longrightarrow> lookup_ctx fd' ds' = lookup_ctx fd' ds) \<and>
    (\<forall>d. lookup_ctx fd ds = Some d \<longrightarrow> c = d \<and> ds' = ds \<and> k' = k)"
proof (cases "lookup_ctx fd ds")
  case (Some d)
  then show ?thesis
    using ok fd by (auto simp: FdManager_get_def Let_def lookup_ctx_def table_at_def split: if_splits)
next
  case None
  obtain c k1 where c: "FdCtx_new lc fd k = (c, k1)" by fastforce
  have cf: "fx_fd c = fd" "fx_sysNonblock c = fx_isSocket c"
    using FdCtx_new_fields(1) [where lc = lc and fd = fd and k = k] FdCtx_new_fields(2) [where lc = lc and fd = fd and k = k] c by simp_all
  define ds1 where "ds1 = (if fd \<ge> int (length ds) then vector_resize (nat (fd * 3 div 2)) None ds else ds)"
  have len: "64 \<le> length ds" using ok by (simp add: table_ok_def)
  then have "fd < fd * 3 div 2" if "fd \<ge> int (length ds)" using that by linarith
  then have in1: "nat fd < length ds1" "length ds \<le> length ds1"
    using fd len by (auto simp: vector_resize_def ds1_def)
  have nth: "ds1 ! i = (if i < length ds then ds ! i else None)" if "i < length ds1" for i
    using that by (auto simp: vector_resize_def nth_append ds1_def)
  have get: "FdManager_get lc fd True ds k = Inr (Some c, ds1[nat fd := Some c], k1)"
    using None fd in1(1) len by (auto simp: FdManager_get_def Let_def c table_at_def lookup_ctx_def ds1_def)
  have "table_ok (ds1[nat fd := Some c])"
    unfolding table_ok_def
  proof (intro conjI allI impI)
    show "64 \<le> length (ds1[nat fd := Some c])" using in1 len by simp
    fix i d
    assume i: "i < length (ds1[nat fd := Some c])" "ds1[nat fd := Some c] ! i = Some d"
    have "fx_fd d = int i \<and> fx_sysNonblock d = fx_isSocket d"
    proof (cases "i = nat fd")
      case True
      with i have "d = c" by simp
      then show ?thesis using True cf fd by simp
    next
      case False
      with i have "i < length ds \<and> ds ! i = Some d" using nth [of i] by (simp split: if_splits)
      then show ?thesis using ok unfolding table_ok_def by blast
    qed
    then show "fx_fd d = int i" "fx_sysNonblock d = fx_isSocket d" by blast+
  qed
  moreover have "lookup_ctx fd (ds1[nat fd := Some c]) = Some c"
    using fd in1(1) by (simp add: lookup_ctx_def)
  moreover have "lookup_ctx fd' (ds1[nat fd := Some c]) = lookup_ctx fd' ds" if "fd' \<noteq> fd" for fd'
    using that fd in1 nth by (auto simp: lookup_ctx_def nth_list_update)
  ultimately show ?thesis using get None by auto
qed

lemma FdManager_del_lookup:
  assumes "0 \<le> fd"
  shows "\<exists>ds'. FdManager_del fd ds = Inr ds' \<and>
    (\<forall>fd'. lookup_ctx fd' ds' = (if fd' = fd then None else lookup_ctx fd' ds)) \<and> (table_ok ds \<longrightarrow> table_ok ds')"
  using assms
  by (auto simp: FdManager_del_def table_at_def lookup_ctx_def table_ok_def nth_list_update)

text \<open>Only \<open>get\<close> tests for \<open>-1\<close>; \<open>del\<close> indexes the table with every negative descriptor.\<close>

lemma FdManager_del_negative:
  "fd < 0 \<Longrightarrow> FdManager_del fd ds = Inl (Undefined ''datas_[fd]'')"
  by (simp add: FdManager_del_def table_at_def)

end
