(* ===== verification/Hook.thy ===== *)
theory Hook
  imports IOManager FdManager
begin

text \<open>
  The system call hooks (\<open>sylar/hook.cpp\<close>): blocking calls on sockets suspend the calling
  fiber instead of the thread, the sleeps become timers, and \<open>fcntl\<close>, \<open>ioctl\<close> and \<open>setsockopt\<close>
  keep apart what the user asked for and what the library needs.

  The original functions (\<open>read_f\<close>, \<open>connect_f\<close>, ...) are outside of the sources: what they
  return and the \<open>errno\<close> they leave are arguments. A hooked call is split at \<open>YieldToHold\<close>: the
  part up to it returns \<open>Waiting\<close>, and the part after it starts from the state of the event loop
  when the fiber is resumed and from \<open>tinfo->cancelled\<close>.
\<close>

section \<open>Constants\<close>

abbreviation EINTR :: int where "EINTR \<equiv> 4"
abbreviation EBADF :: int where "EBADF \<equiv> 9"
abbreviation EAGAIN :: int where "EAGAIN \<equiv> 11"
abbreviation ETIMEDOUT :: int where "ETIMEDOUT \<equiv> 110"
abbreviation EINPROGRESS :: int where "EINPROGRESS \<equiv> 115"
definition SOL_SOCKET :: int where "SOL_SOCKET = 1"

section \<open>Timers of the event loop\<close>

text \<open>\<open>TimerManager::addTimer\<close> calls the virtual \<open>onTimerInsertedAtFront\<close>, which is that of the
  event loop. \<open>a\<close> is the address of the new timer.\<close>

definition io_addTimer :: "u64 \<Rightarrow> nat \<Rightarrow> u64 \<Rightarrow> closure \<Rightarrow> iomanager \<Rightarrow> iomanager" where
  "io_addTimer now a ms cb io =
     (let (front, m) = TimerManager_addTimer now a ms (Some cb) False (io_timers io);
          io1 = io\<lparr>io_timers := m\<rparr>
      in if front then IOManager_onTimerInsertedAtFront io1 else io1)"

definition io_addConditionTimer :: "u64 \<Rightarrow> nat \<Rightarrow> u64 \<Rightarrow> closure \<Rightarrow> nat \<Rightarrow> iomanager \<Rightarrow> iomanager" where
  "io_addConditionTimer now a ms cb weak_cond io =
     (let (front, m) = TimerManager_addConditionTimer now a ms cb weak_cond False (io_timers io);
          io1 = io\<lparr>io_timers := m\<rparr>
      in if front then IOManager_onTimerInsertedAtFront io1 else io1)"

definition cancel_timer :: "nat option \<Rightarrow> iomanager \<Rightarrow> iomanager result" where
  "cancel_timer timer io =
     (case timer of
        None \<Rightarrow> Inr io
      | Some a \<Rightarrow> rbind (Timer_cancel a (io_timers io)) (\<lambda>(b, m). Inr (io\<lparr>io_timers := m\<rparr>)))"

section \<open>\<open>do_io\<close>\<close>

text \<open>The tests before the first call: pass the call through, fail, or manage it with a timeout.\<close>

datatype io_mode = Passthrough | BadFd | Managed u64

definition do_io_check :: "bool \<Rightarrow> 'k libc \<Rightarrow> int \<Rightarrow> int \<Rightarrow> fd_table \<Rightarrow> 'k \<Rightarrow> io_mode result" where
  "do_io_check hook_enable lc fd timeout_so ds k =
     (if \<not> hook_enable then Inr Passthrough
      else rbind (FdManager_get lc fd False ds k) (\<lambda>(ctx, ds1, k1).
        Inr (case ctx of
               None \<Rightarrow> Passthrough
             | Some c \<Rightarrow>
                 if fx_isClosed c then BadFd
                 else if \<not> fx_isSocket c \<or> fx_userNonblock c then Passthrough
                 else Managed (FdCtx_getTimeout timeout_so c))))"

text \<open>The inner loop: the original function is called again while it is interrupted. The list
  has the results \<open>(n, errno)\<close> of the calls; \<open>None\<close> when it has no other than interruptions.\<close>

fun attempt :: "(int \<times> int) list \<Rightarrow> (int \<times> int) option" where
  "attempt [] = None"
| "attempt ((n, e) # rs) = (if n = -1 \<and> e = EINTR then attempt rs else Some (n, e))"

text \<open>The closure of the timer, run for the event loop \<open>io\<close>: \<open>alive\<close> says whether \<open>winfo.lock()\<close>
  finds the object, whose \<open>cancelled\<close> it reads and sets.\<close>

definition timeout_cb :: "(ctl_op \<Rightarrow> int \<Rightarrow> bool) \<Rightarrow> bool \<Rightarrow> int \<Rightarrow> int \<Rightarrow> u32 \<Rightarrow> iomanager \<Rightarrow>
    (int \<times> iomanager) result" where
  "timeout_cb fault alive cancelled fd event io =
     (if \<not> alive \<or> cancelled \<noteq> 0 then Inr (cancelled, io)
      else rbind (IOManager_cancelEvent fault fd event io) (\<lambda>(b, io1). Inr (ETIMEDOUT, io1)))"

datatype wait_start = WaitFailed iomanager | Waiting "nat option" iomanager

definition io_wait :: "(ctl_op \<Rightarrow> int \<Rightarrow> bool) \<Rightarrow> u64 \<Rightarrow> nat \<Rightarrow> nat \<Rightarrow> nat \<times> fiber_state \<Rightarrow> int \<Rightarrow> u32 \<Rightarrow> u64 \<Rightarrow>
    iomanager \<Rightarrow> wait_start result" where
  "io_wait fault now a winfo this_fiber fd event timeout io =
     (let (timer, io1) =
        (if timeout \<noteq> - 1
         then (Some a, io_addConditionTimer now a timeout (TimeoutCancel winfo fd event) winfo io)
         else (None, io))
      in rbind (IOManager_addEvent fault (Some (io_this io1)) this_fiber fd event None io1) (\<lambda>(rt, io2).
         if rt \<noteq> 0 then rbind (cancel_timer timer io2) (\<lambda>io3. Inr (WaitFailed io3))
         else Inr (Waiting timer io2)))"

text \<open>After the fiber is resumed: \<open>None\<close> is the jump to \<open>retry\<close>, else the value returned and
  \<open>errno\<close>.\<close>

definition io_resume :: "nat option \<Rightarrow> int \<Rightarrow> iomanager \<Rightarrow> ((int \<times> int) option \<times> iomanager) result" where
  "io_resume timer cancelled io =
     rbind (cancel_timer timer io) (\<lambda>io1.
     Inr (if cancelled \<noteq> 0 then Some (-1, cancelled) else None, io1))"

text \<open>
  The whole call for a managed descriptor, along a script with one entry for every round: the
  results of the original function, the time and the address for the timer, and the state of the
  event loop and the value of \<open>cancelled\<close> at the time the fiber is resumed. \<open>Blocked\<close> means that
  the fiber is still waiting when the script ends.
\<close>

record io_round =
  rd_attempts :: "(int \<times> int) list"
  rd_now :: u64
  rd_timer :: nat
  rd_woken :: iomanager
  rd_cancelled :: int

datatype io_end = Returned int int iomanager | Blocked iomanager | Interrupted iomanager

fun do_io_loop :: "(ctl_op \<Rightarrow> int \<Rightarrow> bool) \<Rightarrow> nat \<Rightarrow> nat \<times> fiber_state \<Rightarrow> int \<Rightarrow> u32 \<Rightarrow> u64 \<Rightarrow>
    io_round list \<Rightarrow> iomanager \<Rightarrow> io_end result" where
  "do_io_loop fault winfo this_fiber fd event timeout [] io = Inr (Blocked io)"
| "do_io_loop fault winfo this_fiber fd event timeout (r # rs) io =
     (case attempt (rd_attempts r) of
        None \<Rightarrow> Inr (Interrupted io)
      | Some (n, e) \<Rightarrow>
          if \<not> (n = -1 \<and> e = EAGAIN) then Inr (Returned n e io)
          else
            rbind (io_wait fault (rd_now r) (rd_timer r) winfo this_fiber fd event timeout io) (\<lambda>w.
            case w of
              WaitFailed io1 \<Rightarrow> Inr (Returned (-1) e io1)
            | Waiting timer io1 \<Rightarrow>
                rbind (io_resume timer (rd_cancelled r) (rd_woken r)) (\<lambda>(ret, io2).
                case ret of
                  Some (n', e') \<Rightarrow> Inr (Returned n' e' io2)
                | None \<Rightarrow> do_io_loop fault winfo this_fiber fd event timeout rs io2)))"

definition do_io :: "bool \<Rightarrow> 'k libc \<Rightarrow> (ctl_op \<Rightarrow> int \<Rightarrow> bool) \<Rightarrow> nat \<Rightarrow> nat \<times> fiber_state \<Rightarrow> int \<Rightarrow> u32 \<Rightarrow>
    int \<Rightarrow> int \<times> int \<Rightarrow> io_round list \<Rightarrow> fd_table \<Rightarrow> 'k \<Rightarrow> iomanager \<Rightarrow> io_end result" where
  "do_io hook_enable lc fault winfo this_fiber fd event timeout_so direct script ds k io =
     rbind (do_io_check hook_enable lc fd timeout_so ds k) (\<lambda>mode.
     case mode of
       Passthrough \<Rightarrow> Inr (Returned (fst direct) (snd direct) io)
     | BadFd \<Rightarrow> Inr (Returned (-1) EBADF io)
     | Managed timeout \<Rightarrow> do_io_loop fault winfo this_fiber fd event timeout script io)"

text \<open>The hooked functions differ in the event and the timeout option they pass to \<open>do_io\<close>.\<close>

datatype io_fun = Fn_accept | Fn_read | Fn_readv | Fn_recv | Fn_recvfrom | Fn_recvmsg
  | Fn_write | Fn_writev | Fn_send | Fn_sendto | Fn_sendmsg

definition io_fun_event :: "io_fun \<Rightarrow> u32 \<times> int" where
  "io_fun_event f =
     (case f of
        Fn_accept \<Rightarrow> (READ, SO_RCVTIMEO) | Fn_read \<Rightarrow> (READ, SO_RCVTIMEO)
      | Fn_readv \<Rightarrow> (READ, SO_RCVTIMEO) | Fn_recv \<Rightarrow> (READ, SO_RCVTIMEO)
      | Fn_recvfrom \<Rightarrow> (READ, SO_RCVTIMEO) | Fn_recvmsg \<Rightarrow> (READ, SO_RCVTIMEO)
      | Fn_write \<Rightarrow> (WRITE, SO_SNDTIMEO) | Fn_writev \<Rightarrow> (WRITE, SO_SNDTIMEO)
      | Fn_send \<Rightarrow> (WRITE, SO_SNDTIMEO) | Fn_sendto \<Rightarrow> (WRITE, SO_SNDTIMEO)
      | Fn_sendmsg \<Rightarrow> (WRITE, SO_SNDTIMEO))"

definition hook_io :: "io_fun \<Rightarrow> bool \<Rightarrow> 'k libc \<Rightarrow> (ctl_op \<Rightarrow> int \<Rightarrow> bool) \<Rightarrow> nat \<Rightarrow> nat \<times> fiber_state \<Rightarrow> int \<Rightarrow>
    int \<times> int \<Rightarrow> io_round list \<Rightarrow> fd_table \<Rightarrow> 'k \<Rightarrow> iomanager \<Rightarrow> io_end result" where
  "hook_io f hook_enable lc fault winfo this_fiber fd =
     do_io hook_enable lc fault winfo this_fiber fd (fst (io_fun_event f)) (snd (io_fun_event f))"

text \<open>\<open>accept\<close> registers the new descriptor.\<close>

definition accept_done :: "'k libc \<Rightarrow> int \<Rightarrow> fd_table \<Rightarrow> 'k \<Rightarrow> (int \<times> fd_table \<times> 'k) result" where
  "accept_done lc fd ds k =
     (if fd \<ge> 0 then rbind (FdManager_get lc fd True ds k) (\<lambda>(ctx, ds1, k1). Inr (fd, ds1, k1))
      else Inr (fd, ds, k))"

section \<open>Sleeping\<close>

text \<open>The arguments of \<open>addTimer\<close>: \<open>seconds * 1000\<close> is computed in \<open>unsigned int\<close>, and \<open>nanosleep\<close>
  narrows its sum to \<open>int\<close> before it is converted to \<open>uint64_t\<close>.\<close>

definition sleep_ms :: "u32 \<Rightarrow> u64" where
  "sleep_ms seconds = ucast (seconds * 1000)"

definition usleep_ms :: "u32 \<Rightarrow> u64" where
  "usleep_ms usec = ucast (usec div 1000)"

definition nanosleep_ms :: "int \<Rightarrow> int \<Rightarrow> u64" where
  "nanosleep_ms tv_sec tv_nsec = scast (word_of_int (tv_sec * 1000 + c_div (c_div tv_nsec 1000) 1000) :: u32)"

text \<open>The sleep itself: a timer that schedules the fiber, which then yields.\<close>

definition hook_sleep :: "u64 \<Rightarrow> nat \<Rightarrow> nat \<Rightarrow> u64 \<Rightarrow> iomanager \<Rightarrow> iomanager" where
  "hook_sleep now a fiber ms io = io_addTimer now a ms (ScheduleFiber fiber (-1)) io"

section \<open>Sockets\<close>

definition hook_socket :: "bool \<Rightarrow> 'k libc \<Rightarrow> int \<Rightarrow> fd_table \<Rightarrow> 'k \<Rightarrow> (int \<times> fd_table \<times> 'k) result" where
  "hook_socket hook_enable lc fd ds k =
     (if \<not> hook_enable then Inr (fd, ds, k)
      else if fd = -1 then Inr (fd, ds, k)
      else rbind (FdManager_get lc fd True ds k) (\<lambda>(ctx, ds1, k1). Inr (fd, ds1, k1)))"

text \<open>\<open>connect_with_timeout\<close>: \<open>direct\<close> is the result of \<open>connect_f\<close>, \<open>so_error\<close> that of
  \<open>getsockopt\<close> for \<open>SO_ERROR\<close> (\<open>None\<close> when it fails, with \<open>errno\<close> left as it is).\<close>

datatype connect_start = ConnDone int int | ConnCheck iomanager | ConnWaiting "nat option" iomanager

definition connect_begin :: "bool \<Rightarrow> 'k libc \<Rightarrow> (ctl_op \<Rightarrow> int \<Rightarrow> bool) \<Rightarrow> u64 \<Rightarrow> nat \<Rightarrow> nat \<Rightarrow> nat \<times> fiber_state \<Rightarrow>
    int \<Rightarrow> u64 \<Rightarrow> int \<times> int \<Rightarrow> fd_table \<Rightarrow> 'k \<Rightarrow> iomanager \<Rightarrow> connect_start result" where
  "connect_begin hook_enable lc fault now a winfo this_fiber fd timeout_ms direct ds k io =
     (if \<not> hook_enable then Inr (ConnDone (fst direct) (snd direct))
      else rbind (FdManager_get lc fd False ds k) (\<lambda>(ctx, ds1, k1).
        case ctx of
          None \<Rightarrow> Inr (ConnDone (-1) EBADF)
        | Some c \<Rightarrow>
            if fx_isClosed c then Inr (ConnDone (-1) EBADF)
            else if \<not> fx_isSocket c then Inr (ConnDone (fst direct) (snd direct))
            else if fx_userNonblock c then Inr (ConnDone (fst direct) (snd direct))
            else if fst direct = 0 then Inr (ConnDone 0 (snd direct))
            else if fst direct \<noteq> -1 \<or> snd direct \<noteq> EINPROGRESS
            then Inr (ConnDone (fst direct) (snd direct))
            else rbind (io_wait fault now a winfo this_fiber fd WRITE timeout_ms io) (\<lambda>w.
              Inr (case w of WaitFailed io1 \<Rightarrow> ConnCheck io1 | Waiting timer io1 \<Rightarrow> ConnWaiting timer io1))))"

text \<open>\<open>connect\<close> passes \<open>s_connect_timeout\<close>, the configured \<open>int\<close> converted to \<open>uint64_t\<close>.\<close>

definition connect_timeout_of :: "u32 \<Rightarrow> u64" where
  "connect_timeout_of v = scast v"

definition connect_check :: "int \<Rightarrow> int option \<Rightarrow> int \<times> int" where
  "connect_check e so_error =
     (case so_error of None \<Rightarrow> (-1, e) | Some error \<Rightarrow> if error = 0 then (0, e) else (-1, error))"

definition connect_resume :: "nat option \<Rightarrow> int \<Rightarrow> int option \<Rightarrow> iomanager \<Rightarrow> (int \<times> int \<times> iomanager) result" where
  "connect_resume timer cancelled so_error io =
     rbind (io_resume timer cancelled io) (\<lambda>(ret, io1).
     Inr (case ret of
            Some (n, e) \<Rightarrow> (n, e, io1)
          | None \<Rightarrow> (fst (connect_check EINPROGRESS so_error), snd (connect_check EINPROGRESS so_error), io1)))"

definition hook_close :: "bool \<Rightarrow> 'k libc \<Rightarrow> (ctl_op \<Rightarrow> int \<Rightarrow> bool) \<Rightarrow> int \<Rightarrow> fd_table \<Rightarrow> 'k \<Rightarrow> iomanager option \<Rightarrow>
    (fd_table \<times> iomanager option) result" where
  "hook_close hook_enable lc fault fd ds k iom =
     (if \<not> hook_enable then Inr (ds, iom)
      else rbind (FdManager_get lc fd False ds k) (\<lambda>(ctx, ds1, k1).
        if ctx = None then Inr (ds1, iom)
        else
          rbind (case iom of
                   None \<Rightarrow> Inr None
                 | Some io \<Rightarrow> rbind (IOManager_cancelAll fault fd io) (\<lambda>(b, io1). Inr (Some io1))) (\<lambda>iom1.
          rbind (FdManager_del fd ds1) (\<lambda>ds2. Inr (ds2, iom1)))))"

section \<open>\<open>fcntl\<close>, \<open>ioctl\<close> and \<open>setsockopt\<close>\<close>

definition set_ctx :: "int \<Rightarrow> fd_ctx \<Rightarrow> fd_table \<Rightarrow> fd_table" where
  "set_ctx fd c ds = ds[nat fd := Some c]"

definition plain_fd :: "fd_ctx option \<Rightarrow> bool" where
  "plain_fd ctx \<longleftrightarrow> (case ctx of None \<Rightarrow> True | Some c \<Rightarrow> fx_isClosed c \<or> \<not> fx_isSocket c)"

definition hook_fcntl_setfl :: "'k libc \<Rightarrow> int \<Rightarrow> u32 \<Rightarrow> fd_table \<Rightarrow> 'k \<Rightarrow> (u32 \<times> fd_table \<times> 'k) result" where
  "hook_fcntl_setfl lc fd arg ds k =
     rbind (FdManager_get lc fd False ds k) (\<lambda>(ctx, ds1, k1).
     if plain_fd ctx then
       (let (rt, k2) = lc_setfl lc fd arg k1 in Inr (rt, ds1, k2))
     else
       let c = (the ctx)\<lparr>fx_userNonblock := (arg AND O_NONBLOCK \<noteq> 0)\<rparr>;
           arg1 = (if fx_sysNonblock c then arg OR O_NONBLOCK else arg AND NOT O_NONBLOCK);
           (rt, k2) = lc_setfl lc fd arg1 k1
       in Inr (rt, set_ctx fd c ds1, k2))"

definition hook_fcntl_getfl :: "'k libc \<Rightarrow> int \<Rightarrow> fd_table \<Rightarrow> 'k \<Rightarrow> u32 result" where
  "hook_fcntl_getfl lc fd ds k =
     (let arg = lc_getfl lc fd k in
      rbind (FdManager_get lc fd False ds k) (\<lambda>(ctx, ds1, k1).
      Inr (if plain_fd ctx then arg
           else if fx_userNonblock (the ctx) then arg OR O_NONBLOCK else arg AND NOT O_NONBLOCK)))"

text \<open>The dispatch on the command, by the numbers of \<open>fcntl.h\<close>: which handler runs, and with which type
  of argument the original function is called. \<open>orig\<close> is that call.\<close>

datatype fcntl_route = SetFl | GetFl | PassInt | PassNone | PassFlock | PassOwner

definition fcntl_route_of :: "int \<Rightarrow> fcntl_route" where
  "fcntl_route_of cmd =
     (if cmd = 4 then SetFl else if cmd = 3 then GetFl
      else if cmd \<in> {0, 1030, 2, 8, 10, 1024, 1026, 1031} then PassInt
      else if cmd \<in> {1, 9, 11, 1025, 1032} then PassNone
      else if cmd \<in> {6, 7, 5} then PassFlock
      else if cmd \<in> {16, 15} then PassOwner
      else PassNone)"

definition hook_fcntl :: "(int \<Rightarrow> fcntl_route \<Rightarrow> u64 \<Rightarrow> 'k \<Rightarrow> u32 \<times> 'k) \<Rightarrow> 'k libc \<Rightarrow> int \<Rightarrow> int \<Rightarrow> u64 \<Rightarrow> fd_table \<Rightarrow> 'k \<Rightarrow>
    (u32 \<times> fd_table \<times> 'k) result" where
  "hook_fcntl orig lc fd cmd arg ds k =
     (case fcntl_route_of cmd of
        SetFl \<Rightarrow> hook_fcntl_setfl lc fd (ucast arg) ds k
      | GetFl \<Rightarrow> rbind (hook_fcntl_getfl lc fd ds k) (\<lambda>r. Inr (r, ds, k))
      | PassNone \<Rightarrow> (let (rt, k1) = orig cmd PassNone 0 k in Inr (rt, ds, k1))
      | r \<Rightarrow> (let (rt, k1) = orig cmd r arg k in Inr (rt, ds, k1)))"

text \<open>\<open>ioctl\<close> with \<open>FIONBIO\<close>: \<open>lc_nbio\<close> is the original call, which sets or clears \<open>O_NONBLOCK\<close>.\<close>

definition hook_ioctl_fionbio :: "(int \<Rightarrow> bool \<Rightarrow> 'k \<Rightarrow> int \<times> 'k) \<Rightarrow> 'k libc \<Rightarrow> int \<Rightarrow> bool \<Rightarrow> fd_table \<Rightarrow> 'k \<Rightarrow>
    (int \<times> fd_table \<times> 'k) result" where
  "hook_ioctl_fionbio nbio lc d user_nonblock ds k =
     rbind (FdManager_get lc d False ds k) (\<lambda>(ctx, ds1, k1).
     let ds2 = (if plain_fd ctx then ds1 else set_ctx d ((the ctx)\<lparr>fx_userNonblock := user_nonblock\<rparr>) ds1);
         (rt, k2) = nbio d user_nonblock k1
     in Inr (rt, ds2, k2))"

text \<open>\<open>setsockopt\<close>: the part that records a timeout given as a \<open>timeval\<close>.\<close>

definition timeval_ms :: "int \<Rightarrow> int \<Rightarrow> u64" where
  "timeval_ms tv_sec tv_usec = word_of_int (tv_sec * 1000 + c_div tv_usec 1000)"

definition hook_setsockopt :: "bool \<Rightarrow> 'k libc \<Rightarrow> int \<Rightarrow> int \<Rightarrow> int \<Rightarrow> int \<times> int \<Rightarrow> fd_table \<Rightarrow> 'k \<Rightarrow> fd_table result" where
  "hook_setsockopt hook_enable lc sockfd level optname tv ds k =
     (if \<not> hook_enable then Inr ds
      else if level = SOL_SOCKET \<and> (optname = SO_RCVTIMEO \<or> optname = SO_SNDTIMEO) then
        rbind (FdManager_get lc sockfd False ds k) (\<lambda>(ctx, ds1, k1).
        Inr (case ctx of
               None \<Rightarrow> ds1
             | Some c \<Rightarrow> set_ctx sockfd (FdCtx_setTimeout optname (timeval_ms (fst tv) (snd tv)) c) ds1))
      else Inr ds)"

section \<open>Lemmas\<close>

lemma io_addConditionTimer_fields [simp]:
  "io_contexts (io_addConditionTimer now a ms cb wc io) = io_contexts io"
  "io_epoll (io_addConditionTimer now a ms cb wc io) = io_epoll io"
  "io_pending (io_addConditionTimer now a ms cb wc io) = io_pending io"
  "io_this (io_addConditionTimer now a ms cb wc io) = io_this io"
  "io_sched (io_addConditionTimer now a ms cb wc io) = io_sched io"
  "io_timers (io_addConditionTimer now a ms cb wc io) =
     snd (TimerManager_addTimer now a ms (Some (OnTimer wc cb)) False (io_timers io))"
  by (auto simp: io_addConditionTimer_def IOManager_onTimerInsertedAtFront_def IOManager_tickle_def
      TimerManager_addConditionTimer_def Let_def split: prod.splits)

lemma io_inv_timers:
  "io_inv io \<Longrightarrow> io_contexts io' = io_contexts io \<Longrightarrow> io_epoll io' = io_epoll io \<Longrightarrow>
    io_pending io' = io_pending io \<Longrightarrow> io_inv io'"
  by (simp add: io_inv_def total_events_def)

text \<open>The state in which a hooked call with a timeout registers its event.\<close>

definition timed :: "u64 \<Rightarrow> nat \<Rightarrow> nat \<Rightarrow> int \<Rightarrow> u32 \<Rightarrow> u64 \<Rightarrow> iomanager \<Rightarrow> iomanager" where
  "timed now a winfo fd event timeout io =
     (if timeout \<noteq> - 1 then io_addConditionTimer now a timeout (TimeoutCancel winfo fd event) winfo io else io)"

lemma timed_fields [simp]:
  "io_contexts (timed now a winfo fd event timeout io) = io_contexts io"
  "io_epoll (timed now a winfo fd event timeout io) = io_epoll io"
  "io_pending (timed now a winfo fd event timeout io) = io_pending io"
  "io_this (timed now a winfo fd event timeout io) = io_this io"
  by (simp_all add: timed_def)

lemma io_wait_Waiting:
  assumes "io_wait fault now a winfo tf fd event timeout io = Inr (Waiting timer io1)"
  shows "timer = (if timeout \<noteq> - 1 then Some a else None)"
    and "IOManager_addEvent fault (Some (io_this io)) tf fd event None
      (timed now a winfo fd event timeout io) = Inr (0, io1)"
  using assms by (auto simp: io_wait_def timed_def result_simps split: if_splits prod.splits)

lemma attempt_not_eintr: "attempt rs = Some (n, e) \<Longrightarrow> \<not> (n = -1 \<and> e = EINTR)"
  by (induction rs rule: attempt.induct) (auto split: if_splits)

lemma io_schedule_queue:
  "sc_fibers (io_sched (io_schedule (io_this io) t io)) =
     (if task_null t then sc_fibers (io_sched io) else sc_fibers (io_sched io) @ [t])"
  by (simp add: io_schedule_def scheduleNoLock_def IOManager_tickle_def Let_def)

lemma addEvent_context_fields [simp]:
  "io_this (addEvent_context fd io) = io_this io" "io_sched (addEvent_context fd io) = io_sched io"
  "io_timers (addEvent_context fd io) = io_timers io" "io_pending (addEvent_context fd io) = io_pending io"
  "io_epoll (addEvent_context fd io) = io_epoll io"
  by (simp_all add: addEvent_context_def contextResize_def Let_def)

lemma io_schedule_timers [simp]: "io_timers (io_schedule sid t io) = io_timers io"
  by (simp add: io_schedule_def IOManager_tickle_def Let_def split: prod.splits)

section \<open>Properties\<close>


lemma sample_wait:
  "\<exists>io1. io_wait no_fault 1000 50 1 (7, EXEC) 5 READ 200 sample_io0 = Inr (Waiting (Some 50) io1)"
proof -
  let ?io = "timed 1000 50 1 5 READ 200 sample_io0"
  have inv: "io_inv ?io"
    using io_reachable_inv [OF sample_io0_reachable] by (rule io_inv_timers) simp_all
  have "addEvent_context 5 ?io = ?io"
    by (simp add: addEvent_context_def) (simp add: sample_io0_def contextResize_def Let_def)
  then have c: "context_at 5 (addEvent_context 5 ?io) = Inr (FdContext_new 5)"
    using sample_contexts [of 5] by (simp add: context_at_def split: if_splits)
  show ?thesis
    using addEvent_cases [OF inv _ _ c, of READ EXEC None no_fault "Some (io_this sample_io0)" 7]
    by (simp add: io_wait_def FdContext_new_def no_fault_def timed_def)
qed




lemma nonblock_bits:
  fixes x :: u32
  shows "(x OR O_NONBLOCK) AND O_NONBLOCK = O_NONBLOCK" "(x AND NOT O_NONBLOCK) AND O_NONBLOCK = 0"
    and "x AND O_NONBLOCK = 0 \<or> x AND O_NONBLOCK = O_NONBLOCK"
proof -
  show "(x OR O_NONBLOCK) AND O_NONBLOCK = O_NONBLOCK" by (simp add: bit_eq_iff bit_simps)
  show "(x AND NOT O_NONBLOCK) AND O_NONBLOCK = 0" by (simp add: and.assoc)
  have "x AND push_bit 11 1 = 0 \<or> x AND push_bit 11 1 = push_bit 11 1"
    by (cases "bit x 11")
      (auto simp add: bit_eq_iff [where ?'a = u32] bit_and_iff bit_push_bit_iff bit_1_iff simp del: push_bit_of_1)
  then show "x AND O_NONBLOCK = 0 \<or> x AND O_NONBLOCK = O_NONBLOCK" by simp
qed

text \<open>C21. \<open>fcntl\<close> keeps up two views of a managed socket: after \<open>F_SETFL\<close> the user reads back with
  \<open>F_GETFL\<close> the blocking mode set last, while the kernel's descriptor stays non-blocking.\<close>

theorem fcntl_two_views:
  assumes "table_ok ds" and "lookup_ctx fd ds = Some c" and "fx_isSocket c" and "\<not> fx_isClosed c"
    and "flags_law lc fd"
  shows "\<exists>ds' k' r. hook_fcntl_setfl lc fd arg ds k = Inr (0, ds', k') \<and> table_ok ds' \<and>
    hook_fcntl_getfl lc fd ds' k' = Inr r \<and> r AND O_NONBLOCK = arg AND O_NONBLOCK \<and>
    lc_getfl lc fd k' AND O_NONBLOCK = O_NONBLOCK"
proof -
  have fd: "0 \<le> fd" "nat fd < length ds" "ds ! nat fd = Some c"
    using assms(2) by (auto simp: lookup_ctx_def split: if_splits)
  have sys: "fx_sysNonblock c" "fx_fd c = fd" using assms(1,3) fd by (auto simp: table_ok_def)
  let ?c = "c\<lparr>fx_userNonblock := (arg AND O_NONBLOCK \<noteq> 0)\<rparr>"
  let ?ds = "ds[nat fd := Some ?c]"
  obtain k' where k': "lc_setfl lc fd (arg OR O_NONBLOCK) k = (0, k')"
    "lc_getfl lc fd k' AND O_NONBLOCK = (arg OR O_NONBLOCK) AND O_NONBLOCK"
    using assms(5) unfolding flags_law_def by (metis prod.collapse)
  have set: "hook_fcntl_setfl lc fd arg ds k = Inr (0, ?ds, k')"
    using assms(3,4) sys k'(1)
    by (simp add: hook_fcntl_setfl_def FdManager_get_lookup [OF fd(1)] assms(2) plain_fd_def set_ctx_def)
  have "table_ok ?ds" using assms(1) fd sys assms(3) by (auto simp: table_ok_def nth_list_update)
  moreover have "lookup_ctx fd ?ds = Some ?c" using fd by (simp add: lookup_ctx_def)
  moreover have "lc_getfl lc fd k' AND O_NONBLOCK = O_NONBLOCK" using k'(2) nonblock_bits(1) by simp
  moreover have "(if arg AND O_NONBLOCK \<noteq> 0 then x OR O_NONBLOCK else x AND NOT O_NONBLOCK) AND O_NONBLOCK =
      arg AND O_NONBLOCK" for x
    using nonblock_bits(3) [of arg] by (simp only: nonblock_bits(1,2) if_distrib [of "\<lambda>x. x AND O_NONBLOCK"]) auto
  ultimately show ?thesis
    using set assms(3,4)
    by (simp add: hook_fcntl_getfl_def FdManager_get_lookup [OF fd(1)] plain_fd_def Let_def del: disj_comms)
qed

text \<open>A kernel that stores the flags of each descriptor.\<close>

definition sample_libc :: "(int \<Rightarrow> u32) libc" where
  "sample_libc = \<lparr>lc_fstat = (\<lambda>fd k. Some True), lc_getfl = (\<lambda>fd k. k fd),
     lc_setfl = (\<lambda>fd v k. (0, k(fd := v)))\<rparr>"

definition sample_ctx :: fd_ctx where
  "sample_ctx = fst (FdCtx_new sample_libc 5 (\<lambda>_. 2))"

definition sample_fds :: fd_table where
  "sample_fds = FdManager_new[5 := Some sample_ctx]"

lemma sample_fds_ok:
  "table_ok sample_fds" "lookup_ctx 5 sample_fds = Some sample_ctx" "fx_isSocket sample_ctx"
  "\<not> fx_isClosed sample_ctx" "flags_law sample_libc 5"
  by (auto simp: table_ok_def sample_fds_def FdManager_new_def lookup_ctx_def sample_ctx_def FdCtx_new_def
      FdCtx_init_def sample_libc_def flags_law_def Let_def nth_list_update split: if_splits)

theorem fcntl_two_views_witness:
  "\<exists>ds' k' r. hook_fcntl_setfl sample_libc 5 2 sample_fds (\<lambda>_. 2) = Inr (0, ds', k') \<and> table_ok ds' \<and>
    hook_fcntl_getfl sample_libc 5 ds' k' = Inr r \<and> r AND O_NONBLOCK = 2 AND O_NONBLOCK \<and>
    lc_getfl sample_libc 5 k' AND O_NONBLOCK = O_NONBLOCK"
  by (rule fcntl_two_views [OF sample_fds_ok])

text \<open>Commands that the switch does not list lose their argument, among them \<open>F_OFD_SETLK\<close> (37) and
  \<open>F_ADD_SEALS\<close> (1033).\<close>

lemma fcntl_drops_argument:
  assumes "cmd \<in> {37, 1033}"
  shows "hook_fcntl orig lc fd cmd arg ds k = hook_fcntl orig lc fd cmd arg' ds k"
  using assms by (auto simp: hook_fcntl_def fcntl_route_of_def)

text \<open>\<open>ioctl\<close> does not keep the views apart: \<open>FIONBIO\<close> with 0 reaches the kernel, whose descriptor is
  then blocking although \<open>sysNonblock_\<close> still says otherwise.\<close>

lemma ioctl_clears_nonblock:
  assumes "lookup_ctx d ds = Some c" and "fx_isSocket c" and "\<not> fx_isClosed c" and "fx_sysNonblock c"
    and "\<And>k. lc_getfl lc d (snd (nbio d False k)) AND O_NONBLOCK = 0"
  shows "\<exists>rt ds' k' c'. hook_ioctl_fionbio nbio lc d False ds k = Inr (rt, ds', k') \<and>
    lookup_ctx d ds' = Some c' \<and> fx_sysNonblock c' \<and> lc_getfl lc d k' AND O_NONBLOCK = 0"
proof -
  have d: "0 \<le> d" "nat d < length ds" using assms(1) by (auto simp: lookup_ctx_def split: if_splits)
  have set: "lookup_ctx d (set_ctx d c' ds) = Some c'" for c'
    using d by (simp add: set_ctx_def lookup_ctx_def)
  show ?thesis
    using assms(2-4) assms(5) [of k] d set
    by (cases "nbio d False k") (auto simp: hook_ioctl_fionbio_def FdManager_get_lookup assms(1) plain_fd_def)
qed

lemma scast_small:
  assumes "0 \<le> n" and "n < 2 ^ 31"
  shows "unat (scast (word_of_int n :: u32) :: u64) = nat n"
proof -
  have "signed_take_bit 31 n = n" using assms by (simp add: signed_take_bit_int_eq_self)
  then have "sint (word_of_int n :: u32) = n"
    by (simp add: sint_uint uint_word_of_int_eq signed_take_bit_take_bit)
  then have "uint (scast (word_of_int n :: u32) :: u64) = n"
    using assms by (simp add: scast_eq unsigned_of_int take_bit_int_eq_self)
  then show ?thesis by (simp add: unat_eq_nat_uint)
qed

text \<open>The sleeps are exact as long as the milliseconds fit in 32 bits: \<open>sleep\<close> sleeps \<open>seconds * 1000\<close>
  milliseconds exactly for fewer than 4294968 seconds and a shorter time otherwise, \<open>usleep\<close> always
  rounds down to whole milliseconds, and \<open>nanosleep\<close> is exact while the sum fits in an \<open>int\<close>.\<close>

theorem sleep_bounds:
  "(unat (sleep_ms s) = 1000 * unat s \<longleftrightarrow> unat s < 4294968) \<and> unat (sleep_ms s) \<le> 1000 * unat s \<and>
   unat (usleep_ms u) = unat u div 1000 \<and>
   (0 \<le> tv_sec \<and> 0 \<le> tv_nsec \<and> tv_sec * 1000 + tv_nsec div 1000 div 1000 < 2 ^ 31 \<longrightarrow>
     unat (nanosleep_ms tv_sec tv_nsec) = nat (tv_sec * 1000 + tv_nsec div 1000 div 1000))"
proof (intro conjI impI)
  have up: "unat (ucast x :: u64) = unat x" for x :: u32
    by (simp add: unsigned_ucast_eq take_bit_nat_eq_self unsigned_less [THEN less_trans])
  have ms: "unat (sleep_ms s) = 1000 * unat s mod 2 ^ 32"
    by (simp add: sleep_ms_def up unat_word_ariths mult.commute)
  show "unat (sleep_ms s) = 1000 * unat s \<longleftrightarrow> unat s < 4294968"
    unfolding ms by (auto simp: mod_eq_self_iff_div_eq_0 div_eq_0_iff)
  show "unat (sleep_ms s) \<le> 1000 * unat s" unfolding ms by simp
  show "unat (usleep_ms u) = unat u div 1000"
    by (simp add: usleep_ms_def up unat_div)
next
  let ?n = "tv_sec * 1000 + tv_nsec div 1000 div 1000"
  assume h: "0 \<le> tv_sec \<and> 0 \<le> tv_nsec \<and> ?n < 2 ^ 31"
  then have "0 \<le> tv_sec * 1000" "0 \<le> tv_nsec div 1000 div 1000" by (auto intro!: div_int_pos_iff [THEN iffD2])
  then have n: "0 \<le> ?n" by simp
  from h have b: "?n < 2 ^ 31" by simp
  show "unat (nanosleep_ms tv_sec tv_nsec) = nat ?n"
    using h scast_small [OF n b] by (simp add: nanosleep_ms_def pos_imp_zdiv_nonneg_iff)
qed

theorem sleep_bounds_witness:
  "unat (nanosleep_ms 2147483 647000000) = 2147483647 \<and> unat (sleep_ms 4294968) \<noteq> 1000 * unat (4294968 :: u32)"
  using sleep_bounds [of 4294968 0 2147483 647000000] by simp

text \<open>The value stored by \<open>setsockopt\<close> is the timeout of the next hooked call.\<close>

lemma setsockopt_do_io_check:
  assumes "lookup_ctx fd ds = Some c" and "fx_isSocket c" and "\<not> fx_isClosed c" and "\<not> fx_userNonblock c"
    and "opt \<in> {SO_RCVTIMEO, SO_SNDTIMEO}"
  shows "\<exists>ds'. hook_setsockopt True lc fd SOL_SOCKET opt (sec, usec) ds k = Inr ds' \<and>
    do_io_check True lc fd opt ds' k = Inr (Managed (timeval_ms sec usec)) \<and>
    (opt' \<in> {SO_RCVTIMEO, SO_SNDTIMEO} - {opt} \<longrightarrow>
       do_io_check True lc fd opt' ds' k = do_io_check True lc fd opt' ds k)"
proof -
  have fd: "0 \<le> fd" "nat fd < length ds" "ds ! nat fd = Some c"
    using assms(1) by (auto simp: lookup_ctx_def split: if_splits)
  then show ?thesis
    using assms
    by (auto simp: hook_setsockopt_def do_io_check_def FdManager_get_lookup set_ctx_def
        lookup_ctx_def FdCtx_setTimeout_def FdCtx_getTimeout_def)
qed

text \<open>A \<open>timeval\<close> of 0 asks for no timeout at all (socket(7)). The stored value 0 is not the \<open>-1\<close> that
  means so: the next call that has to wait does so with a timer that is due at once.\<close>

lemma zero_timeval_expires:
  assumes "lookup_ctx fd ds = Some c" and "fx_isSocket c" and "\<not> fx_isClosed c" and "\<not> fx_userNonblock c"
  shows "\<exists>ds'. hook_setsockopt True lc fd SOL_SOCKET SO_RCVTIMEO (0, 0) ds k = Inr ds' \<and>
    do_io_check True lc fd SO_RCVTIMEO ds' k = Inr (Managed 0)"
  using setsockopt_do_io_check [OF assms, of SO_RCVTIMEO lc 0 0 k] by (auto simp: timeval_ms_def)

lemma deliver_queue:
  "set (sc_fibers (io_sched io)) \<subseteq> set (sc_fibers (io_sched (deliver x io)))"
  "ctx_armed x \<Longrightarrow> fst (waiter x) = io_this io \<Longrightarrow> snd (waiter x) \<in> set (sc_fibers (io_sched (deliver x io)))"
  by (auto simp: deliver_def io_schedule_def scheduleNoLock_def IOManager_tickle_def Let_def waiter_def
      task_null_def FiberAndThread_fiber_def FiberAndThread_cb_def ctx_armed_def split: option.splits)

lemma triggered_queue:
  assumes "ctx_ok c" and "event \<in> {READ, WRITE}" and "fc_events c AND event \<noteq> 0"
    and "fst (waiter (context_of event c)) = io_this io"
  shows "snd (waiter (context_of event c)) \<in> set (sc_fibers (io_sched (triggered fd (fc_events c) c io)))"
proof -
  let ?io = "io\<lparr>io_epoll := (io_epoll io)(fd := interest (fc_events c AND NOT (fc_events c)))\<rparr>"
  have "ctx_armed (context_of event c)"
    using assms by (auto simp: ctx_ok_def context_of_def split: if_splits)
  then have "snd (waiter (context_of event c)) \<in> set (sc_fibers (io_sched (trigger_mask (fc_events c) c ?io)))"
    using assms(2-4) deliver_queue(1) [of "deliver (fc_read c) ?io" "fc_write c"]
      deliver_queue(2) [of "fc_read c" ?io] deliver_queue(2) [of "fc_write c"]
    by (auto simp: trigger_mask_def Let_def context_of_def)
  then show ?thesis by (simp add: triggered_def put_context_def)
qed

text \<open>C20. Closing a managed descriptor first wakes the fibers that wait on it: every waiter of this
  event loop is scheduled, the kernel's interest and the pending events are dropped, and the
  descriptor's entry disappears from the table, all others being kept.\<close>

theorem hook_close_wakes:
  assumes "io_reachable io" and "lookup_ctx fd ds = Some x" and "context_at fd io = Inr c"
    and "fc_events c \<noteq> 0" and "\<And>op. \<not> fault op fd"
  shows "\<exists>ds' io'. hook_close True lc fault fd ds k (Some io) = Inr (ds', Some io') \<and>
    lookup_ctx fd ds' = None \<and> (\<forall>fd'. fd' \<noteq> fd \<longrightarrow> lookup_ctx fd' ds' = lookup_ctx fd' ds) \<and>
    io_epoll io' fd = None \<and> io_pending io' = io_pending io - of_nat (nevents (fc_events c)) \<and>
    (\<forall>event \<in> {READ, WRITE}. fc_events c AND event \<noteq> 0 \<and> fst (waiter (context_of event c)) = io_this io \<longrightarrow>
       snd (waiter (context_of event c)) \<in> set (sc_fibers (io_sched io')))"
proof -
  have fd: "0 \<le> fd" using assms(2) by (auto simp: lookup_ctx_def split: if_splits)
  obtain ds' where ds': "FdManager_del fd ds = Inr ds'"
    "\<forall>fd'. lookup_ctx fd' ds' = (if fd' = fd then None else lookup_ctx fd' ds)"
    using FdManager_del_lookup [OF fd, of ds] by auto
  note inv = io_reachable_inv [OF assms(1)]
  have "fd < int (length (io_contexts io))" using assms(3) by (auto simp: context_at_def split: if_splits)
  then have ok: "ctx_ok c" using context_at_Inr [OF inv fd] assms(3) by (metis sum.inject(2))
  let ?io = "triggered fd (fc_events c) c io"
  have "IOManager_cancelAll fault fd io = Inr (True, ?io)"
    using cancelAll_cases [OF inv fd assms(3), of fault] assms(4,5) by simp
  then have "hook_close True lc fault fd ds k (Some io) = Inr (ds', Some ?io)"
    using ds' assms(2) by (simp add: hook_close_def FdManager_get_lookup [OF fd])
  moreover have "io_epoll ?io fd = None" "io_pending ?io = io_pending io - of_nat (nevents (fc_events c))"
    by (simp_all add: triggered_def put_context_def interest_def)
  ultimately show ?thesis using ds'(2) triggered_queue [OF ok] by auto
qed

theorem hook_close_wakes_witness:
  "\<exists>ds' io'. hook_close True sample_libc no_fault 5 sample_fds (\<lambda>_. 2) (Some sample_io) = Inr (ds', Some io') \<and>
    lookup_ctx 5 ds' = None \<and> io_epoll io' 5 = None \<and>
    FiberAndThread_fiber (Some 7) (-1) \<in> set (sc_fibers (io_sched io'))"
proof -
  let ?c = "putContext READ (armed_context (Some 1) 7 None) ((FdContext_new 5)\<lparr>fc_events := READ\<rparr>)"
  have e: "fc_events ?c \<noteq> 0" "\<And>op. \<not> no_fault op 5" by (simp_all add: putContext_def no_fault_def)
  have "fc_events ?c = READ" "waiter (context_of READ ?c) = (1, FiberAndThread_fiber (Some 7) (-1))"
    "io_this sample_io = 1"
    by (simp_all add: putContext_def context_of_def waiter_def armed_context_def sample_io_def put_context_def
        sample_io0_def contextResize_def Let_def)
  then show ?thesis
    using hook_close_wakes [of sample_io 5 sample_fds sample_ctx ?c no_fault sample_libc "\<lambda>_. 2",
        OF sample_io_reachable sample_fds_ok(2) sample_io_context e]
    by fastforce
qed

end
