(* ===== verification/Address.thy ===== *)
theory Address
  imports OrderedSet
begin

unbundle bit_operations_syntax

text \<open>
  Socket addresses (\<open>sylar/address.h\<close>, \<open>sylar/address.cpp\<close>, \<open>sylar/byte_sequence.h\<close>) on a
  little-endian machine. The structures of the socket API are records, and \<open>getAddr()\<close> is the
  sequence of bytes they have in memory. The resolver (\<open>getaddrinfo\<close>), \<open>inet_pton\<close> and
  \<open>getifaddrs\<close> are arguments: their results are what the code below works on.
\<close>

section \<open>Byte order\<close>

text \<open>The bytes of a number in memory, least significant first, and reading them back.\<close>

definition bytes16 :: "u16 \<Rightarrow> u8 list" where
  "bytes16 x = [ucast x, ucast (drop_bit 8 x)]"

definition bytes32 :: "u32 \<Rightarrow> u8 list" where
  "bytes32 x = [ucast x, ucast (drop_bit 8 x), ucast (drop_bit 16 x), ucast (drop_bit 24 x)]"

definition bytes64 :: "u64 \<Rightarrow> u8 list" where
  "bytes64 x = bytes32 (ucast x) @ bytes32 (ucast (drop_bit 32 x))"

definition read16 :: "u8 list \<Rightarrow> u16" where
  "read16 bs = ucast (bs ! 0) OR push_bit 8 (ucast (bs ! 1))"

definition read32 :: "u8 list \<Rightarrow> u32" where
  "read32 bs = ucast (bs ! 0) OR push_bit 8 (ucast (bs ! 1)) OR push_bit 16 (ucast (bs ! 2)) OR
     push_bit 24 (ucast (bs ! 3))"

definition read64 :: "u8 list \<Rightarrow> u64" where
  "read64 bs = ucast (read32 bs) OR push_bit 32 (ucast (read32 (drop 4 bs)))"

text \<open>\<open>bswap_16\<close>, \<open>bswap_32\<close> and \<open>bswap_64\<close> of \<open>byteswap.h\<close> reverse the bytes.\<close>

definition byteswap16 :: "u16 \<Rightarrow> u16" where
  "byteswap16 x = read16 (rev (bytes16 x))"

definition byteswap32 :: "u32 \<Rightarrow> u32" where
  "byteswap32 x = read32 (rev (bytes32 x))"

definition byteswap64 :: "u64 \<Rightarrow> u64" where
  "byteswap64 x = read64 (rev (bytes64 x))"

text \<open>\<open>byteswapOnLittleEndian\<close> and \<open>byteswapOnBigEndian\<close>; the argument says whether the machine is
  big-endian.\<close>

definition byteswapOnLittleEndian :: "bool \<Rightarrow> ('a \<Rightarrow> 'a) \<Rightarrow> 'a \<Rightarrow> 'a" where
  "byteswapOnLittleEndian big swap t = (if big then t else swap t)"

definition byteswapOnBigEndian :: "bool \<Rightarrow> ('a \<Rightarrow> 'a) \<Rightarrow> 'a \<Rightarrow> 'a" where
  "byteswapOnBigEndian big swap t = (if big then swap t else t)"

abbreviation swap16 :: "u16 \<Rightarrow> u16" where "swap16 \<equiv> byteswapOnLittleEndian False byteswap16"
abbreviation swap32 :: "u32 \<Rightarrow> u32" where "swap32 \<equiv> byteswapOnLittleEndian False byteswap32"

section \<open>Masks and counting\<close>

text \<open>\<open>CreateMask\<close> shifts the \<open>int\<close> 1: a shift by 32 or more is undefined, and so is subtracting 1
  from the smallest \<open>int\<close>, which is \<open>1 << 31\<close>. In the instance for \<open>uint8_t\<close> the result is cut to
  8 bits.\<close>

definition CreateMask_int :: "nat \<Rightarrow> u32 \<Rightarrow> int result" where
  "CreateMask_int width bits =
     (let n = int width - uint bits in
      if n < 0 \<or> 31 < n then Inl (Undefined ''1 << (sizeof(T) * 8 - bits)'')
      else if n = 31 then Inl (Undefined ''(1 << 31) - 1'')
      else Inr (2 ^ nat n - 1))"

definition CreateMask32 :: "u32 \<Rightarrow> u32 result" where
  "CreateMask32 bits = rbind (CreateMask_int 32 bits) (\<lambda>m. Inr (word_of_int m))"

definition CreateMask8 :: "u32 \<Rightarrow> u8 result" where
  "CreateMask8 bits = rbind (CreateMask_int 8 bits) (\<lambda>m. Inr (word_of_int m))"

lemma clear_lowest_less:
  fixes v :: "'a::len word"
  assumes "v \<noteq> 0"
  shows "unat (v AND (v - 1)) < unat v"
proof -
  have "v AND (v - 1) \<le> v - 1" by (rule word_and_le1)
  moreover have "1 \<le> v" using assms by (simp add: word_le_nat_alt Suc_le_eq unat_gt_0)
  then have "v - 1 < v" using sub_wrap [of v 1] by (simp add: not_le [symmetric])
  ultimately show ?thesis by (simp add: word_less_nat_alt word_le_nat_alt)
qed

text \<open>The loop of \<open>CountBytes\<close>; \<open>result\<close> is a \<open>uint32_t\<close>.\<close>

function CountBytes_loop :: "'a::len word \<Rightarrow> u32 \<Rightarrow> u32" where
  "CountBytes_loop v r = (if v = 0 then r else CountBytes_loop (v AND (v - 1)) (r + 1))"
  by pat_completeness auto
termination
  by (relation "measure (\<lambda>(v, r). unat v)") (auto simp: clear_lowest_less)

declare CountBytes_loop.simps [simp del]

definition CountBytes :: "'a::len word \<Rightarrow> u32" where
  "CountBytes value = CountBytes_loop value 0"

section \<open>Addresses\<close>

abbreviation AF_UNSPEC :: u16 where "AF_UNSPEC \<equiv> 0"
abbreviation AF_UNIX :: u16 where "AF_UNIX \<equiv> 1"
abbreviation AF_INET :: u16 where "AF_INET \<equiv> 2"
abbreviation AF_INET6 :: u16 where "AF_INET6 \<equiv> 10"

record sockaddr =
  sa_family :: u16
  sa_data :: "u8 list"

record sockaddr_in =
  sin_family :: u16
  sin_port :: u16
  sin_addr :: u32
  sin_zero :: "u8 list"

record sockaddr_in6 =
  sin6_family :: u16
  sin6_port :: u16
  sin6_flowinfo :: u32
  sin6_addr :: "u8 list"
  sin6_scope_id :: u32

record sockaddr_un =
  sun_family :: u16
  sun_path :: "u8 list"

text \<open>The classes \<open>IPv4Address\<close>, \<open>IPv6Address\<close>, \<open>UnixAddress\<close> (with \<open>length_\<close>) and
  \<open>UnknownAddress\<close>.\<close>

datatype address =
    IPv4Address sockaddr_in
  | IPv6Address sockaddr_in6
  | UnixAddress sockaddr_un u32
  | UnknownAddress sockaddr

section \<open>Memory\<close>

definition getAddr :: "address \<Rightarrow> u8 list" where
  "getAddr a =
     (case a of
        IPv4Address x \<Rightarrow> bytes16 (sin_family x) @ bytes16 (sin_port x) @ bytes32 (sin_addr x) @ sin_zero x
      | IPv6Address x \<Rightarrow> bytes16 (sin6_family x) @ bytes16 (sin6_port x) @ bytes32 (sin6_flowinfo x) @
          sin6_addr x @ bytes32 (sin6_scope_id x)
      | UnixAddress x l \<Rightarrow> bytes16 (sun_family x) @ sun_path x
      | UnknownAddress x \<Rightarrow> bytes16 (sa_family x) @ sa_data x)"

definition getAddrLen :: "address \<Rightarrow> u32" where
  "getAddrLen a = (case a of IPv4Address x \<Rightarrow> 16 | IPv6Address x \<Rightarrow> 28 | UnixAddress x l \<Rightarrow> l | UnknownAddress x \<Rightarrow> 16)"

definition getFamily :: "address \<Rightarrow> u16" where
  "getFamily a = read16 (getAddr a)"

text \<open>Reading the first \<open>n\<close> bytes of an object.\<close>

definition read_mem :: "nat \<Rightarrow> u8 list \<Rightarrow> u8 list result" where
  "read_mem n bs = (if n \<le> length bs then Inr (take n bs) else Inl (Undefined ''read past the object''))"

section \<open>Construction\<close>

definition sockaddr_in_of :: "u8 list \<Rightarrow> sockaddr_in" where
  "sockaddr_in_of bs = \<lparr>sin_family = read16 bs, sin_port = read16 (drop 2 bs), sin_addr = read32 (drop 4 bs),
     sin_zero = drop 8 bs\<rparr>"

definition sockaddr_in6_of :: "u8 list \<Rightarrow> sockaddr_in6" where
  "sockaddr_in6_of bs = \<lparr>sin6_family = read16 bs, sin6_port = read16 (drop 2 bs),
     sin6_flowinfo = read32 (drop 4 bs), sin6_addr = take 16 (drop 8 bs), sin6_scope_id = read32 (drop 24 bs)\<rparr>"

definition sockaddr_of :: "u8 list \<Rightarrow> sockaddr" where
  "sockaddr_of bs = \<lparr>sa_family = read16 bs, sa_data = drop 2 bs\<rparr>"

text \<open>\<open>Address::Create\<close>: \<open>None\<close> is a null pointer; \<open>addrlen\<close> is not looked at.\<close>

definition Address_Create :: "u8 list option \<Rightarrow> address option result" where
  "Address_Create addr =
     (case addr of
        None \<Rightarrow> Inr None
      | Some bs \<Rightarrow>
          rbind (read_mem 2 bs) (\<lambda>f.
          if read16 f = AF_INET then rbind (read_mem 16 bs) (\<lambda>m. Inr (Some (IPv4Address (sockaddr_in_of m))))
          else if read16 f = AF_INET6 then rbind (read_mem 28 bs) (\<lambda>m. Inr (Some (IPv6Address (sockaddr_in6_of m))))
          else rbind (read_mem 16 bs) (\<lambda>m. Inr (Some (UnknownAddress (sockaddr_of m))))))"

definition IPv4Address_new :: "u32 \<Rightarrow> u16 \<Rightarrow> sockaddr_in" where
  "IPv4Address_new addr port =
     \<lparr>sin_family = AF_INET, sin_port = swap16 port, sin_addr = swap32 addr, sin_zero = replicate 8 0\<rparr>"

definition IPv6Address_default :: sockaddr_in6 where
  "IPv6Address_default = \<lparr>sin6_family = AF_INET6, sin6_port = 0, sin6_flowinfo = 0, sin6_addr = replicate 16 0,
     sin6_scope_id = 0\<rparr>"

definition IPv6Address_new :: "u8 list \<Rightarrow> u16 \<Rightarrow> sockaddr_in6 result" where
  "IPv6Address_new addr port =
     rbind (read_mem 16 addr) (\<lambda>m. Inr (IPv6Address_default\<lparr>sin6_port := swap16 port, sin6_addr := m\<rparr>))"

text \<open>\<open>inet_pton\<close> returns 1 with the address it wrote, or another number.\<close>

definition IPv4Address_Create :: "(string \<Rightarrow> int \<times> u32) \<Rightarrow> string \<Rightarrow> u16 \<Rightarrow> sockaddr_in option" where
  "IPv4Address_Create pton addr port =
     (let rt = (IPv4Address_new 0 0)\<lparr>sin_port := swap16 port\<rparr>;
          (result, v) = pton addr;
          rt1 = (if result = 1 then rt\<lparr>sin_addr := v\<rparr> else rt)
      in if result < 0 then None else Some rt1)"

definition IPv6Address_Create :: "(string \<Rightarrow> int \<times> u8 list) \<Rightarrow> string \<Rightarrow> u16 \<Rightarrow> sockaddr_in6 option" where
  "IPv6Address_Create pton addr port =
     (let rt = IPv6Address_default\<lparr>sin6_port := swap16 port\<rparr>;
          (result, v) = pton addr;
          rt1 = (if result = 1 then rt\<lparr>sin6_addr := v\<rparr> else rt)
      in if result \<le> 0 then None else Some rt1)"

definition getPort :: "address \<Rightarrow> u32 option" where
  "getPort a = (case a of
      IPv4Address x \<Rightarrow> Some (ucast (swap16 (sin_port x)))
    | IPv6Address x \<Rightarrow> Some (ucast (swap16 (sin6_port x)))
    | _ \<Rightarrow> None)"

definition setPort :: "u16 \<Rightarrow> address \<Rightarrow> address" where
  "setPort v a = (case a of
      IPv4Address x \<Rightarrow> IPv4Address (x\<lparr>sin_port := swap16 v\<rparr>)
    | IPv6Address x \<Rightarrow> IPv6Address (x\<lparr>sin6_port := swap16 v\<rparr>)
    | _ \<Rightarrow> a)"

text \<open>\<open>IPAddress::Create\<close>: \<open>gai\<close> is \<open>getaddrinfo\<close> with \<open>AI_NUMERICHOST\<close>; it returns an error or a
  list with at least one address.\<close>

definition is_ip :: "address \<Rightarrow> bool" where
  "is_ip a = (case a of IPv4Address x \<Rightarrow> True | IPv6Address x \<Rightarrow> True | _ \<Rightarrow> False)"

definition IPAddress_Create :: "(string \<Rightarrow> int + u8 list list) \<Rightarrow> string \<Rightarrow> u16 \<Rightarrow> address option result" where
  "IPAddress_Create gai addr port =
     (case gai addr of
        Inl error \<Rightarrow> Inr None
      | Inr [] \<Rightarrow> Inl (Undefined ''results->ai_addr'')
      | Inr (r # rs) \<Rightarrow>
          rbind (Address_Create (Some r)) (\<lambda>a.
          Inr (case a of None \<Rightarrow> None | Some x \<Rightarrow> if is_ip x then Some (setPort port x) else None)))"

section \<open>Masks of addresses\<close>

definition IPv4_broadcastAddress :: "u32 \<Rightarrow> sockaddr_in \<Rightarrow> sockaddr_in option result" where
  "IPv4_broadcastAddress prefix_len a =
     (if prefix_len > 32 then Inr None
      else rbind (CreateMask32 prefix_len) (\<lambda>m. Inr (Some (a\<lparr>sin_addr := sin_addr a OR swap32 m\<rparr>))))"

definition IPv4_networdAddress :: "u32 \<Rightarrow> sockaddr_in \<Rightarrow> sockaddr_in option result" where
  "IPv4_networdAddress prefix_len a =
     (if prefix_len > 32 then Inr None
      else rbind (CreateMask32 prefix_len) (\<lambda>m. Inr (Some (a\<lparr>sin_addr := sin_addr a AND swap32 m\<rparr>))))"

definition IPv4_subnetMask :: "u32 \<Rightarrow> sockaddr_in result" where
  "IPv4_subnetMask prefix_len =
     rbind (CreateMask32 prefix_len) (\<lambda>m.
     Inr \<lparr>sin_family = AF_INET, sin_port = 0, sin_addr = NOT (swap32 m), sin_zero = replicate 8 0\<rparr>)"

text \<open>Storing into \<open>s6_addr\<close>, an array of 16 bytes.\<close>

definition s6_at :: "nat \<Rightarrow> u8 list \<Rightarrow> u8 result" where
  "s6_at i bs = (if i < 16 then Inr (bs ! i) else Inl (Undefined ''s6_addr[prefix_len / 8]''))"

definition s6_fill :: "nat \<Rightarrow> u8 \<Rightarrow> u8 list \<Rightarrow> u8 list" where
  "s6_fill from v bs = take from bs @ replicate (16 - from) v"

definition IPv6_broadcastAddress :: "u32 \<Rightarrow> sockaddr_in6 \<Rightarrow> sockaddr_in6 result" where
  "IPv6_broadcastAddress prefix_len a =
     (let i = unat (prefix_len div 8) in
      rbind (s6_at i (sin6_addr a)) (\<lambda>b.
      rbind (CreateMask8 (prefix_len mod 8)) (\<lambda>m.
      Inr (a\<lparr>sin6_addr := s6_fill (i + 1) 0xff ((sin6_addr a)[i := b OR m])\<rparr>))))"

definition IPv6_networdAddress :: "u32 \<Rightarrow> sockaddr_in6 \<Rightarrow> sockaddr_in6 result" where
  "IPv6_networdAddress prefix_len a =
     (let i = unat (prefix_len div 8) in
      rbind (s6_at i (sin6_addr a)) (\<lambda>b.
      rbind (CreateMask8 (prefix_len mod 8)) (\<lambda>m.
      Inr (a\<lparr>sin6_addr := s6_fill (i + 1) 0 ((sin6_addr a)[i := b AND m])\<rparr>))))"

definition IPv6_subnetMask :: "u32 \<Rightarrow> sockaddr_in6 result" where
  "IPv6_subnetMask prefix_len =
     (let i = unat (prefix_len div 8); z = replicate 16 0 in
      rbind (s6_at i z) (\<lambda>b.
      rbind (CreateMask8 (prefix_len mod 8)) (\<lambda>m.
      Inr (IPv6Address_default\<lparr>sin6_addr := replicate i 0xff @ drop i (z[i := NOT m])\<rparr>))))"

section \<open>Unix addresses\<close>

definition SUN_PATH_SIZE :: nat where "SUN_PATH_SIZE = 108"
definition MAX_PATH_LEN :: nat where "MAX_PATH_LEN = SUN_PATH_SIZE - 1"

definition byte_of :: "char \<Rightarrow> u8" where
  "byte_of c = of_nat (of_char c)"

definition char_of_byte :: "u8 \<Rightarrow> char" where
  "char_of_byte b = char_of (unat b)"

definition UnixAddress_default :: "sockaddr_un \<times> u32" where
  "UnixAddress_default = (\<lparr>sun_family = AF_UNIX, sun_path = replicate SUN_PATH_SIZE 0\<rparr>, of_nat (2 + MAX_PATH_LEN))"

text \<open>\<open>length_\<close> is a \<open>uint32_t\<close>; \<open>memcpy\<close> copies the characters and, unless the path is abstract, the
  terminating NUL.\<close>

definition UnixAddress_new :: "string \<Rightarrow> (sockaddr_un \<times> u32) result" where
  "UnixAddress_new path =
     (let n = (of_nat (length path) + 1 :: u32);
          l = (if path \<noteq> [] \<and> hd path = CHR 0x00 then n - 1 else n)
      in if unat l > SUN_PATH_SIZE then Inl (Thrown ''path too long'')
         else
           let bytes = take (unat l) (map byte_of path @ [0]) in
           Inr (\<lparr>sun_family = AF_UNIX, sun_path = bytes @ replicate (SUN_PATH_SIZE - length bytes) 0\<rparr>, l + 2))"

definition setAddrLen :: "u32 \<Rightarrow> sockaddr_un \<times> u32 \<Rightarrow> sockaddr_un \<times> u32" where
  "setAddrLen v a = (fst a, v)"

text \<open>\<open>sun_path\<close> as a C string, and the constructor of \<open>std::string\<close> from a pointer and a length.\<close>

definition c_string :: "u8 list \<Rightarrow> string result" where
  "c_string bs = (if 0 \<in> set bs then Inr (map char_of_byte (takeWhile (\<lambda>b. b \<noteq> 0) bs))
     else Inl (Undefined ''unterminated sun_path''))"

definition getPath :: "sockaddr_un \<times> u32 \<Rightarrow> string result" where
  "getPath a =
     (let (x, l) = a in
      if l > 2 \<and> hd (sun_path x) = 0
      then rbind (read_mem (unat l - 3) (tl (sun_path x))) (\<lambda>m. Inr ([CHR 0x5C, CHR ''0''] @ map char_of_byte m))
      else c_string (sun_path x))"

section \<open>Printing\<close>

definition show_hex_digit :: "nat \<Rightarrow> char" where
  "show_hex_digit d = (if d < 10 then digit_char d else char_of (87 + d))"

fun show_hex :: "nat \<Rightarrow> string" where
  "show_hex n = (if n < 16 then [show_hex_digit n] else show_hex (n div 16) @ [show_hex_digit (n mod 16)])"

declare show_hex.simps [simp del]

definition show_word :: "'a::len word \<Rightarrow> string" where
  "show_word w = show_nat (unat w)"

definition IPv4_insert :: "sockaddr_in \<Rightarrow> string" where
  "IPv4_insert a =
     (let addr = swap32 (sin_addr a) in
      show_word (drop_bit 24 addr AND 0xff) @ ''.'' @ show_word (drop_bit 16 addr AND 0xff) @ ''.'' @
      show_word (drop_bit 8 addr AND 0xff) @ ''.'' @ show_word (addr AND 0xff) @
      '':'' @ show_word (swap16 (sin_port a)))"

text \<open>The eight 16-bit groups of an IPv6 address as they are in memory, and the loop over them.\<close>

definition s6_groups :: "u8 list \<Rightarrow> u16 list" where
  "s6_groups bs = map (\<lambda>i. read16 (drop (2 * i) bs)) [0..<8]"

fun IPv6_insert_loop :: "u16 list \<Rightarrow> nat list \<Rightarrow> bool \<Rightarrow> string \<times> bool" where
  "IPv6_insert_loop g [] used_zeros = ([], used_zeros)"
| "IPv6_insert_loop g (i # is) used_zeros =
     (if g ! i = 0 \<and> \<not> used_zeros then IPv6_insert_loop g is used_zeros
      else
        let skipped = (i \<noteq> 0 \<and> g ! (i - 1) = 0 \<and> \<not> used_zeros);
            (out, used) = IPv6_insert_loop g is (used_zeros \<or> skipped)
        in ((if skipped then '':'' else []) @ (if i \<noteq> 0 then '':'' else []) @
            show_hex (unat (swap16 (g ! i))) @ out, used))"

definition IPv6_insert :: "sockaddr_in6 \<Rightarrow> string" where
  "IPv6_insert a =
     (let g = s6_groups (sin6_addr a);
          (out, used_zeros) = IPv6_insert_loop g [0..<8] False
      in ''['' @ out @ (if \<not> used_zeros \<and> g ! 7 = 0 then ''::'' else []) @ '']:'' @ show_word (swap16 (sin6_port a)))"

definition Address_insert :: "address \<Rightarrow> string result" where
  "Address_insert a =
     (case a of
        IPv4Address x \<Rightarrow> Inr (IPv4_insert x)
      | IPv6Address x \<Rightarrow> Inr (IPv6_insert x)
      | UnixAddress x l \<Rightarrow> getPath (x, l)
      | UnknownAddress x \<Rightarrow> Inr (''[UnknownAddress family='' @ show_word (sa_family x) @ '']''))"

section \<open>Comparison\<close>

text \<open>\<open>memcmp\<close> compares the first \<open>n\<close> bytes as unsigned numbers.\<close>

fun memcmp_bytes :: "u8 list \<Rightarrow> u8 list \<Rightarrow> int" where
  "memcmp_bytes (x # xs) (y # ys) = (if x < y then -1 else if y < x then 1 else memcmp_bytes xs ys)"
| "memcmp_bytes xs ys = 0"

definition memcmp :: "u8 list \<Rightarrow> u8 list \<Rightarrow> nat \<Rightarrow> int result" where
  "memcmp a b n = rbind (read_mem n a) (\<lambda>x. rbind (read_mem n b) (\<lambda>y. Inr (memcmp_bytes x y)))"

definition Address_less :: "address \<Rightarrow> address \<Rightarrow> bool result" where
  "Address_less a b =
     (let minlen = min (getAddrLen a) (getAddrLen b) in
      rbind (memcmp (getAddr a) (getAddr b) (unat minlen)) (\<lambda>result.
      Inr (if result < 0 then True else if result > 0 then False else getAddrLen a < getAddrLen b)))"

definition Address_eq :: "address \<Rightarrow> address \<Rightarrow> bool result" where
  "Address_eq a b =
     (if getAddrLen a = getAddrLen b
      then rbind (memcmp (getAddr a) (getAddr b) (unat (getAddrLen a))) (\<lambda>result. Inr (result = 0))
      else Inr False)"

definition Address_neq :: "address \<Rightarrow> address \<Rightarrow> bool result" where
  "Address_neq a b = rbind (Address_eq a b) (\<lambda>e. Inr (\<not> e))"

section \<open>Lookup\<close>

text \<open>\<open>memchr\<close> in a string: the position of the first occurrence. \<open>c_str_at\<close> is the character at a
  position of \<open>host.c_str()\<close>, which ends with a NUL.\<close>

fun memchr :: "char \<Rightarrow> string \<Rightarrow> nat option" where
  "memchr c [] = None"
| "memchr c (x # xs) = (if x = c then Some 0 else map_option Suc (memchr c xs))"

definition c_str_at :: "nat \<Rightarrow> string \<Rightarrow> char" where
  "c_str_at i host = (if i < length host then host ! i else CHR 0x00)"

text \<open>The two parts of \<open>Lookup\<close> that set \<open>node\<close> and \<open>service\<close>.\<close>

definition lookup_bracket :: "string \<Rightarrow> string \<times> string option" where
  "lookup_bracket host =
     (if host \<noteq> [] \<and> hd host = CHR ''['' then
        (case memchr (CHR '']'') (tl host) of
           None \<Rightarrow> ([], None)
         | Some i \<Rightarrow> (take i (tl host),
             if c_str_at (i + 2) host = CHR '':'' then Some (drop (i + 3) host) else None))
      else ([], None))"

definition lookup_split :: "string \<Rightarrow> string \<times> string option" where
  "lookup_split host =
     (let (node, service) = lookup_bracket host;
          (node1, service1) =
            (if node = [] then
               (case memchr (CHR '':'') host of
                  None \<Rightarrow> (node, None)
                | Some j \<Rightarrow>
                    if memchr (CHR '':'') (drop (j + 1) host) = None
                    then (take j host, Some (drop (j + 1) host))
                    else (node, Some (drop j host)))
             else (node, service))
      in (if node1 = [] then host else node1, service1))"

text \<open>\<open>gai node service\<close> is \<open>getaddrinfo\<close> with the hints of the call: an error or the addresses.
  \<open>result\<close> is the vector the caller passes in.\<close>

fun create_all :: "u8 list option list \<Rightarrow> address option list result" where
  "create_all [] = Inr []"
| "create_all (r # rs) = rbind (Address_Create r) (\<lambda>a. rbind (create_all rs) (\<lambda>as. Inr (a # as)))"

definition Address_Lookup :: "(string \<Rightarrow> string option \<Rightarrow> int + u8 list option list) \<Rightarrow> address option list \<Rightarrow> string \<Rightarrow>
    (bool \<times> address option list) result" where
  "Address_Lookup gai result host =
     (let (node, service) = lookup_split host in
      case gai node service of
        Inl error \<Rightarrow> Inr (False, result)
      | Inr rs \<Rightarrow> rbind (create_all rs) (\<lambda>as. Inr (result @ as \<noteq> [], result @ as)))"

definition Address_LookupAny :: "(string \<Rightarrow> string option \<Rightarrow> int + u8 list option list) \<Rightarrow> string \<Rightarrow> address option result" where
  "Address_LookupAny gai host =
     rbind (Address_Lookup gai [] host) (\<lambda>(ok, result). Inr (if ok then result ! 0 else None))"

definition Address_LookupAnyIPAddress :: "(string \<Rightarrow> string option \<Rightarrow> int + u8 list option list) \<Rightarrow> string \<Rightarrow>
    address option result" where
  "Address_LookupAnyIPAddress gai host =
     rbind (Address_Lookup gai [] host) (\<lambda>(ok, result).
     Inr (if ok then (case filter (\<lambda>a. a \<noteq> None \<and> is_ip (the a)) result of [] \<Rightarrow> None | v # vs \<Rightarrow> v) else None))"

section \<open>Interfaces\<close>

text \<open>An entry of \<open>getifaddrs\<close>: the name, the address and the netmask, where null pointers are
  \<open>None\<close>.\<close>

record ifaddrs =
  ifa_name :: string
  ifa_addr :: "u8 list option"
  ifa_netmask :: "u8 list option"

definition deref :: "'a option \<Rightarrow> 'a result" where
  "deref p = (case p of None \<Rightarrow> Inl (Undefined ''null pointer'') | Some x \<Rightarrow> Inr x)"

definition netmask_prefix4 :: "u8 list \<Rightarrow> u32 result" where
  "netmask_prefix4 bs = rbind (read_mem 16 bs) (\<lambda>m. Inr (CountBytes (sin_addr (sockaddr_in_of m))))"

definition netmask_prefix6 :: "u8 list \<Rightarrow> u32 result" where
  "netmask_prefix6 bs = rbind (read_mem 28 bs) (\<lambda>m. Inr (\<Sum>b \<leftarrow> sin6_addr (sockaddr_in6_of m). CountBytes b))"

text \<open>One round of the loop: \<open>None\<close> when nothing is inserted.\<close>

definition interface_entry :: "u16 \<Rightarrow> ifaddrs \<Rightarrow> (string \<times> address \<times> u32) option result" where
  "interface_entry family x =
     rbind (if family \<noteq> AF_UNSPEC then rbind (deref (ifa_addr x)) (\<lambda>bs. Inr (family \<noteq> read16 bs)) else Inr False) (\<lambda>skip.
     if skip then Inr None
     else
       rbind (deref (ifa_addr x)) (\<lambda>bs.
       if read16 bs = AF_INET then
         rbind (Address_Create (Some bs)) (\<lambda>a. rbind (deref (ifa_netmask x)) (\<lambda>m.
         rbind (netmask_prefix4 m) (\<lambda>p. Inr (map_option (\<lambda>v. (ifa_name x, v, p)) a))))
       else if read16 bs = AF_INET6 then
         rbind (Address_Create (Some bs)) (\<lambda>a. rbind (deref (ifa_netmask x)) (\<lambda>m.
         rbind (netmask_prefix6 m) (\<lambda>p. Inr (map_option (\<lambda>v. (ifa_name x, v, p)) a))))
       else Inr None))"

text \<open>The multimap is the list of its entries in the order of insertion; \<open>equal_range\<close> gives the
  entries of one key in that order.\<close>

fun interface_loop :: "u16 \<Rightarrow> ifaddrs list \<Rightarrow> (string \<times> address \<times> u32) list \<Rightarrow>
    (string \<times> address \<times> u32) list result" where
  "interface_loop family [] result = Inr result"
| "interface_loop family (x # xs) result =
     rbind (interface_entry family x) (\<lambda>e.
     interface_loop family xs (case e of None \<Rightarrow> result | Some v \<Rightarrow> result @ [v]))"

definition GetInterfaceAddresses :: "ifaddrs list option \<Rightarrow> u16 \<Rightarrow> (string \<times> address \<times> u32) list \<Rightarrow>
    (bool \<times> (string \<times> address \<times> u32) list) result" where
  "GetInterfaceAddresses ifs family result =
     (case ifs of
        None \<Rightarrow> Inr (False, result)
      | Some xs \<Rightarrow> rbind (interface_loop family xs result) (\<lambda>r. Inr (r \<noteq> [], r)))"

definition GetInterfaceAddresses_iface :: "ifaddrs list option \<Rightarrow> string \<Rightarrow> u16 \<Rightarrow> (address \<times> u32) list \<Rightarrow>
    (bool \<times> (address \<times> u32) list) result" where
  "GetInterfaceAddresses_iface ifs iface family result =
     (if iface = [] \<or> iface = ''*'' then
        Inr (True, result @
          (if family = AF_INET \<or> family = AF_UNSPEC then [(IPv4Address (IPv4Address_new 0 0), 0)] else []) @
          (if family = AF_INET6 \<or> family = AF_UNSPEC then [(IPv6Address IPv6Address_default, 0)] else []))
      else
        rbind (GetInterfaceAddresses ifs family []) (\<lambda>(ok, results).
        if \<not> ok then Inr (False, result)
        else
          let r = result @ map snd (filter (\<lambda>(name, v). name = iface) results)
          in Inr (r \<noteq> [], r)))"

section \<open>Byte order and masks\<close>

lemma length_bytes [simp]: "length (bytes16 v) = 2" "length (bytes32 w) = 4" "length (bytes64 x) = 8"
  by (simp_all add: bytes16_def bytes32_def bytes64_def)

lemma bit_read16:
  "bit (read16 [a, b]) n \<longleftrightarrow> n < 16 \<and> (if n < 8 then bit a n else bit b (n - 8))"
  by (auto simp: read16_def bit_simps dest: bit_imp_le_length)

lemma bit_read32:
  "bit (read32 [a, b, c, d]) n \<longleftrightarrow> n < 32 \<and>
     (if n < 8 then bit a n else if n < 16 then bit b (n - 8) else if n < 24 then bit c (n - 16) else bit d (n - 24))"
  by (auto simp: read32_def bit_simps dest: bit_imp_le_length)

lemma read_bytes [simp]:
  "read16 (bytes16 v) = v" "read32 (bytes32 w) = w" "read64 (bytes64 x) = x"
proof -
  show "read16 (bytes16 v) = v" by (rule bit_word_eqI) (auto simp: bit_read16 bytes16_def bit_simps)
  show w: "read32 (bytes32 w) = w" for w by (rule bit_word_eqI) (auto simp: bit_read32 bytes32_def bit_simps)
  have d: "read32 (bytes32 y @ bs) = y" "drop 4 (bytes32 y @ bs) = bs" for y bs
    using w [of y] by (simp_all add: read32_def bytes32_def)
  show "read64 (bytes64 x) = x"
    by (rule bit_word_eqI) (auto simp: read64_def bytes64_def d w bit_simps)
qed

lemma bytes_read [simp]:
  "bytes16 (read16 [a, b]) = [a, b]" "bytes32 (read32 [a, b, c, d]) = [a, b, c, d]"
  by (auto simp: bytes16_def bytes32_def intro!: bit_word_eqI) (auto simp: bit_read16 bit_read32 bit_simps)

lemma list_of_length:
  "length bs = 2 \<Longrightarrow> \<exists>a b. bs = [a, b]" "length bs = 4 \<Longrightarrow> \<exists>a b c d. bs = [a, b, c, d]"
  by (auto simp: length_Suc_conv numeral_eq_Suc)

lemma bytes_read_list:
  "length bs = 2 \<Longrightarrow> bytes16 (read16 bs) = bs" "length bs = 4 \<Longrightarrow> bytes32 (read32 bs) = bs"
  "length bs = 8 \<Longrightarrow> bytes64 (read64 bs) = bs"
proof -
  show "length bs = 2 \<Longrightarrow> bytes16 (read16 bs) = bs" using list_of_length(1) [of bs] by auto
  show four: "length bs = 4 \<Longrightarrow> bytes32 (read32 bs) = bs" for bs using list_of_length(2) [of bs] by auto
  assume l: "length bs = 8"
  have t: "read32 (take 4 bs) = read32 bs" using l by (simp add: read32_def)
  have "ucast (read64 bs) = read32 bs"
    unfolding read64_def by (rule bit_word_eqI) (auto simp: bit_simps)
  moreover have "ucast (drop_bit 32 (read64 bs)) = read32 (drop 4 bs)"
    unfolding read64_def by (rule bit_word_eqI) (auto simp: bit_simps dest: bit_imp_le_length)
  ultimately have "bytes64 (read64 bs) = bytes32 (read32 (take 4 bs)) @ bytes32 (read32 (drop 4 bs))"
    by (simp add: bytes64_def t)
  then show "bytes64 (read64 bs) = bs" using l by (simp add: four)
qed

lemma bytes_byteswap:
  "bytes16 (byteswap16 v) = rev (bytes16 v)" "bytes32 (byteswap32 w) = rev (bytes32 w)"
  "bytes64 (byteswap64 x) = rev (bytes64 x)"
  by (simp_all add: byteswap16_def byteswap32_def byteswap64_def bytes_read_list)

lemma byteswap_involution [simp]:
  "byteswap16 (byteswap16 v) = v" "byteswap32 (byteswap32 w) = w" "byteswap64 (byteswap64 x) = x"
  by (subst byteswap16_def byteswap32_def byteswap64_def, simp add: bytes_byteswap)+

lemma swap_simps [simp]: "byteswapOnLittleEndian False swap x = swap x"
  by (simp add: byteswapOnLittleEndian_def)

lemma bit_byteswap32:
  "n < 32 \<Longrightarrow> bit (byteswap32 x) n \<longleftrightarrow>
     bit x (if n < 8 then n + 24 else if n < 16 then n + 8 else if n < 24 then n - 8 else n - 24)"
  by (auto simp: byteswap32_def bytes32_def bit_read32 bit_simps add.commute)

lemma byteswap32_bitwise:
  "byteswap32 (x AND y) = byteswap32 x AND byteswap32 y" "byteswap32 (x OR y) = byteswap32 x OR byteswap32 y"
  "byteswap32 (NOT x) = NOT (byteswap32 x)"
  by (rule bit_word_eqI, auto simp: bit_byteswap32 bit_simps)+

lemma CreateMask32_eq:
  "CreateMask32 p = (if 2 \<le> p \<and> p \<le> 32 then Inr (mask (32 - unat p))
     else Inl (Undefined (if p = 1 then ''(1 << 31) - 1'' else ''1 << (sizeof(T) * 8 - bits)'')))"
proof -
  obtain n where n: "uint p = int n" "unat p = n" by (metis uint_nat)
  have le: "2 \<le> p \<longleftrightarrow> 2 \<le> n" "p \<le> 32 \<longleftrightarrow> n \<le> 32" "p = 1 \<longleftrightarrow> n = 1"
    using n(2) by (simp_all add: word_le_nat_alt word_unat_eq_iff)
  have "nat (32 - int n) = 32 - n" by simp
  then show ?thesis
    by (auto simp: CreateMask32_def CreateMask_int_def Let_def n le mask_eq_exp_minus_1)
qed

section \<open>Counting bits\<close>

lemma clear_lowest_bit:
  fixes v :: "'a::len word"
  assumes k: "bit v k" and low: "\<And>j. j < k \<Longrightarrow> \<not> bit v j"
  shows "v AND (v - 1) = unset_bit k v"
proof -
  let ?u = "unset_bit k v"
  have kl: "k < LENGTH('a)" using k by (rule bit_imp_le_length)
  have "v = ?u OR push_bit k 1"
    by (rule bit_word_eqI) (use k kl in \<open>auto simp: bit_simps\<close>)
  also have "\<dots> = ?u + push_bit k 1"
    by (rule disjunctive_add [symmetric]) (auto simp: bit_simps)
  finally have "v - 1 = ?u + mask k"
    by (simp add: mask_eq_exp_minus_1 algebra_simps)
  also have "\<dots> = ?u OR mask k"
    by (rule disjunctive_add) (use low in \<open>auto simp: bit_simps\<close>)
  finally show ?thesis
    by (intro bit_word_eqI) (use k low in \<open>auto simp: bit_simps\<close>)
qed

definition popcount :: "'a::len word \<Rightarrow> nat" where
  "popcount v = card {n. bit v n}"

lemma finite_bits: "finite {n. bit (v :: 'a::len word) n}"
  by (rule finite_subset [of _ "{..< LENGTH('a)}"]) (auto dest: bit_imp_le_length)

lemma popcount_clear:
  fixes v :: "'a::len word"
  assumes "v \<noteq> 0"
  shows "popcount v = Suc (popcount (v AND (v - 1)))"
proof -
  obtain n where "bit v n" using assms by (auto simp: bit_eq_iff)
  define k where "k = (LEAST n. bit v n)"
  have k: "bit v k" using \<open>bit v n\<close> unfolding k_def by (rule LeastI)
  have "\<And>j. j < k \<Longrightarrow> \<not> bit v j" unfolding k_def by (rule not_less_Least)
  from clear_lowest_bit [OF k this] have "{n. bit (v AND (v - 1)) n} = {n. bit v n} - {k}"
    using bit_imp_le_length [OF k] by (auto simp: bit_simps)
  then show ?thesis using card.remove [OF finite_bits, of k v] k by (simp add: popcount_def)
qed

lemma popcount_bound: "popcount (v :: 'a::len word) \<le> LENGTH('a)"
proof -
  have "{n. bit v n} \<subseteq> {..< LENGTH('a)}" by (auto dest: bit_imp_le_length)
  then show ?thesis unfolding popcount_def using card_mono [of "{..< LENGTH('a)}"] by fastforce
qed

lemma CountBytes_loop_popcount: "CountBytes_loop v r = r + of_nat (popcount v)"
proof (induction v r rule: CountBytes_loop.induct)
  case (1 v r)
  show ?case
  proof (cases "v = 0")
    case True
    then show ?thesis by (simp add: CountBytes_loop.simps popcount_def)
  next
    case False
    then show ?thesis
      using 1 popcount_clear [OF False] by (subst CountBytes_loop.simps) simp
  qed
qed

text \<open>The loop of \<open>CountBytes\<close>, which clears the lowest set bit until none is left, ends and counts
  the set bits: it equals the number of positions at which the bit is set.\<close>

theorem CountBytes_popcount:
  "CountBytes (v :: u32) = of_nat (card {n. bit v n}) \<and> unat (CountBytes v) = card {n. bit v n}"
proof -
  have "CountBytes v = of_nat (popcount v)" by (simp add: CountBytes_def CountBytes_loop_popcount)
  moreover have "popcount v < 2 ^ 32" using popcount_bound [of v] by simp
  ultimately show ?thesis by (simp add: popcount_def unat_of_nat take_bit_nat_eq_self unsigned_of_nat)
qed

lemma popcount_not_mask:
  assumes "p \<le> 32"
  shows "popcount (NOT (mask (32 - p)) :: u32) = p"
proof -
  have "{n. bit (NOT (mask (32 - p)) :: u32) n} = {32 - p ..< 32}" by (auto simp: bit_simps)
  then show ?thesis using assms by (simp add: popcount_def)
qed

definition swap_index :: "nat \<Rightarrow> nat" where
  "swap_index n = (if n < 8 then n + 24 else if n < 16 then n + 8 else if n < 24 then n - 8 else n - 24)"

lemma popcount_byteswap32: "popcount (byteswap32 x) = popcount x"
  unfolding popcount_def
proof (rule bij_betw_same_card [of swap_index], rule bij_betw_byWitness [where f' = swap_index])
  show "\<forall>n\<in>{n. bit (byteswap32 x) n}. swap_index (swap_index n) = n"
    "\<forall>n\<in>{n. bit x n}. swap_index (swap_index n) = n"
    by (auto simp: swap_index_def dest!: bit_imp_le_length)
  have fwd: "bit x (swap_index n)" if "bit (byteswap32 x) n" for x n
    using that bit_byteswap32 [of n x] bit_imp_le_length [OF that] by (simp add: swap_index_def)
  then show "swap_index ` {n. bit (byteswap32 x) n} \<subseteq> {n. bit x n}" by auto
  show "swap_index ` {n. bit x n} \<subseteq> {n. bit (byteswap32 x) n}" using fwd [of "byteswap32 x"] by auto
qed

section \<open>Properties of addresses\<close>

text \<open>C27. For a prefix of 2 to 32 bits, in host byte order: the subnet mask has exactly the first
  \<open>p\<close> bits set, and counting its bits, as \<open>GetInterfaceAddresses\<close> does, gives \<open>p\<close> back; the broadcast
  address keeps the first \<open>p\<close> bits of the address and sets all others; \<open>networdAddress\<close> keeps the host
  part instead of the network part. The shift in \<open>CreateMask\<close> is undefined for every other prefix.\<close>

theorem ipv4_masks:
  assumes "2 \<le> p" and "p \<le> 32"
  shows "\<exists>s b c. IPv4_subnetMask p = Inr s \<and> IPv4_broadcastAddress p a = Inr (Some b) \<and>
    IPv4_networdAddress p a = Inr (Some c) \<and>
    byteswap32 (sin_addr s) = NOT (mask (32 - unat p)) \<and> CountBytes (sin_addr s) = p \<and>
    byteswap32 (sin_addr b) = byteswap32 (sin_addr a) OR mask (32 - unat p) \<and>
    byteswap32 (sin_addr c) = byteswap32 (sin_addr a) AND mask (32 - unat p)"
proof -
  have up: "\<not> p > 32" "unat p \<le> 32" using assms by (simp_all add: not_less) (simp add: word_le_nat_alt)
  have "CountBytes (NOT (byteswap32 (mask (32 - unat p)))) = p"
    using popcount_not_mask [OF up(2)] popcount_byteswap32 [of "NOT (mask (32 - unat p))"]
    by (simp add: CountBytes_def CountBytes_loop_popcount byteswap32_bitwise)
  then show ?thesis
    using assms up(1)
    by (simp add: IPv4_subnetMask_def IPv4_broadcastAddress_def IPv4_networdAddress_def CreateMask32_eq
        byteswap32_bitwise)
qed

theorem ipv4_masks_witness:
  "\<exists>c. IPv4_networdAddress 24 (IPv4Address_new 0xC0A80105 80) = Inr (Some c) \<and> byteswap32 (sin_addr c) = 5"
proof -
  have "byteswap32 (sin_addr (IPv4Address_new 0xC0A80105 80)) AND mask (32 - unat (24 :: u32)) = 5"
    by (simp add: IPv4Address_new_def mask_eq_exp_minus_1)
  then show ?thesis using ipv4_masks [of 24 "IPv4Address_new 0xC0A80105 80"] by auto
qed

lemma ipv4_mask_undefined:
  "p < 2 \<Longrightarrow> \<exists>m. IPv4_broadcastAddress p a = Inl (Undefined m)" "32 < p \<Longrightarrow> \<exists>m. IPv4_subnetMask p = Inl (Undefined m)"
  by (auto simp: IPv4_broadcastAddress_def IPv4_subnetMask_def CreateMask32_eq word_less_nat_alt word_le_nat_alt)

text \<open>An address as the constructors leave it.\<close>

definition address_ok :: "address \<Rightarrow> bool" where
  "address_ok a =
     (case a of
        IPv4Address x \<Rightarrow> sin_family x = AF_INET \<and> length (sin_zero x) = 8
      | IPv6Address x \<Rightarrow> sin6_family x = AF_INET6 \<and> length (sin6_addr x) = 16
      | UnixAddress x l \<Rightarrow> sun_family x = AF_UNIX \<and> length (sun_path x) = SUN_PATH_SIZE \<and> unat l \<le> 2 + SUN_PATH_SIZE
      | UnknownAddress x \<Rightarrow> sa_family x \<notin> {AF_INET, AF_INET6} \<and> length (sa_data x) = 14)"

lemma read16_append [simp]: "read16 (bytes16 v @ bs) = v"
  by (rule trans [OF _ read_bytes(1)]) (simp add: read16_def bytes16_def)

lemma read32_append [simp]: "read32 (bytes32 v @ bs) = v"
  by (rule trans [OF _ read_bytes(2)]) (simp add: read32_def bytes32_def)

lemma drop_bytes [simp]: "drop 2 (bytes16 v @ bs) = bs" "drop 4 (bytes32 w @ bs) = bs"
  by simp_all

text \<open>\<open>Address::Create\<close> reads back what \<open>getAddr()\<close> gives out: every IPv4, IPv6 and unknown
  address is rebuilt from its bytes.\<close>

theorem create_getAddr:
  assumes "address_ok a" and "getFamily a \<noteq> AF_UNIX"
  shows "Address_Create (Some (getAddr a)) = Inr (Some a)"
proof (cases a)
  case (IPv4Address x)
  then have l: "length (getAddr a) = 16" using assms by (simp add: address_ok_def getAddr_def)
  have "drop 4 (bytes16 f @ bytes16 p @ bs) = bs" "drop 8 (bytes16 f @ bytes16 p @ bytes32 w @ bs) = bs" for f p w bs
    by simp_all
  then have "sockaddr_in_of (getAddr a) = x" using IPv4Address by (simp add: sockaddr_in_of_def getAddr_def)
  then show ?thesis using IPv4Address assms l
    by (simp add: Address_Create_def read_mem_def address_ok_def) (simp add: getAddr_def)
qed (use assms in \<open>auto simp: Address_Create_def read_mem_def address_ok_def getAddr_def getFamily_def
    sockaddr_in6_of_def sockaddr_of_def\<close>)

theorem create_getAddr_witness:
  "Address_Create (Some (getAddr (IPv4Address (IPv4Address_new 0x7f000001 80)))) =
     Inr (Some (IPv4Address (IPv4Address_new 0x7f000001 80)))"
  by (rule create_getAddr) (simp_all add: address_ok_def IPv4Address_new_def getFamily_def getAddr_def)

text \<open>The order of addresses: the lexicographic order of their bytes.\<close>

fun bytes_less :: "u8 list \<Rightarrow> u8 list \<Rightarrow> bool" where
  "bytes_less xs [] = False"
| "bytes_less [] (y # ys) = True"
| "bytes_less (x # xs) (y # ys) = (x < y \<or> x = y \<and> bytes_less xs ys)"

definition address_key :: "address \<Rightarrow> u8 list" where
  "address_key a = take (unat (getAddrLen a)) (getAddr a)"

lemma bytes_less_trans: "bytes_less xs ys \<Longrightarrow> bytes_less ys zs \<Longrightarrow> bytes_less xs zs"
proof (induction xs zs arbitrary: ys rule: bytes_less.induct)
  case (2 z zs)
  then show ?case by (cases ys) simp_all
next
  case (3 x xs z zs)
  then show ?case by (cases ys) auto
qed simp

lemma bytes_less_irrefl: "\<not> bytes_less xs xs"
  by (induction xs) auto

lemma bytes_less_total: "xs \<noteq> ys \<Longrightarrow> bytes_less xs ys \<or> bytes_less ys xs"
  by (induction xs ys rule: bytes_less.induct) (auto simp: neq_Nil_conv)

interpretation byte_order: key_ordering bytes_less
  by unfold_locales (metis bytes_less_irrefl bytes_less_trans bytes_less_total)+

lemma memcmp_bytes_less:
  "memcmp_bytes (take (min (length xs) (length ys)) xs) (take (min (length xs) (length ys)) ys) =
     (if xs = take (length xs) ys \<or> ys = take (length ys) xs then 0 else if bytes_less xs ys then -1 else 1)"
  by (induction xs ys rule: bytes_less.induct) auto

lemma bytes_less_append: "bytes_less xs (xs @ ys) \<longleftrightarrow> ys \<noteq> []"
  by (induction xs) (cases ys, simp_all)

lemma bytes_less_prefix:
  assumes "xs = take (length xs) ys \<or> ys = take (length ys) xs"
  shows "bytes_less xs ys \<longleftrightarrow> length xs < length ys"
  using assms
proof
  assume "xs = take (length xs) ys"
  then obtain zs where "ys = xs @ zs" by (metis append_take_drop_id)
  then show ?thesis by (simp add: bytes_less_append)
next
  assume "ys = take (length ys) xs"
  then obtain zs where "xs = ys @ zs" by (metis append_take_drop_id)
  moreover have "\<not> bytes_less (ys @ zs) ys"
    using bytes_less_append [of ys zs] byte_order.lt_asym byte_order.lt_irrefl by fastforce
  ultimately show ?thesis by simp
qed

lemma address_key_length: "address_ok a \<Longrightarrow> length (address_key a) = unat (getAddrLen a)"
  by (auto simp: address_key_def address_ok_def getAddr_def getAddrLen_def split: address.splits)

lemma address_key_take: "n \<le> unat (getAddrLen a) \<Longrightarrow> take n (getAddr a) = take n (address_key a)"
  by (simp add: address_key_def min_absorb1)

lemma memcmp_keys:
  assumes "address_ok a" and "address_ok b"
  shows "n \<le> min (unat (getAddrLen a)) (unat (getAddrLen b)) \<Longrightarrow>
    memcmp (getAddr a) (getAddr b) n = Inr (memcmp_bytes (take n (address_key a)) (take n (address_key b)))"
  using address_key_length [OF assms(1)] address_key_length [OF assms(2)]
  by (auto simp: memcmp_def read_mem_def address_key_take) (auto simp: address_key_def)



lemma not_in_show_word [simp]: "CHR ''.'' \<notin> set (show_word w)" "CHR '':'' \<notin> set (show_word w)"
  using show_nat_digits [of "CHR ''.''" "unat w"] show_nat_digits [of "CHR '':''" "unat w"]
  by (auto simp: show_word_def is_digit_def less_eq_char_def)

lemma show_word_inject [simp]: "show_word v = show_word w \<longleftrightarrow> v = w"
  by (simp add: show_word_def word_unat_eq_iff)

lemma octets_eq:
  fixes x y :: u32
  assumes "drop_bit 24 x AND 0xff = drop_bit 24 y AND 0xff" and "drop_bit 16 x AND 0xff = drop_bit 16 y AND 0xff"
    and "drop_bit 8 x AND 0xff = drop_bit 8 y AND 0xff" and "x AND 0xff = y AND 0xff"
  shows "x = y"
proof -
  have m: "(0xff :: u32) = mask 8" by (simp add: mask_eq_exp_minus_1)
  have b: "bit x (k + n) \<longleftrightarrow> bit y (k + n)" if "n < 8" "drop_bit k x AND 0xff = drop_bit k y AND 0xff" for k n
    using arg_cong [OF that(2), of "\<lambda>w. bit w n"] that(1) by (simp add: m bit_simps add.commute)
  show ?thesis
  proof (rule bit_word_eqI)
    fix n
    assume n: "n < LENGTH(32)"
    consider "n < 8" | "n - 8 < 8" "8 \<le> n" | "n - 16 < 8" "16 \<le> n" | "n - 24 < 8" "24 \<le> n" using n by simp linarith
    then show "bit x n \<longleftrightarrow> bit y n"
      using b [of n 0] b [of "n - 8" 8] b [of "n - 16" 16] b [of "n - 24" 24] assms by cases simp_all
  qed
qed

text \<open>\<open>toString\<close> of an IPv4 address determines it: two addresses that print the same have the
  same address and the same port.\<close>

theorem ipv4_toString_inject:
  "IPv4_insert a = IPv4_insert b \<longleftrightarrow> sin_addr a = sin_addr b \<and> sin_port a = sin_port b"
proof
  assume h: "IPv4_insert a = IPv4_insert b"
  let ?x = "byteswap32 (sin_addr a)" and ?y = "byteswap32 (sin_addr b)"
  have "?x = ?y \<and> byteswap16 (sin_port a) = byteswap16 (sin_port b)"
    using h by (auto simp: IPv4_insert_def Let_def split_at_first intro!: octets_eq)
  then show "sin_addr a = sin_addr b \<and> sin_port a = sin_port b"
    by (metis byteswap_involution(1,2))
qed (simp add: IPv4_insert_def)

section \<open>Lookup\<close>

lemma memchr_None [simp]: "memchr c xs = None \<longleftrightarrow> c \<notin> set xs"
  by (induction xs) auto

lemma memchr_absent [simp]: "c \<notin> set xs \<Longrightarrow> memchr c xs = None"
  by simp

lemma memchr_append [simp]: "c \<notin> set xs \<Longrightarrow> memchr c (xs @ c # ys) = Some (length xs)"
  by (induction xs) auto

text \<open>How \<open>Lookup\<close> takes a host apart: a name alone, \<open>name:service\<close>, \<open>[ipv6]\<close> and
  \<open>[ipv6]:service\<close> give the parts they are written with. A bare IPv6 literal, which has more than one
  colon, is passed on whole, with everything from its first colon on as the service.\<close>

theorem lookup_split_parts:
  assumes "node \<noteq> []"
  shows "(CHR '']'' \<notin> set node \<longrightarrow> lookup_split (''['' @ node @ '']:'' @ service) = (node, Some service) \<and>
      lookup_split (''['' @ node @ '']'') = (node, None)) \<and>
    (hd node \<noteq> CHR ''['' \<and> CHR '':'' \<notin> set node \<longrightarrow> lookup_split node = (node, None) \<and>
      (CHR '':'' \<notin> set service \<longrightarrow> lookup_split (node @ '':'' @ service) = (node, Some service)) \<and>
      (CHR '':'' \<in> set service \<longrightarrow>
        lookup_split (node @ '':'' @ service) = (node @ '':'' @ service, Some ('':'' @ service))))"
proof (intro conjI impI)
  have d: "drop (length node + 3) (CHR ''['' # node @ CHR '']'' # CHR '':'' # service) = service"
    by (simp add: numeral_eq_Suc)
  show "lookup_split (''['' @ node @ '']:'' @ service) = (node, Some service)"
    "lookup_split (''['' @ node @ '']'') = (node, None)" if "CHR '']'' \<notin> set node"
    using assms that d by (auto simp: lookup_split_def lookup_bracket_def c_str_at_def nth_append)
next
  assume h: "hd node \<noteq> CHR ''['' \<and> CHR '':'' \<notin> set node"
  then have nb: "lookup_bracket (node @ xs) = ([], None)" for xs
    using assms by (simp add: lookup_bracket_def)
  show "lookup_split node = (node, None)"
    using nb [of "[]"] h by (simp add: lookup_split_def)
  show "lookup_split (node @ '':'' @ service) = (node, Some service)" if "CHR '':'' \<notin> set service"
    using nb h that assms by (simp add: lookup_split_def)
  show "lookup_split (node @ '':'' @ service) = (node @ '':'' @ service, Some ('':'' @ service))"
    if "CHR '':'' \<in> set service"
    using nb h that assms by (auto simp: lookup_split_def)
qed

theorem lookup_split_parts_witness:
  "lookup_split ''www.sylar.top:80'' = (''www.sylar.top'', Some ''80'') \<and>
   lookup_split ''[::1]:80'' = (''::1'', Some ''80'') \<and> lookup_split ''fe80::1'' = (''fe80::1'', Some ''::1'')"
  using lookup_split_parts [of "''www.sylar.top''" "''80''"] lookup_split_parts [of "''::1''" "''80''"]
    lookup_split_parts [of "''fe80''" "'':1''"] by simp

section \<open>Unix paths\<close>

lemma unat_byte_of [simp]: "unat (byte_of c) = of_char c"
  by (simp add: byte_of_def unsigned_of_nat take_bit_nat_def)

lemma char_of_byte_of [simp]: "char_of_byte (byte_of c) = c" "char_of_byte \<circ> byte_of = id"
  by (simp_all add: char_of_byte_def fun_eq_iff)

lemma byte_of_zero [simp]: "byte_of c = 0 \<longleftrightarrow> c = CHR 0x00"
proof
  assume "byte_of c = 0"
  moreover have "char_of_byte 0 = CHR 0x00" by (simp add: char_of_byte_def char_of_def)
  ultimately show "c = CHR 0x00" by (metis char_of_byte_of(1))
qed (simp add: byte_of_def)

lemma takeWhile_map_byte_of:
  "CHR 0x00 \<notin> set path \<Longrightarrow> takeWhile (\<lambda>b. b \<noteq> 0) (map byte_of path @ 0 # bs) = map byte_of path"
  by (induction path) auto

text \<open>A path of at most 107 characters without NUL, and an abstract name of at most 108
  characters, fit into a \<open>UnixAddress\<close>, and \<open>getPath\<close> gives them back, an abstract one with its
  leading NUL written as a backslash and a zero; a longer one makes the constructor throw.\<close>

theorem unix_path_round_trip:
  assumes "path \<noteq> []" and "length path < 2 ^ 32 - 1"
  shows "(CHR 0x00 \<notin> set path \<longrightarrow> rbind (UnixAddress_new path) getPath =
      (if length path \<le> 107 then Inr path else Inl (Thrown ''path too long''))) \<and>
    (hd path = CHR 0x00 \<longrightarrow> rbind (UnixAddress_new path) getPath =
      (if length path \<le> 108 then Inr ([CHR 0x5C, CHR ''0''] @ tl path) else Inl (Thrown ''path too long'')))"
proof (intro conjI impI)
  let ?n = "length path"
  have n: "unat (of_nat ?n + 1 :: u32) = ?n + 1" "unat (of_nat ?n :: u32) = ?n"
    using assms(2) by (simp_all add: unsigned_of_nat take_bit_nat_eq_self unat_word_ariths)
  show "rbind (UnixAddress_new path) getPath = (if ?n \<le> 107 then Inr path else Inl (Thrown ''path too long''))"
    if z: "CHR 0x00 \<notin> set path"
  proof -
    have "hd path \<noteq> CHR 0x00" using z assms(1) by (metis hd_in_set)
    moreover have "hd (map byte_of path @ bs) \<noteq> 0" for bs
      using calculation assms(1) by (cases path) auto
    ultimately show ?thesis
      using z n assms(1)
      by (auto simp: UnixAddress_new_def Let_def getPath_def c_string_def SUN_PATH_SIZE_def takeWhile_map_byte_of)
  qed
  show "rbind (UnixAddress_new path) getPath =
      (if ?n \<le> 108 then Inr ([CHR 0x5C, CHR ''0''] @ tl path) else Inl (Thrown ''path too long''))"
    if z: "hd path = CHR 0x00"
  proof -
    have "unat (of_nat ?n + 2 :: u32) = ?n + 2" if "?n \<le> 108"
      using that by (simp add: unsigned_of_nat take_bit_nat_eq_self unat_word_ariths)
    then show ?thesis
      using z n assms(1)
      by (cases path) (auto simp: UnixAddress_new_def Let_def getPath_def SUN_PATH_SIZE_def read_mem_def
          word_less_nat_alt map_tl)
  qed
qed

theorem unix_path_round_trip_witness:
  "rbind (UnixAddress_new ''/tmp/s'') getPath = Inr ''/tmp/s'' \<and>
   rbind (UnixAddress_new (CHR 0x00 # ''ab'')) getPath = Inr ([CHR 0x5C, CHR ''0''] @ ''ab'')"
  using unix_path_round_trip [of "''/tmp/s''"] unix_path_round_trip [of "CHR 0x00 # ''ab''"] by simp

text \<open>An address made from an empty path prints as an abstract name.\<close>

lemma unix_empty_path: "rbind (UnixAddress_new []) getPath = Inr [CHR 0x5C, CHR ''0'']"
  by (simp add: UnixAddress_new_def getPath_def Let_def SUN_PATH_SIZE_def read_mem_def)

section \<open>IPv6 prefixes\<close>

lemma CreateMask8_eq: "CreateMask8 (p mod 8) = Inr (mask (8 - unat p mod 8))"
proof -
  obtain n where n: "uint (p mod 8) = int n" "n = unat p mod 8" "n < 8"
  proof
    show "uint (p mod 8) = int (unat (p mod 8))" by (rule uint_nat)
    show "unat (p mod 8) = unat p mod 8" by (simp add: unat_mod)
    then show "unat (p mod 8) < 8" by simp
  qed
  have "nat (8 - int n) = 8 - n" by simp
  then show ?thesis
    using n(3) by (simp add: CreateMask8_def CreateMask_int_def Let_def n(1) n(2) [symmetric] mask_eq_exp_minus_1)
qed

lemma ipv6_prefix_128:
  "128 \<le> p \<Longrightarrow> IPv6_subnetMask p = Inl (Undefined ''s6_addr[prefix_len / 8]'') \<and>
     IPv6_broadcastAddress p a = Inl (Undefined ''s6_addr[prefix_len / 8]'') \<and>
     IPv6_networdAddress p a = Inl (Undefined ''s6_addr[prefix_len / 8]'')"
  by (auto simp: IPv6_subnetMask_def IPv6_broadcastAddress_def IPv6_networdAddress_def s6_at_def Let_def
      unat_div word_le_nat_alt)

lemma CountBytes8:
  "CountBytes (0xff :: u8) = 8" "k \<le> 8 \<Longrightarrow> CountBytes (NOT (mask (8 - k)) :: u8) = of_nat k" "CountBytes (0 :: u8) = 0"
proof -
  have ff: "(0xff :: u8) = -1" by simp
  have bits: "{n. bit (-1 :: u8) n} = {0..<8}" by (auto simp: bit_simps)
  show "CountBytes (0xff :: u8) = 8" unfolding ff CountBytes_def CountBytes_loop_popcount popcount_def bits by simp
  have "{n. bit (NOT (mask (8 - k)) :: u8) n} = {8 - k..<8}" by (auto simp: bit_simps)
  then show "k \<le> 8 \<Longrightarrow> CountBytes (NOT (mask (8 - k)) :: u8) = of_nat k"
    by (simp add: CountBytes_def CountBytes_loop_popcount popcount_def)
  show "CountBytes (0 :: u8) = 0" by (simp add: CountBytes_def CountBytes_loop_popcount popcount_def)
qed

lemma getAddr_in6: "length (sin6_addr x) = 16 \<Longrightarrow> sockaddr_in6_of (getAddr (IPv6Address x)) = x"
  by (simp add: sockaddr_in6_of_def getAddr_def)

text \<open>The prefix length that \<open>GetInterfaceAddresses\<close> reads off an IPv6 netmask is the one the mask was
  made for.\<close>

lemma ipv6_prefix_round_trip:
  assumes "p < 128"
  shows "\<exists>s. IPv6_subnetMask p = Inr s \<and> netmask_prefix6 (getAddr (IPv6Address s)) = Inr p"
proof -
  let ?i = "unat p div 8" and ?m = "NOT (mask (8 - unat p mod 8)) :: u8"
  have i: "?i < 16" using assms by (simp add: word_less_nat_alt)
  let ?a = "replicate ?i 0xff @ ?m # replicate (15 - ?i) 0"
  have a: "replicate ?i 0xff @ drop ?i ((replicate 16 0)[?i := ?m]) = ?a"
  proof -
    have "replicate 16 (0 :: u8) = replicate ?i 0 @ 0 # replicate (15 - ?i) 0"
      using i by (simp flip: replicate_add replicate_Suc)
    then show ?thesis by (simp add: list_update_append)
  qed
  define s where "s = IPv6Address_default\<lparr>sin6_addr := ?a\<rparr>"
  have "IPv6_subnetMask p = Inr s"
    using i by (simp add: IPv6_subnetMask_def Let_def unat_div s6_at_def CreateMask8_eq a s_def)
  moreover have len: "length (sin6_addr s) = 16" using i by (simp add: s_def)
  then have "sin6_addr (sockaddr_in6_of (getAddr (IPv6Address s))) = ?a" "length (getAddr (IPv6Address s)) = 28"
    using getAddr_in6 [OF len] by (simp add: s_def, simp add: getAddr_def len)
  moreover have "(\<Sum>b \<leftarrow> ?a. CountBytes b) = p"
  proof -
    have "(\<Sum>b \<leftarrow> ?a. CountBytes b) = of_nat (?i * 8 + unat p mod 8)"
      unfolding of_nat_add of_nat_mult using CountBytes8(1) by (simp add: CountBytes8(2,3) sum_list_replicate del: of_nat_mod)
    also have "\<dots> = of_nat (unat p)" by (metis div_mult_mod_eq)
    finally show ?thesis by simp
  qed
  ultimately show ?thesis by (simp add: netmask_prefix6_def read_mem_def)
qed

text \<open>\<open>IPv4Address::Create\<close> accepts what \<open>inet_pton\<close> rejects with 0 and returns the address 0.0.0.0.\<close>

lemma ipv4_create_accepts_invalid:
  "pton addr = (0, v) \<Longrightarrow> \<exists>a. IPv4Address_Create pton addr port = Some a \<and> sin_addr a = 0"
  by (simp add: IPv4Address_Create_def IPv4Address_new_def byteswap32_def bytes32_def read32_def)

lemma port_round_trip: "is_ip a \<Longrightarrow> getPort (setPort v a) = Some (ucast v)"
  by (auto simp: getPort_def setPort_def is_ip_def split: address.splits)

lemma interface_null_address:
  "ifa_addr x = None \<Longrightarrow> interface_entry family x = Inl (Undefined ''null pointer'')"
  by (simp add: interface_entry_def deref_def)

end
