(* ===== verification/Socket.thy ===== *)
theory Socket
  imports Hook Address
begin

text \<open>
  Sockets (\<open>sylar/socket.h\<close>, \<open>sylar/socket.cpp\<close>): objects that own a descriptor, on top of the hooked
  system calls, the table of descriptors, the event loop and the addresses. What the kernel answers is an
  argument, as functions of the set of descriptors the process has open; \<open>nt_open\<close> is that set, and
  \<open>nt_unlinked\<close> the paths removed from the file system. A call that suspends its fiber is one step here: its
  answer is the one it returns with after it is resumed. Log messages are left out.
\<close>

section \<open>State\<close>

abbreviation (input) SOCK_STREAM :: int where "SOCK_STREAM \<equiv> 1"
abbreviation (input) SOCK_DGRAM :: int where "SOCK_DGRAM \<equiv> 2"
abbreviation (input) IPPROTO_TCP :: int where "IPPROTO_TCP \<equiv> 6"
abbreviation (input) TCP_NODELAY :: int where "TCP_NODELAY \<equiv> 1"
abbreviation (input) SO_REUSEADDR :: int where "SO_REUSEADDR \<equiv> 2"
abbreviation (input) SO_ERROR :: int where "SO_ERROR \<equiv> 4"

record socket =
  sk_sock :: int
  sk_family :: int
  sk_type :: int
  sk_protocol :: int
  sk_isConnected :: bool
  sk_local :: "address option"
  sk_remote :: "address option"

record 'k net =
  nt_fds :: fd_table
  nt_kernel :: 'k
  nt_iom :: "iomanager option"
  nt_open :: "int set"
  nt_unlinked :: "string list"

text \<open>The host: whether the hooks are on, the system calls underneath, the faults of \<open>epoll_ctl\<close>, and the
  answers. \<open>None\<close> as the timeout of \<open>ho_connect\<close> is the call without one; \<open>ho_peername\<close> and \<open>ho_sockname\<close>
  give the bytes and the length the kernel wants to store.\<close>

record 'k host =
  ho_hook :: bool
  ho_libc :: "'k libc"
  ho_fault :: "ctl_op \<Rightarrow> int \<Rightarrow> bool"
  ho_socket :: "int set \<Rightarrow> int"
  ho_accept :: "int set \<Rightarrow> int"
  ho_option :: "int \<Rightarrow> int \<Rightarrow> bool"
  ho_connect :: "u64 option \<Rightarrow> int \<Rightarrow> bool"
  ho_bind :: "int \<Rightarrow> bool"
  ho_listen :: "int \<Rightarrow> bool"
  ho_peername :: "int \<Rightarrow> (u8 list \<times> u32) option"
  ho_sockname :: "int \<Rightarrow> (u8 list \<times> u32) option"

section \<open>System calls\<close>

definition sys_socket :: "'k host \<Rightarrow> 'k net \<Rightarrow> (int \<times> 'k net) result" where
  "sys_socket h n =
     rbind (hook_socket (ho_hook h) (ho_libc h) (ho_socket h (nt_open n)) (nt_fds n) (nt_kernel n)) (\<lambda>(fd, ds, k).
     Inr (fd, n\<lparr>nt_fds := ds, nt_kernel := k, nt_open := (if fd = -1 then nt_open n else insert fd (nt_open n))\<rparr>))"

definition sys_accept :: "'k host \<Rightarrow> 'k net \<Rightarrow> (int \<times> 'k net) result" where
  "sys_accept h n =
     rbind (accept_done (ho_libc h) (ho_accept h (nt_open n)) (nt_fds n) (nt_kernel n)) (\<lambda>(fd, ds, k).
     Inr (fd, n\<lparr>nt_fds := ds, nt_kernel := k, nt_open := (if fd = -1 then nt_open n else insert fd (nt_open n))\<rparr>))"

definition sys_close :: "'k host \<Rightarrow> int \<Rightarrow> 'k net \<Rightarrow> 'k net result" where
  "sys_close h fd n =
     rbind (hook_close (ho_hook h) (ho_libc h) (ho_fault h) fd (nt_fds n) (nt_kernel n) (nt_iom n)) (\<lambda>(ds, iom).
     Inr (n\<lparr>nt_fds := ds, nt_iom := iom, nt_open := nt_open n - {fd}\<rparr>))"

section \<open>Options\<close>

definition Socket_setOption :: "'k host \<Rightarrow> int \<Rightarrow> int \<Rightarrow> int \<times> int \<Rightarrow> socket \<Rightarrow> 'k net \<Rightarrow> (bool \<times> 'k net) result" where
  "Socket_setOption h level option val s n =
     rbind (hook_setsockopt (ho_hook h) (ho_libc h) (sk_sock s) level option val (nt_fds n) (nt_kernel n)) (\<lambda>ds.
     Inr (ho_option h level option, n\<lparr>nt_fds := ds\<rparr>))"

text \<open>\<open>getsockopt\<close> answers with a value or fails.\<close>

definition Socket_getOption :: "(int \<Rightarrow> int \<Rightarrow> int \<Rightarrow> 'v option) \<Rightarrow> int \<Rightarrow> int \<Rightarrow> socket \<Rightarrow> 'v option" where
  "Socket_getOption getsockopt level option s = getsockopt (sk_sock s) level option"

definition Socket_getError :: "(int \<Rightarrow> int \<Rightarrow> int \<Rightarrow> int option) \<Rightarrow> int \<Rightarrow> socket \<Rightarrow> int" where
  "Socket_getError getsockopt errno s =
     (case Socket_getOption getsockopt SOL_SOCKET SO_ERROR s of None \<Rightarrow> errno | Some error \<Rightarrow> error)"

definition Socket_getTimeout :: "'k host \<Rightarrow> int \<Rightarrow> socket \<Rightarrow> 'k net \<Rightarrow> int result" where
  "Socket_getTimeout h option s n =
     rbind (FdManager_get (ho_libc h) (sk_sock s) False (nt_fds n) (nt_kernel n)) (\<lambda>(ctx, ds, k).
     Inr (case ctx of None \<Rightarrow> -1 | Some c \<Rightarrow> sint (FdCtx_getTimeout option c)))"

definition Socket_getSendTimeout :: "'k host \<Rightarrow> socket \<Rightarrow> 'k net \<Rightarrow> int result" where
  "Socket_getSendTimeout h = Socket_getTimeout h SO_SNDTIMEO"

definition Socket_getRecvTimeout :: "'k host \<Rightarrow> socket \<Rightarrow> 'k net \<Rightarrow> int result" where
  "Socket_getRecvTimeout h = Socket_getTimeout h SO_RCVTIMEO"

text \<open>Both members of the \<open>timeval\<close> are converted to \<open>int\<close>.\<close>

definition to_int32 :: "int \<Rightarrow> int" where
  "to_int32 x = sint (word_of_int x :: u32)"

definition ms_timeval :: "int \<Rightarrow> int \<times> int" where
  "ms_timeval v = (to_int32 (c_div v 1000), to_int32 (c_mod v 1000 * 1000))"

definition Socket_setSendTimeout :: "'k host \<Rightarrow> int \<Rightarrow> socket \<Rightarrow> 'k net \<Rightarrow> 'k net result" where
  "Socket_setSendTimeout h v s n =
     rbind (Socket_setOption h SOL_SOCKET SO_SNDTIMEO (ms_timeval v) s n) (\<lambda>(b, n1). Inr n1)"

definition Socket_setRecvTimeout :: "'k host \<Rightarrow> int \<Rightarrow> socket \<Rightarrow> 'k net \<Rightarrow> 'k net result" where
  "Socket_setRecvTimeout h v s n =
     rbind (Socket_setOption h SOL_SOCKET SO_RCVTIMEO (ms_timeval v) s n) (\<lambda>(b, n1). Inr n1)"

section \<open>Addresses of a socket\<close>

definition UnknownAddress_new :: "int \<Rightarrow> address" where
  "UnknownAddress_new family = UnknownAddress \<lparr>sa_family = word_of_int family, sa_data = replicate 14 0\<rparr>"

definition blank_address :: "int \<Rightarrow> address" where
  "blank_address family =
     (if family = uint AF_INET then IPv4Address (IPv4Address_new 0 0)
      else if family = uint AF_INET6 then IPv6Address IPv6Address_default
      else if family = uint AF_UNIX then UnixAddress (fst UnixAddress_default) (snd UnixAddress_default)
      else UnknownAddress_new family)"

text \<open>The kernel stores at most as many bytes as it was told the object has.\<close>

definition fill_address :: "u8 list \<Rightarrow> address \<Rightarrow> address" where
  "fill_address bytes a =
     (let bs = take (unat (getAddrLen a)) bytes; m = bs @ drop (length bs) (getAddr a) in
      case a of
        IPv4Address x \<Rightarrow> IPv4Address (sockaddr_in_of m)
      | IPv6Address x \<Rightarrow> IPv6Address (sockaddr_in6_of m)
      | UnixAddress x l \<Rightarrow> UnixAddress \<lparr>sun_family = read16 m, sun_path = drop 2 m\<rparr> l
      | UnknownAddress x \<Rightarrow> UnknownAddress (sockaddr_of m))"

definition stored_address :: "int \<Rightarrow> u8 list \<times> u32 \<Rightarrow> address" where
  "stored_address family ans =
     (let result = fill_address (fst ans) (blank_address family) in
      if family = uint AF_UNIX
      then (case result of
              UnixAddress x l \<Rightarrow> (let (y, l') = setAddrLen (snd ans) (x, l) in UnixAddress y l')
            | a \<Rightarrow> a)
      else result)"

definition Socket_getRemoteAddress :: "'k host \<Rightarrow> socket \<Rightarrow> address \<times> socket" where
  "Socket_getRemoteAddress h s =
     (case sk_remote s of
        Some a \<Rightarrow> (a, s)
      | None \<Rightarrow>
          (case ho_peername h (sk_sock s) of
             None \<Rightarrow> (UnknownAddress_new (sk_family s), s)
           | Some ans \<Rightarrow> let a = stored_address (sk_family s) ans in (a, s\<lparr>sk_remote := Some a\<rparr>)))"

definition Socket_getLocalAddress :: "'k host \<Rightarrow> socket \<Rightarrow> address \<times> socket" where
  "Socket_getLocalAddress h s =
     (case sk_local s of
        Some a \<Rightarrow> (a, s)
      | None \<Rightarrow>
          (case ho_sockname h (sk_sock s) of
             None \<Rightarrow> (UnknownAddress_new (sk_family s), s)
           | Some ans \<Rightarrow> let a = stored_address (sk_family s) ans in (a, s\<lparr>sk_local := Some a\<rparr>)))"

section \<open>Life cycle\<close>

definition Socket_new :: "int \<Rightarrow> int \<Rightarrow> int \<Rightarrow> socket" where
  "Socket_new family type protocol =
     \<lparr>sk_sock = -1, sk_family = family, sk_type = type, sk_protocol = protocol, sk_isConnected = False,
      sk_local = None, sk_remote = None\<rparr>"

definition Socket_isValid :: "socket \<Rightarrow> bool" where
  "Socket_isValid s \<longleftrightarrow> sk_sock s \<noteq> -1"

definition Socket_initSock :: "'k host \<Rightarrow> socket \<Rightarrow> 'k net \<Rightarrow> 'k net result" where
  "Socket_initSock h s n =
     rbind (Socket_setOption h SOL_SOCKET SO_REUSEADDR (1, 0) s n) (\<lambda>(b, n1).
     if sk_type s = SOCK_STREAM
     then rbind (Socket_setOption h IPPROTO_TCP TCP_NODELAY (1, 0) s n1) (\<lambda>(b, n2). Inr n2)
     else Inr n1)"

definition Socket_newSock :: "'k host \<Rightarrow> socket \<Rightarrow> 'k net \<Rightarrow> (socket \<times> 'k net) result" where
  "Socket_newSock h s n =
     rbind (sys_socket h n) (\<lambda>(fd, n1).
     let s1 = s\<lparr>sk_sock := fd\<rparr> in
     if fd \<noteq> -1 then rbind (Socket_initSock h s1 n1) (\<lambda>n2. Inr (s1, n2)) else Inr (s1, n1))"

definition Socket_CreateTCP :: "address \<Rightarrow> socket" where
  "Socket_CreateTCP address = Socket_new (uint (getFamily address)) SOCK_STREAM 0"

text \<open>The creators of UDP sockets, but for the Unix one, open a descriptor and mark the socket as connected.\<close>

definition create_udp :: "'k host \<Rightarrow> int \<Rightarrow> 'k net \<Rightarrow> (socket \<times> 'k net) result" where
  "create_udp h family n =
     rbind (Socket_newSock h (Socket_new family SOCK_DGRAM 0) n) (\<lambda>(s, n1). Inr (s\<lparr>sk_isConnected := True\<rparr>, n1))"

definition Socket_CreateUDP :: "'k host \<Rightarrow> address \<Rightarrow> 'k net \<Rightarrow> (socket \<times> 'k net) result" where
  "Socket_CreateUDP h address = create_udp h (uint (getFamily address))"

definition Socket_CreateTCPSocket :: socket where "Socket_CreateTCPSocket = Socket_new (uint AF_INET) SOCK_STREAM 0"

definition Socket_CreateUDPSocket :: "'k host \<Rightarrow> 'k net \<Rightarrow> (socket \<times> 'k net) result" where
  "Socket_CreateUDPSocket h = create_udp h (uint AF_INET)"

definition Socket_CreateTCPSocket6 :: socket where "Socket_CreateTCPSocket6 = Socket_new (uint AF_INET6) SOCK_STREAM 0"

definition Socket_CreateUDPSocket6 :: "'k host \<Rightarrow> 'k net \<Rightarrow> (socket \<times> 'k net) result" where
  "Socket_CreateUDPSocket6 h = create_udp h (uint AF_INET6)"

definition Socket_CreateUnixTCPSocket :: socket where "Socket_CreateUnixTCPSocket = Socket_new (uint AF_UNIX) SOCK_STREAM 0"

definition Socket_CreateUnixUDPSocket :: socket where "Socket_CreateUnixUDPSocket = Socket_new (uint AF_UNIX) SOCK_DGRAM 0"

definition Socket_close :: "'k host \<Rightarrow> socket \<Rightarrow> 'k net \<Rightarrow> (bool \<times> socket \<times> 'k net) result" where
  "Socket_close h s n =
     (if \<not> sk_isConnected s \<and> sk_sock s = -1 then Inr (True, s, n)
      else
        let s1 = s\<lparr>sk_isConnected := False\<rparr> in
        if sk_sock s1 \<noteq> -1
        then rbind (sys_close h (sk_sock s1) n) (\<lambda>n1. Inr (False, s1\<lparr>sk_sock := -1\<rparr>, n1))
        else Inr (False, s1, n))"

text \<open>The destructor closes.\<close>

definition Socket_destroy :: "'k host \<Rightarrow> socket \<Rightarrow> 'k net \<Rightarrow> 'k net result" where
  "Socket_destroy h s n = rbind (Socket_close h s n) (\<lambda>(b, s1, n1). Inr n1)"

definition Socket_init :: "'k host \<Rightarrow> int \<Rightarrow> socket \<Rightarrow> 'k net \<Rightarrow> (bool \<times> socket \<times> 'k net) result" where
  "Socket_init h sock s n =
     rbind (FdManager_get (ho_libc h) sock False (nt_fds n) (nt_kernel n)) (\<lambda>(ctx, ds, k).
     case ctx of
       None \<Rightarrow> Inr (False, s, n)
     | Some c \<Rightarrow>
         if fx_isSocket c \<and> \<not> fx_isClosed c then
           let s1 = s\<lparr>sk_sock := sock, sk_isConnected := True\<rparr> in
           rbind (Socket_initSock h s1 n) (\<lambda>n1.
           Inr (True, snd (Socket_getRemoteAddress h (snd (Socket_getLocalAddress h s1))), n1))
         else Inr (False, s, n))"

text \<open>A refused socket is dropped, and its destructor runs.\<close>

definition Socket_accept :: "'k host \<Rightarrow> socket \<Rightarrow> 'k net \<Rightarrow> (socket option \<times> 'k net) result" where
  "Socket_accept h s n =
     rbind (sys_accept h n) (\<lambda>(newsock, n1).
     if newsock = -1 then Inr (None, n1)
     else
       rbind (Socket_init h newsock (Socket_new (sk_family s) (sk_type s) (sk_protocol s)) n1) (\<lambda>(b, sock, n2).
       if b then Inr (Some sock, n2)
       else rbind (Socket_destroy h sock n2) (\<lambda>n3. Inr (None, n3))))"

definition ensure_sock :: "'k host \<Rightarrow> socket \<Rightarrow> 'k net \<Rightarrow> (socket \<times> 'k net) result" where
  "ensure_sock h s n = (if \<not> Socket_isValid s then Socket_newSock h s n else Inr (s, n))"

text \<open>A timeout of \<open>(uint64_t)-1\<close> is none.\<close>

definition Socket_connect :: "'k host \<Rightarrow> address \<Rightarrow> u64 \<Rightarrow> socket \<Rightarrow> 'k net \<Rightarrow> (bool \<times> socket \<times> 'k net) result" where
  "Socket_connect h addr timeout_ms s n =
     rbind (ensure_sock h (s\<lparr>sk_remote := Some addr\<rparr>) n) (\<lambda>(s1, n1).
     if \<not> Socket_isValid s1 then Inr (False, s1, n1)
     else if uint (getFamily addr) \<noteq> sk_family s1 then Inr (False, s1, n1)
     else if \<not> ho_connect h (if timeout_ms = - 1 then None else Some timeout_ms) (sk_sock s1)
     then rbind (Socket_close h s1 n1) (\<lambda>(b, s2, n2). Inr (False, s2, n2))
     else
       let s2 = s1\<lparr>sk_isConnected := True\<rparr>
       in Inr (True, snd (Socket_getLocalAddress h (snd (Socket_getRemoteAddress h s2))), n1))"

definition Socket_reconnect :: "'k host \<Rightarrow> u64 \<Rightarrow> socket \<Rightarrow> 'k net \<Rightarrow> (bool \<times> socket \<times> 'k net) result" where
  "Socket_reconnect h timeout_ms s n =
     (case sk_remote s of
        None \<Rightarrow> Inr (False, s, n)
      | Some addr \<Rightarrow> Socket_connect h addr timeout_ms (s\<lparr>sk_local := None\<rparr>) n)"

text \<open>Binding to a Unix address: when somebody accepts connections on it, binding fails, and else the file is
  removed. \<open>probe\<close> answers the calls of the socket made for the test.\<close>

definition unix_probe :: "'k host \<Rightarrow> sockaddr_un \<times> u32 \<Rightarrow> 'k net \<Rightarrow> (bool \<times> 'k net) result" where
  "unix_probe probe uaddr n =
     rbind (Socket_connect probe (UnixAddress (fst uaddr) (snd uaddr)) (- 1) Socket_CreateUnixTCPSocket n) (\<lambda>(b, sock, n1).
     rbind (if b then Inr n1
            else rbind (getPath uaddr) (\<lambda>path. Inr (n1\<lparr>nt_unlinked := nt_unlinked n1 @ [path]\<rparr>))) (\<lambda>n2.
     rbind (Socket_destroy probe sock n2) (\<lambda>n3. Inr (b, n3))))"

definition Socket_bind :: "'k host \<Rightarrow> 'k host \<Rightarrow> address \<Rightarrow> socket \<Rightarrow> 'k net \<Rightarrow> (bool \<times> socket \<times> 'k net) result" where
  "Socket_bind h probe addr s n =
     rbind (ensure_sock h s n) (\<lambda>(s1, n1).
     if \<not> Socket_isValid s1 then Inr (False, s1, n1)
     else if uint (getFamily addr) \<noteq> sk_family s1 then Inr (False, s1, n1)
     else
       rbind (case addr of UnixAddress x l \<Rightarrow> unix_probe probe (x, l) n1 | _ \<Rightarrow> Inr (False, n1)) (\<lambda>(used, n2).
       if used then Inr (False, s1, n2)
       else if \<not> ho_bind h (sk_sock s1) then Inr (False, s1, n2)
       else Inr (True, snd (Socket_getLocalAddress h s1), n2)))"

definition Socket_listen :: "'k host \<Rightarrow> socket \<Rightarrow> 'k net \<Rightarrow> (bool \<times> socket \<times> 'k net) result" where
  "Socket_listen h s n =
     (if \<not> Socket_isValid s then Inr (False, s, n) else Inr (ho_listen h (sk_sock s), s, n))"

section \<open>Transfers\<close>

text \<open>The original calls with their arguments; \<open>io fd\<close> is what the hooked call returns. Buffers are byte lists
  of their lengths, and a message header has the vector of buffers and the address, if there is one.\<close>

record msghdr =
  mh_iov :: "u8 list list"
  mh_name :: "address option"

datatype transfer =
    Tr_send "u8 list" int
  | Tr_sendmsg msghdr int
  | Tr_sendto "u8 list" int address
  | Tr_recv nat int
  | Tr_recvmsg "nat list" "address option" int
  | Tr_recvfrom nat int address

definition if_connected :: "(int \<Rightarrow> transfer \<Rightarrow> int) \<Rightarrow> transfer \<Rightarrow> socket \<Rightarrow> int" where
  "if_connected io t s = (if sk_isConnected s then io (sk_sock s) t else -1)"

definition Socket_send :: "(int \<Rightarrow> transfer \<Rightarrow> int) \<Rightarrow> u8 list \<Rightarrow> int \<Rightarrow> socket \<Rightarrow> int" where
  "Socket_send io buffer flags = if_connected io (Tr_send buffer flags)"

definition Socket_send_iov :: "(int \<Rightarrow> transfer \<Rightarrow> int) \<Rightarrow> u8 list list \<Rightarrow> int \<Rightarrow> socket \<Rightarrow> int" where
  "Socket_send_iov io buffers flags = if_connected io (Tr_sendmsg \<lparr>mh_iov = buffers, mh_name = None\<rparr> flags)"

definition Socket_sendTo :: "(int \<Rightarrow> transfer \<Rightarrow> int) \<Rightarrow> u8 list \<Rightarrow> address \<Rightarrow> int \<Rightarrow> socket \<Rightarrow> int" where
  "Socket_sendTo io buffer to flags = if_connected io (Tr_sendto buffer flags to)"

definition Socket_sendTo_iov :: "(int \<Rightarrow> transfer \<Rightarrow> int) \<Rightarrow> u8 list list \<Rightarrow> address \<Rightarrow> int \<Rightarrow> socket \<Rightarrow> int" where
  "Socket_sendTo_iov io buffers to flags = if_connected io (Tr_sendmsg \<lparr>mh_iov = buffers, mh_name = Some to\<rparr> flags)"

definition Socket_recv :: "(int \<Rightarrow> transfer \<Rightarrow> int) \<Rightarrow> nat \<Rightarrow> int \<Rightarrow> socket \<Rightarrow> int" where
  "Socket_recv io len flags = if_connected io (Tr_recv len flags)"

definition Socket_recv_iov :: "(int \<Rightarrow> transfer \<Rightarrow> int) \<Rightarrow> nat list \<Rightarrow> int \<Rightarrow> socket \<Rightarrow> int" where
  "Socket_recv_iov io lens flags = if_connected io (Tr_recvmsg lens None flags)"

definition Socket_recvFrom :: "(int \<Rightarrow> transfer \<Rightarrow> int) \<Rightarrow> nat \<Rightarrow> address \<Rightarrow> int \<Rightarrow> socket \<Rightarrow> int" where
  "Socket_recvFrom io len sender flags = if_connected io (Tr_recvfrom len flags sender)"

definition Socket_recvFrom_iov :: "(int \<Rightarrow> transfer \<Rightarrow> int) \<Rightarrow> nat list \<Rightarrow> address \<Rightarrow> int \<Rightarrow> socket \<Rightarrow> int" where
  "Socket_recvFrom_iov io lens sender flags = if_connected io (Tr_recvmsg lens (Some sender) flags)"

section \<open>Cancelling and printing\<close>

definition with_iom :: "(iomanager \<Rightarrow> (bool \<times> iomanager) result) \<Rightarrow> 'k net \<Rightarrow> (bool \<times> 'k net) result" where
  "with_iom f n =
     (case nt_iom n of
        None \<Rightarrow> Inl (Undefined ''IOManager::GetThis()'')
      | Some io \<Rightarrow> rbind (f io) (\<lambda>(b, io1). Inr (b, n\<lparr>nt_iom := Some io1\<rparr>)))"

definition Socket_cancelRead :: "'k host \<Rightarrow> socket \<Rightarrow> 'k net \<Rightarrow> (bool \<times> 'k net) result" where
  "Socket_cancelRead h s = with_iom (IOManager_cancelEvent (ho_fault h) (sk_sock s) READ)"

definition Socket_cancelWrite :: "'k host \<Rightarrow> socket \<Rightarrow> 'k net \<Rightarrow> (bool \<times> 'k net) result" where
  "Socket_cancelWrite h s = with_iom (IOManager_cancelEvent (ho_fault h) (sk_sock s) WRITE)"

definition Socket_cancelAccept :: "'k host \<Rightarrow> socket \<Rightarrow> 'k net \<Rightarrow> (bool \<times> 'k net) result" where
  "Socket_cancelAccept h s = with_iom (IOManager_cancelEvent (ho_fault h) (sk_sock s) READ)"

definition Socket_cancelAll :: "'k host \<Rightarrow> socket \<Rightarrow> 'k net \<Rightarrow> (bool \<times> 'k net) result" where
  "Socket_cancelAll h s = with_iom (IOManager_cancelAll (ho_fault h) (sk_sock s))"

definition show_address :: "string \<Rightarrow> address option \<Rightarrow> string result" where
  "show_address label a =
     (case a of None \<Rightarrow> Inr [] | Some x \<Rightarrow> rbind (Address_insert x) (\<lambda>t. Inr (label @ t)))"

definition dump_socket :: "string \<Rightarrow> socket \<Rightarrow> string result" where
  "dump_socket cls s =
     rbind (show_address '' local_address='' (sk_local s)) (\<lambda>l.
     rbind (show_address '' remote_address='' (sk_remote s)) (\<lambda>r.
     Inr (''['' @ cls @ '' sock='' @ show_int (sk_sock s) @ '' is_connected='' @ (if sk_isConnected s then ''1'' else ''0'') @
       '' family='' @ show_int (sk_family s) @ '' type='' @ show_int (sk_type s) @
       '' protocol='' @ show_int (sk_protocol s) @ l @ r @ '']'')))"

definition Socket_dump :: "socket \<Rightarrow> string result" where
  "Socket_dump = dump_socket ''Socket''"

section \<open>SSL sockets\<close>

text \<open>A socket with a context and a session; the library's answers are arguments. \<open>None\<close> as \<open>ssl_\<close> is a null
  pointer. Creating a session from a null context is left to \<open>new_session\<close>, \<open>None\<close> when it fails.\<close>

record ssl_socket =
  ss_base :: socket
  ss_ctx :: "nat option"
  ss_ssl :: "nat option"

record ssl_lib =
  sl_new_ctx :: "nat option"
  sl_new_session :: "nat option \<Rightarrow> nat option"
  sl_connect :: "nat option \<Rightarrow> int \<Rightarrow> int"
  sl_accept :: "nat option \<Rightarrow> int \<Rightarrow> int"

definition SSLSocket_new :: "int \<Rightarrow> int \<Rightarrow> int \<Rightarrow> ssl_socket" where
  "SSLSocket_new family type protocol = \<lparr>ss_base = Socket_new family type protocol, ss_ctx = None, ss_ssl = None\<rparr>"

definition SSLSocket_connect :: "ssl_lib \<Rightarrow> 'k host \<Rightarrow> address \<Rightarrow> u64 \<Rightarrow> ssl_socket \<Rightarrow> 'k net \<Rightarrow>
    (bool \<times> ssl_socket \<times> 'k net) result" where
  "SSLSocket_connect lib h addr timeout_ms t n =
     rbind (Socket_connect h addr timeout_ms (ss_base t) n) (\<lambda>(v, s1, n1).
     if v then
       let ctx = sl_new_ctx lib; ssl = sl_new_session lib ctx
       in Inr (sl_connect lib ssl (sk_sock s1) = 1, \<lparr>ss_base = s1, ss_ctx = ctx, ss_ssl = ssl\<rparr>, n1)
     else Inr (False, t\<lparr>ss_base := s1\<rparr>, n1))"

definition SSLSocket_init :: "ssl_lib \<Rightarrow> 'k host \<Rightarrow> int \<Rightarrow> ssl_socket \<Rightarrow> 'k net \<Rightarrow> (bool \<times> ssl_socket \<times> 'k net) result" where
  "SSLSocket_init lib h sock t n =
     rbind (Socket_init h sock (ss_base t) n) (\<lambda>(v, s1, n1).
     if v then
       let ssl = sl_new_session lib (ss_ctx t)
       in Inr (sl_accept lib ssl (sk_sock s1) = 1, t\<lparr>ss_base := s1, ss_ssl := ssl\<rparr>, n1)
     else Inr (False, t\<lparr>ss_base := s1\<rparr>, n1))"

definition SSLSocket_accept :: "ssl_lib \<Rightarrow> 'k host \<Rightarrow> ssl_socket \<Rightarrow> 'k net \<Rightarrow> (ssl_socket option \<times> 'k net) result" where
  "SSLSocket_accept lib h t n =
     rbind (sys_accept h n) (\<lambda>(newsock, n1).
     if newsock = -1 then Inr (None, n1)
     else
       let s = ss_base t in
       rbind (SSLSocket_init lib h newsock ((SSLSocket_new (sk_family s) (sk_type s) (sk_protocol s))\<lparr>ss_ctx := ss_ctx t\<rparr>) n1)
         (\<lambda>(b, sock, n2).
       if b then Inr (Some sock, n2)
       else rbind (Socket_destroy h (ss_base sock) n2) (\<lambda>n3. Inr (None, n3))))"

definition SSLSocket_close :: "'k host \<Rightarrow> ssl_socket \<Rightarrow> 'k net \<Rightarrow> (bool \<times> ssl_socket \<times> 'k net) result" where
  "SSLSocket_close h t n = rbind (Socket_close h (ss_base t) n) (\<lambda>(b, s1, n1). Inr (b, t\<lparr>ss_base := s1\<rparr>, n1))"

text \<open>\<open>io i len\<close> is what the call \<open>i\<close> of \<open>SSL_write\<close> or \<open>SSL_read\<close> returns for a buffer of that length.\<close>

definition SSLSocket_io :: "(nat \<Rightarrow> nat \<Rightarrow> int) \<Rightarrow> nat \<Rightarrow> ssl_socket \<Rightarrow> int" where
  "SSLSocket_io io len t = (if ss_ssl t \<noteq> None then io 0 len else -1)"

fun ssl_iov_loop :: "(nat \<Rightarrow> nat \<Rightarrow> int) \<Rightarrow> nat \<Rightarrow> int \<Rightarrow> nat list \<Rightarrow> int result" where
  "ssl_iov_loop io i acc [] = Inr acc"
| "ssl_iov_loop io i acc (len # lens) =
     (let tmp = io i len in
      if tmp \<le> 0 then Inr tmp
      else if acc + tmp \<ge> 2 ^ 31 then Inl (Undefined ''total += tmp'')
      else if tmp \<noteq> to_int32 (int len) then Inr (acc + tmp)
      else ssl_iov_loop io (Suc i) (acc + tmp) lens)"

definition SSLSocket_io_iov :: "(nat \<Rightarrow> nat \<Rightarrow> int) \<Rightarrow> nat list \<Rightarrow> ssl_socket \<Rightarrow> int result" where
  "SSLSocket_io_iov io lens t = (if ss_ssl t = None then Inr (-1) else ssl_iov_loop io 0 0 lens)"

definition SSLSocket_send :: "(nat \<Rightarrow> nat \<Rightarrow> int) \<Rightarrow> u8 list \<Rightarrow> ssl_socket \<Rightarrow> int" where
  "SSLSocket_send ssl_write buffer = SSLSocket_io ssl_write (length buffer)"

definition SSLSocket_send_iov :: "(nat \<Rightarrow> nat \<Rightarrow> int) \<Rightarrow> u8 list list \<Rightarrow> ssl_socket \<Rightarrow> int result" where
  "SSLSocket_send_iov ssl_write buffers = SSLSocket_io_iov ssl_write (map length buffers)"

definition SSLSocket_recv :: "(nat \<Rightarrow> nat \<Rightarrow> int) \<Rightarrow> nat \<Rightarrow> ssl_socket \<Rightarrow> int" where
  "SSLSocket_recv ssl_read len = SSLSocket_io ssl_read len"

definition SSLSocket_recv_iov :: "(nat \<Rightarrow> nat \<Rightarrow> int) \<Rightarrow> nat list \<Rightarrow> ssl_socket \<Rightarrow> int result" where
  "SSLSocket_recv_iov ssl_read lens = SSLSocket_io_iov ssl_read lens"

definition SSLSocket_bind :: "'k host \<Rightarrow> 'k host \<Rightarrow> address \<Rightarrow> ssl_socket \<Rightarrow> 'k net \<Rightarrow> (bool \<times> ssl_socket \<times> 'k net) result" where
  "SSLSocket_bind h probe addr t n =
     rbind (Socket_bind h probe addr (ss_base t) n) (\<lambda>(b, s1, n1). Inr (b, t\<lparr>ss_base := s1\<rparr>, n1))"

definition SSLSocket_listen :: "'k host \<Rightarrow> ssl_socket \<Rightarrow> 'k net \<Rightarrow> (bool \<times> ssl_socket \<times> 'k net) result" where
  "SSLSocket_listen h t n = rbind (Socket_listen h (ss_base t) n) (\<lambda>(b, s1, n1). Inr (b, t\<lparr>ss_base := s1\<rparr>, n1))"

definition SSLSocket_CreateTCP :: "address \<Rightarrow> ssl_socket" where
  "SSLSocket_CreateTCP address = SSLSocket_new (uint (getFamily address)) SOCK_STREAM 0"

definition SSLSocket_CreateTCPSocket :: ssl_socket where
  "SSLSocket_CreateTCPSocket = SSLSocket_new (uint AF_INET) SOCK_STREAM 0"

definition SSLSocket_CreateTCPSocket6 :: ssl_socket where
  "SSLSocket_CreateTCPSocket6 = SSLSocket_new (uint AF_INET6) SOCK_STREAM 0"

text \<open>Datagrams are not for SSL: the four functions fail an assertion.\<close>

definition SSLSocket_datagram :: "ssl_socket \<Rightarrow> int result" where
  "SSLSocket_datagram t = rbind (sylar_assert False ''false'') (\<lambda>_. Inr (-1))"

definition SSLSocket_loadCertificates :: "nat option \<Rightarrow> (nat option \<Rightarrow> string \<Rightarrow> int) \<Rightarrow> (nat option \<Rightarrow> string \<Rightarrow> int) \<Rightarrow>
    (nat option \<Rightarrow> int) \<Rightarrow> string \<Rightarrow> string \<Rightarrow> ssl_socket \<Rightarrow> bool \<times> ssl_socket" where
  "SSLSocket_loadCertificates new_ctx use_chain use_key check cert_file key_file t =
     (let t1 = t\<lparr>ss_ctx := new_ctx\<rparr> in
      if use_chain (ss_ctx t1) cert_file \<noteq> 1 then (False, t1)
      else if use_key (ss_ctx t1) key_file \<noteq> 1 then (False, t1)
      else if check (ss_ctx t1) \<noteq> 1 then (False, t1)
      else (True, t1))"

definition SSLSocket_dump :: "ssl_socket \<Rightarrow> string result" where
  "SSLSocket_dump t = dump_socket ''SSLSocket'' (ss_base t)"

section \<open>Ownership of descriptors\<close>

text \<open>The kernel hands out descriptors that are not open.\<close>

definition fresh_law :: "'k host \<Rightarrow> bool" where
  "fresh_law h \<longleftrightarrow> (\<forall>fds. ho_socket h fds = -1 \<or> 0 \<le> ho_socket h fds \<and> ho_socket h fds \<notin> fds) \<and>
     (\<forall>fds. ho_accept h fds = -1 \<or> 0 \<le> ho_accept h fds \<and> ho_accept h fds \<notin> fds)"

definition net_ok :: "'k net \<Rightarrow> bool" where
  "net_ok n \<longleftrightarrow> table_ok (nt_fds n) \<and> (\<forall>fd \<in> nt_open n. 0 \<le> fd) \<and>
     (case nt_iom n of None \<Rightarrow> True | Some io \<Rightarrow> io_inv io)"

definition owned :: "socket \<Rightarrow> int set" where
  "owned s = (if sk_sock s = -1 then {} else {sk_sock s})"

definition sound :: "socket \<Rightarrow> 'k net \<Rightarrow> bool" where
  "sound s n \<longleftrightarrow> net_ok n \<and> owned s \<subseteq> nt_open n"

text \<open>An operation on a socket leaves the descriptors of others alone.\<close>

definition keeps :: "socket \<Rightarrow> 'k net \<Rightarrow> socket \<Rightarrow> 'k net \<Rightarrow> bool" where
  "keeps s n s' n' \<longleftrightarrow> sound s' n' \<and> nt_open n' - owned s' = nt_open n - owned s"

lemma keeps_refl: "sound s n \<Longrightarrow> keeps s n s n"
  by (simp add: keeps_def)

lemma keeps_trans: "keeps s n s1 n1 \<Longrightarrow> keeps s1 n1 s2 n2 \<Longrightarrow> keeps s n s2 n2"
  by (simp add: keeps_def)

lemma owned_cong: "sk_sock s' = sk_sock s \<Longrightarrow> owned s' = owned s"
  by (simp add: owned_def)

lemma keeps_cong: "sk_sock s' = sk_sock s2 \<Longrightarrow> keeps s n s2 n2 \<Longrightarrow> keeps s n s' n2"
  by (simp add: keeps_def sound_def owned_cong [of s' s2])

lemma keeps_cong_left: "sk_sock s = sk_sock s2 \<Longrightarrow> keeps s2 n s' n' \<Longrightarrow> keeps s n s' n'"
  by (simp add: keeps_def owned_cong [of s s2])

lemma sound_cong: "sk_sock s' = sk_sock s \<Longrightarrow> sound s n \<Longrightarrow> sound s' n"
  by (simp add: sound_def owned_cong [of s' s])

lemma owned_nonneg: "sound s n \<Longrightarrow> sk_sock s = -1 \<or> 0 \<le> sk_sock s"
  by (auto simp: sound_def net_ok_def owned_def split: if_splits)

lemma address_sock [simp]:
  "sk_sock (snd (Socket_getRemoteAddress h s)) = sk_sock s"
  "sk_sock (snd (Socket_getLocalAddress h s)) = sk_sock s"
  "sk_family (snd (Socket_getRemoteAddress h s)) = sk_family s"
  "sk_family (snd (Socket_getLocalAddress h s)) = sk_family s"
  "sk_isConnected (snd (Socket_getRemoteAddress h s)) = sk_isConnected s"
  "sk_isConnected (snd (Socket_getLocalAddress h s)) = sk_isConnected s"
  by (auto simp: Socket_getRemoteAddress_def Socket_getLocalAddress_def Let_def split: option.splits)

lemma hook_setsockopt_ok:
  assumes "table_ok ds" and "fd = -1 \<or> 0 \<le> fd"
  shows "\<exists>ds'. hook_setsockopt b lc fd level option tv ds k = Inr ds' \<and> table_ok ds'"
proof (cases "fd = -1")
  case True
  then show ?thesis using assms(1) by (simp add: hook_setsockopt_def FdManager_get_def Let_def)
next
  case False
  then have fd: "0 \<le> fd" using assms(2) by simp
  have "table_ok (set_ctx fd (FdCtx_setTimeout option v c) ds)" if "lookup_ctx fd ds = Some c" for c v
    using that assms(1) fd
    by (auto simp: set_ctx_def table_ok_def nth_list_update lookup_ctx_def FdCtx_setTimeout_def split: if_splits)
  then show ?thesis
    using assms(1) by (auto simp: hook_setsockopt_def FdManager_get_lookup [OF fd] split: option.splits)
qed

lemma setOption_ok:
  assumes "sound s n"
  shows "\<exists>b ds. Socket_setOption h level option val s n = Inr (b, n\<lparr>nt_fds := ds\<rparr>) \<and> table_ok ds"
proof -
  have "table_ok (nt_fds n)" using assms by (simp add: sound_def net_ok_def)
  from hook_setsockopt_ok [OF this owned_nonneg [OF assms], of "ho_hook h" "ho_libc h" level option val "nt_kernel n"]
  obtain ds where
    "hook_setsockopt (ho_hook h) (ho_libc h) (sk_sock s) level option val (nt_fds n) (nt_kernel n) = Inr ds" "table_ok ds"
    by blast
  then show ?thesis by (auto simp: Socket_setOption_def)
qed

lemma sound_fds: "sound s n \<Longrightarrow> table_ok ds \<Longrightarrow> sound s (n\<lparr>nt_fds := ds\<rparr>)"
  by (simp add: sound_def net_ok_def)

lemma initSock_ok:
  assumes "sound s n"
  shows "\<exists>ds. Socket_initSock h s n = Inr (n\<lparr>nt_fds := ds\<rparr>) \<and> table_ok ds"
proof -
  obtain b ds where 1: "Socket_setOption h SOL_SOCKET SO_REUSEADDR (1, 0) s n = Inr (b, n\<lparr>nt_fds := ds\<rparr>)" "table_ok ds"
    using setOption_ok [OF assms] by blast
  obtain b' ds' where "Socket_setOption h IPPROTO_TCP TCP_NODELAY (1, 0) s (n\<lparr>nt_fds := ds\<rparr>) =
      Inr (b', n\<lparr>nt_fds := ds, nt_fds := ds'\<rparr>)" "table_ok ds'"
    using setOption_ok [OF sound_fds [OF assms 1(2)]] by blast
  then show ?thesis using 1 by (auto simp: Socket_initSock_def)
qed

text \<open>The descriptor a socket gets from the kernel.\<close>

lemma new_fd_ok:
  assumes "net_ok n" and "0 \<le> fd" and "fd \<notin> nt_open n"
  shows "\<exists>c ds k. FdManager_get lc fd True (nt_fds n) (nt_kernel n) = Inr (Some c, ds, k) \<and> table_ok ds \<and>
    lookup_ctx fd ds = Some c \<and>
    net_ok (n\<lparr>nt_fds := ds, nt_kernel := k, nt_open := insert fd (nt_open n)\<rparr>)"
  using FdManager_get_create [of "nt_fds n" fd lc "nt_kernel n"] assms
  by (auto simp: net_ok_def split: option.splits)

lemma newSock_ok:
  assumes "fresh_law h" and "sound s n" and "sk_sock s = -1"
  shows "\<exists>s' n'. Socket_newSock h s n = Inr (s', n') \<and> keeps s n s' n' \<and> s' = s\<lparr>sk_sock := sk_sock s'\<rparr>"
proof (cases "ho_socket h (nt_open n) = -1")
  case True
  then have "Socket_newSock h s n = Inr (s\<lparr>sk_sock := -1\<rparr>, n)"
    by (simp add: Socket_newSock_def sys_socket_def hook_socket_def FdManager_get_def Let_def)
  then show ?thesis using assms(2,3) by (auto simp: keeps_def sound_def owned_def)
next
  case False
  let ?fd = "ho_socket h (nt_open n)"
  have fd: "0 \<le> ?fd" "?fd \<notin> nt_open n" using assms(1) False by (auto simp: fresh_law_def)
  have net: "net_ok n" using assms(2) by (simp add: sound_def)
  obtain n1 where n1: "sys_socket h n = Inr (?fd, n1)" "net_ok n1" "nt_open n1 = insert ?fd (nt_open n)"
  proof (cases "ho_hook h")
    case True
    from new_fd_ok [OF net fd, of "ho_libc h"] show thesis
      using True False by (auto simp: sys_socket_def hook_socket_def intro!: that)
  next
    case off: False
    show thesis
      by (rule that [of "n\<lparr>nt_open := insert ?fd (nt_open n)\<rparr>"])
        (use off False fd net in \<open>auto simp: sys_socket_def hook_socket_def net_ok_def\<close>)
  qed
  have snd1: "sound (s\<lparr>sk_sock := ?fd\<rparr>) n1" using n1 by (simp add: sound_def owned_def)
  obtain ds where ds: "Socket_initSock h (s\<lparr>sk_sock := ?fd\<rparr>) n1 = Inr (n1\<lparr>nt_fds := ds\<rparr>)" "table_ok ds"
    using initSock_ok [OF snd1] by blast
  have "Socket_newSock h s n = Inr (s\<lparr>sk_sock := ?fd\<rparr>, n1\<lparr>nt_fds := ds\<rparr>)"
    using n1(1) ds(1) False by (simp add: Socket_newSock_def Let_def)
  moreover have "keeps s n (s\<lparr>sk_sock := ?fd\<rparr>) (n1\<lparr>nt_fds := ds\<rparr>)"
    using sound_fds [OF snd1 ds(2)] n1(3) fd False assms(3) by (auto simp: keeps_def owned_def)
  ultimately show ?thesis by simp
qed

lemma ensure_ok:
  assumes "fresh_law h" and "sound s n"
  shows "\<exists>s' n'. ensure_sock h s n = Inr (s', n') \<and> keeps s n s' n' \<and> s' = s\<lparr>sk_sock := sk_sock s'\<rparr>"
  using newSock_ok [OF assms] keeps_refl [OF assms(2)] by (auto simp: ensure_sock_def Socket_isValid_def)

lemma cancelAll_inv:
  assumes "io_inv io" and "0 \<le> fd"
  shows "\<exists>b io'. IOManager_cancelAll fault fd io = Inr (b, io') \<and> io_inv io'"
proof -
  obtain b io' where r: "IOManager_cancelAll fault fd io = Inr (b, io')"
  proof (cases "fd < int (length (io_contexts io))")
    case True
    from context_at_Inr [OF assms True] obtain c where "context_at fd io = Inr c" by blast
    from cancelAll_cases [OF assms this, of fault] show thesis by (auto intro: that split: if_splits)
  qed (auto simp: IOManager_cancelAll_def intro: that)
  then show ?thesis using io_step_inv [OF io_step.cancel_all [OF assms(2) r] assms(1)] by blast
qed

lemma sys_close_ok:
  assumes "net_ok n" and "0 \<le> fd"
  shows "\<exists>n'. sys_close h fd n = Inr n' \<and> net_ok n' \<and> nt_open n' = nt_open n - {fd}"
proof -
  obtain iom where iom: "(case nt_iom n of None \<Rightarrow> Inr None
      | Some io \<Rightarrow> rbind (IOManager_cancelAll (ho_fault h) fd io) (\<lambda>(b, io1). Inr (Some io1))) = Inr iom"
      "case iom of None \<Rightarrow> True | Some io \<Rightarrow> io_inv io"
  proof (cases "nt_iom n")
    case (Some io)
    then have "io_inv io" using assms(1) by (simp add: net_ok_def)
    from cancelAll_inv [OF this assms(2), of "ho_fault h"] show thesis using Some by (auto intro!: that)
  qed (auto intro!: that)
  obtain ds where ds: "FdManager_del fd (nt_fds n) = Inr ds" "table_ok ds"
    using FdManager_del_lookup [OF assms(2), of "nt_fds n"] assms(1) by (auto simp: net_ok_def)
  have "\<exists>ds' iom'. hook_close (ho_hook h) (ho_libc h) (ho_fault h) fd (nt_fds n) (nt_kernel n) (nt_iom n) = Inr (ds', iom') \<and>
      table_ok ds' \<and> (case iom' of None \<Rightarrow> True | Some io \<Rightarrow> io_inv io)"
    using assms(1) iom ds by (simp add: hook_close_def FdManager_get_lookup [OF assms(2)] net_ok_def)
  then obtain ds' iom' where r: "hook_close (ho_hook h) (ho_libc h) (ho_fault h) fd (nt_fds n) (nt_kernel n) (nt_iom n) =
      Inr (ds', iom')" "table_ok ds'" "case iom' of None \<Rightarrow> True | Some io \<Rightarrow> io_inv io" by blast
  then show ?thesis using assms(1) by (auto simp: sys_close_def net_ok_def)
qed

lemma close_ok:
  assumes "sound s n"
  shows "\<exists>b s' n'. Socket_close h s n = Inr (b, s', n') \<and> keeps s n s' n' \<and> sk_sock s' = -1 \<and> \<not> sk_isConnected s' \<and>
    nt_open n' = nt_open n - owned s"
proof (cases "sk_sock s = -1")
  case True
  then show ?thesis using assms by (auto simp: Socket_close_def Let_def keeps_def sound_def owned_def)
next
  case False
  then have "0 \<le> sk_sock s" using owned_nonneg [OF assms] by simp
  with assms obtain n' where "sys_close h (sk_sock s) n = Inr n'" "net_ok n'" "nt_open n' = nt_open n - {sk_sock s}"
    using sys_close_ok [of n "sk_sock s" h] by (auto simp: sound_def)
  then show ?thesis using False assms by (auto simp: Socket_close_def Let_def keeps_def sound_def owned_def)
qed

lemma connect_ok:
  assumes "fresh_law h" and "sound s n"
  shows "\<exists>b s' n'. Socket_connect h addr t s n = Inr (b, s', n') \<and> keeps s n s' n'"
proof -
  let ?s = "s\<lparr>sk_remote := Some addr\<rparr>"
  have sound: "sound ?s n" by (rule sound_cong [OF _ assms(2)]) simp
  obtain s1 n1 where 1: "ensure_sock h ?s n = Inr (s1, n1)" "keeps ?s n s1 n1" using ensure_ok [OF assms(1) sound] by blast
  have k1: "keeps s n s1 n1" by (rule keeps_cong_left [OF _ 1(2)]) simp
  obtain b s2 n2 where 2: "Socket_close h s1 n1 = Inr (b, s2, n2)" "keeps s1 n1 s2 n2"
    using close_ok [of s1 n1 h] 1(2) by (auto simp: keeps_def)
  let ?u = "snd (Socket_getLocalAddress h (snd (Socket_getRemoteAddress h (s1\<lparr>sk_isConnected := True\<rparr>))))"
  have "keeps s n ?u n1" by (rule keeps_cong [OF _ k1]) simp
  then show ?thesis using 1(1) 2(1) k1 keeps_trans [OF k1 2(2)]
    by (simp add: Socket_connect_def Let_def ex_bool_eq)
qed

lemma reconnect_ok:
  assumes "fresh_law h" and "sound s n"
  shows "\<exists>b s' n'. Socket_reconnect h t s n = Inr (b, s', n') \<and> keeps s n s' n'"
proof (cases "sk_remote s")
  case (Some addr)
  have sound: "sound (s\<lparr>sk_local := None\<rparr>) n" by (rule sound_cong [OF _ assms(2)]) simp
  from connect_ok [OF assms(1) sound, of addr t] show ?thesis
    using Some keeps_cong_left [of s "s\<lparr>sk_local := None\<rparr>" n] by (auto simp: Socket_reconnect_def)
qed (use keeps_refl [OF assms(2)] in \<open>simp add: Socket_reconnect_def ex_bool_eq\<close>)

lemma destroy_ok:
  assumes "sound s n"
  shows "\<exists>n'. Socket_destroy h s n = Inr n' \<and> net_ok n' \<and> nt_open n' = nt_open n - owned s"
  using close_ok [OF assms, of h] by (auto simp: Socket_destroy_def keeps_def sound_def)

lemma unlinked_net [simp]: "net_ok (n\<lparr>nt_unlinked := ps\<rparr>) = net_ok n"
  by (simp add: net_ok_def)

text \<open>The socket made to find out whether somebody listens leaves no descriptor behind.\<close>

lemma unix_probe_keeps:
  assumes "fresh_law h" and "net_ok n" and "unix_probe h uaddr n = Inr (b, n')"
  shows "net_ok n' \<and> nt_open n' = nt_open n"
proof -
  let ?s = Socket_CreateUnixTCPSocket
  have o: "owned ?s = {}" by (simp add: owned_def Socket_CreateUnixTCPSocket_def Socket_new_def)
  then have "sound ?s n" using assms(2) by (simp add: sound_def)
  from connect_ok [OF assms(1) this, of "UnixAddress (fst uaddr) (snd uaddr)" "- 1"] obtain c s1 n1 where 1:
    "Socket_connect h (UnixAddress (fst uaddr) (snd uaddr)) (- 1) ?s n = Inr (c, s1, n1)" "keeps ?s n s1 n1" by blast
  obtain n2 where n2: "Socket_destroy h s1 n2 = Inr n'" "nt_open n2 = nt_open n1" "net_ok n2 = net_ok n1"
    using assms(3) 1(1) by (auto simp: unix_probe_def result_simps split: if_splits)
  then have "sound s1 n2" using 1(2) by (auto simp: keeps_def sound_def)
  from destroy_ok [OF this, of h] show ?thesis using n2(1,2) 1(2) o by (auto simp: keeps_def)
qed

lemma bind_keeps:
  assumes "fresh_law h" and "sound s n" and "Socket_bind h (h\<lparr>ho_connect := pc\<rparr>) addr s n = Inr (b, s', n')"
  shows "keeps s n s' n'"
proof -
  obtain s1 n1 where 1: "ensure_sock h s n = Inr (s1, n1)" "keeps s n s1 n1" using ensure_ok [OF assms(1,2)] by blast
  have law: "fresh_law (h\<lparr>ho_connect := pc\<rparr>)" using assms(1) by (simp add: fresh_law_def)
  have net1: "net_ok n1" using 1(2) by (simp add: keeps_def sound_def)
  have probe: "net_ok n2 \<and> nt_open n2 = nt_open n1"
    if "(case addr of UnixAddress x l \<Rightarrow> unix_probe (h\<lparr>ho_connect := pc\<rparr>) (x, l) n1 | _ \<Rightarrow> Inr (False, n1)) = Inr (u, n2)" for u n2
    using that unix_probe_keeps [OF law net1] net1 by (auto split: address.splits)
  have step: "keeps s n s1 n2" if "net_ok n2" "nt_open n2 = nt_open n1" for n2 :: "'a net"
    using that 1(2) by (simp add: keeps_def sound_def)
  show ?thesis
    using assms(3) 1 probe step keeps_cong [of "snd (Socket_getLocalAddress h s1)" s1 s n]
    by (auto simp: Socket_bind_def result_simps split: if_splits)
qed

text \<open>What the operations on a socket have in common: whatever they return, the descriptors that do not
  belong to the socket are as before and the socket's own is open.\<close>

definition holdings :: "(nat \<rightharpoonup> socket) \<Rightarrow> int set" where
  "holdings ss = (\<Union>s \<in> ran ss. owned s)"

definition sockets_ok :: "(nat \<rightharpoonup> socket) \<Rightarrow> 'k net \<Rightarrow> int set \<Rightarrow> bool" where
  "sockets_ok ss n outside \<longleftrightarrow> net_ok n \<and> nt_open n = holdings ss \<union> outside \<and> holdings ss \<inter> outside = {} \<and>
     (\<forall>i j s t. ss i = Some s \<longrightarrow> ss j = Some t \<longrightarrow> i \<noteq> j \<longrightarrow> owned s \<inter> owned t = {})"

lemma holdings_upd: "holdings (ss(i \<mapsto> s)) = owned s \<union> holdings (ss(i := None))"
  by (auto simp: holdings_def ran_def split: if_splits)

lemma holdings_split: "ss i = Some s \<Longrightarrow> holdings ss = owned s \<union> holdings (ss(i := None))"
  using holdings_upd [of ss i s] by (simp add: fun_upd_idem)

lemma sockets_ok_disjoint: "sockets_ok ss n F \<Longrightarrow> ss i = Some s \<Longrightarrow> owned s \<inter> holdings (ss(i := None)) = {}"
proof -
  assume ok: "sockets_ok ss n F" and i: "ss i = Some s"
  have "owned s \<inter> owned t = {}" if t: "t \<in> ran (ss(i := None))" for t
  proof -
    obtain j where "ss j = Some t" "i \<noteq> j" using t by (auto simp: ran_def split: if_splits)
    then show ?thesis using ok i unfolding sockets_ok_def by blast
  qed
  then show ?thesis unfolding holdings_def by blast
qed

lemma sockets_ok_sound: "sockets_ok ss n F \<Longrightarrow> ss i = Some s \<Longrightarrow> sound s n"
  by (auto simp: sockets_ok_def sound_def holdings_def ran_def)

text \<open>The state when the socket \<open>i\<close> is replaced by one that holds other descriptors than the rest.\<close>

lemma sockets_ok_upd:
  assumes "sockets_ok ss n F" and "net_ok n'" and "owned s' \<subseteq> nt_open n'"
    and "nt_open n' - owned s' = holdings (ss(i := None)) \<union> F"
  shows "sockets_ok (ss(i \<mapsto> s')) n' F"
proof -
  have d: "owned s' \<inter> (holdings (ss(i := None)) \<union> F) = {}" using assms(4) by blast
  have "owned s' \<inter> owned t = {}" if "ss j = Some t" "j \<noteq> i" for j t
    using that d by (force simp: holdings_def ran_def)
  moreover have "holdings (ss(i := None)) \<inter> F = {}"
    using assms(1) by (auto simp: sockets_ok_def holdings_def ran_def split: if_splits)
  ultimately show ?thesis
    using assms d unfolding sockets_ok_def holdings_upd by (auto split: if_splits)
qed

locale socket_operation =
  fixes run :: "'k host \<Rightarrow> socket \<Rightarrow> 'k net \<Rightarrow> (bool \<times> socket \<times> 'k net) result"
  assumes run_keeps: "fresh_law h \<Longrightarrow> sound s n \<Longrightarrow> run h s n = Inr (b, s', n') \<Longrightarrow> keeps s n s' n'"
begin

lemma run_table:
  assumes "fresh_law h" and "sockets_ok ss n F" and "ss i = Some s" and "run h s n = Inr (b, s', n')"
  shows "sockets_ok (ss(i \<mapsto> s')) n' F"
proof -
  have k: "keeps s n s' n'" by (rule run_keeps [OF assms(1) sockets_ok_sound [OF assms(2), of i] assms(4)]) (rule assms(3))
  have "nt_open n - owned s = holdings (ss(i := None)) \<union> F"
    using assms(2) holdings_split [of ss i s] assms(3) sockets_ok_disjoint [OF assms(2), of i s] by (auto simp: sockets_ok_def)
  then show ?thesis using k by (intro sockets_ok_upd [OF assms(2)]) (simp_all add: keeps_def sound_def)
qed

end

lemma operations_keep:
  assumes "fresh_law h" and "sound s n"
  shows "Socket_connect h addr t s n = Inr (b, s', n') \<Longrightarrow> keeps s n s' n'"
    and "Socket_reconnect h t s n = Inr (b, s', n') \<Longrightarrow> keeps s n s' n'"
    and "Socket_close h s n = Inr (b, s', n') \<Longrightarrow> keeps s n s' n'"
  using connect_ok [OF assms, of addr t] reconnect_ok [OF assms, of t] close_ok [OF assms(2), of h] by auto

interpretation connect: socket_operation "\<lambda>h. Socket_connect h addr t" for addr t
  by unfold_locales (rule operations_keep(1))

interpretation reconnect: socket_operation "\<lambda>h. Socket_reconnect h t" for t
  by unfold_locales (rule operations_keep(2))

interpretation bind: socket_operation "\<lambda>h. Socket_bind h (h\<lparr>ho_connect := pc\<rparr>) addr" for pc addr
  by unfold_locales (rule bind_keeps)

interpretation listen: socket_operation Socket_listen
  by unfold_locales (auto simp: Socket_listen_def intro: keeps_refl split: if_splits)

interpretation close: socket_operation Socket_close
  by unfold_locales (rule operations_keep(3))

section \<open>Programs that use sockets\<close>

datatype sock_op =
    Op_connect address u64
  | Op_reconnect u64
  | Op_bind "u64 option \<Rightarrow> int \<Rightarrow> bool" address
  | Op_listen
  | Op_close

fun sock_run :: "sock_op \<Rightarrow> 'k host \<Rightarrow> socket \<Rightarrow> 'k net \<Rightarrow> (bool \<times> socket \<times> 'k net) result" where
  "sock_run (Op_connect addr t) h s n = Socket_connect h addr t s n"
| "sock_run (Op_reconnect t) h s n = Socket_reconnect h t s n"
| "sock_run (Op_bind pc addr) h s n = Socket_bind h (h\<lparr>ho_connect := pc\<rparr>) addr s n"
| "sock_run Op_listen h s n = Socket_listen h s n"
| "sock_run Op_close h s n = Socket_close h s n"

text \<open>The steps of a program with many sockets: making them, operating on them, accepting connections and
  destroying them. The last component has the descriptors that belong to no socket.\<close>

inductive sock_step :: "(nat \<rightharpoonup> socket) \<times> 'k net \<times> int set \<Rightarrow> (nat \<rightharpoonup> socket) \<times> 'k net \<times> int set \<Rightarrow> bool" where
  create: "ss i = None \<Longrightarrow> sock_step (ss, n, F) (ss(i \<mapsto> Socket_new family type protocol), n, F)"
| create_udp: "ss i = None \<Longrightarrow> fresh_law h \<Longrightarrow> create_udp h family n = Inr (s, n') \<Longrightarrow>
    sock_step (ss, n, F) (ss(i \<mapsto> s), n', F)"
| operate: "ss i = Some s \<Longrightarrow> fresh_law h \<Longrightarrow> sock_run op h s n = Inr (b, s', n') \<Longrightarrow>
    sock_step (ss, n, F) (ss(i \<mapsto> s'), n', F)"
| accept: "ss i = Some s \<Longrightarrow> ss j = None \<Longrightarrow> fresh_law h \<Longrightarrow> Socket_accept h s n = Inr (Some t, n') \<Longrightarrow>
    sock_step (ss, n, F) (ss(j \<mapsto> t), n', F)"
| refuse: "ss i = Some s \<Longrightarrow> fresh_law h \<Longrightarrow> Socket_accept h s n = Inr (None, n') \<Longrightarrow>
    sock_step (ss, n, F) (ss, n', F \<union> (nt_open n' - nt_open n))"
| destroy: "ss i = Some s \<Longrightarrow> Socket_destroy h s n = Inr n' \<Longrightarrow> sock_step (ss, n, F) (ss(i := None), n', F)"

inductive sock_reach :: "(nat \<rightharpoonup> socket) \<times> 'k net \<times> int set \<Rightarrow> bool" where
  start: "net_ok n \<Longrightarrow> sock_reach (Map.empty, n, nt_open n)"
| step: "sock_reach st \<Longrightarrow> sock_step st st' \<Longrightarrow> sock_reach st'"

lemma sock_run_table:
  assumes "fresh_law h" and "sockets_ok ss n F" and "ss i = Some s" and "sock_run op h s n = Inr (b, s', n')"
  shows "sockets_ok (ss(i \<mapsto> s')) n' F"
  using assms(4)
  by (cases op) (auto intro: connect.run_table [where ss = ss and i = i, OF assms(1-3)]
      reconnect.run_table [where ss = ss and i = i, OF assms(1-3)] bind.run_table [where ss = ss and i = i, OF assms(1-3)]
      listen.run_table [where ss = ss and i = i, OF assms(1-3)] close.run_table [where ss = ss and i = i, OF assms(1-3)])

lemma table_add:
  assumes "sockets_ok ss n F" and "ss i = None" and "owned s = {}" and "keeps s n s' n'"
  shows "sockets_ok (ss(i \<mapsto> s')) n' F"
proof (rule sockets_ok_upd [OF assms(1)])
  have "ss(i := None) = ss" using assms(2) by (simp add: fun_upd_idem)
  then show "nt_open n' - owned s' = holdings (ss(i := None)) \<union> F"
    using assms(1,3,4) by (simp add: keeps_def sockets_ok_def)
qed (use assms(4) in \<open>simp_all add: keeps_def sound_def\<close>)

lemma Socket_new_owns [simp]: "owned (Socket_new family type protocol) = {}"
  by (simp add: owned_def Socket_new_def)

lemma Socket_new_sound: "net_ok n \<Longrightarrow> sound (Socket_new family type protocol) n"
  by (simp add: sound_def)

lemma create_udp_keeps:
  assumes "fresh_law h" and "net_ok n" and "create_udp h family n = Inr (s, n')"
  shows "keeps (Socket_new family SOCK_DGRAM 0) n s n'"
proof -
  have m: "sk_sock (Socket_new family SOCK_DGRAM 0) = -1" by (simp add: Socket_new_def)
  obtain s1 n1 where "Socket_newSock h (Socket_new family SOCK_DGRAM 0) n = Inr (s1, n1)"
      "keeps (Socket_new family SOCK_DGRAM 0) n s1 n1"
    using newSock_ok [OF assms(1) Socket_new_sound [OF assms(2)] m] by blast
  then show ?thesis using assms(3) by (auto simp: create_udp_def intro: keeps_cong [where ?s2.0 = s1])
qed

lemma accept_cases:
  assumes "fresh_law h" and "net_ok n" and "ho_accept h (nt_open n) \<noteq> -1"
  defines "fd \<equiv> ho_accept h (nt_open n)"
  shows "\<exists>c n'. net_ok n' \<and> nt_open n' = insert fd (nt_open n) \<and>
    (\<exists>ds k. FdManager_get (ho_libc h) fd True (nt_fds n) (nt_kernel n) = Inr (Some c, ds, k)) \<and>
    (if fx_isSocket c \<and> \<not> fx_isClosed c
     then \<exists>t. Socket_accept h s n = Inr (Some t, n') \<and> sk_sock t = fd \<and> sk_isConnected t
     else Socket_accept h s n = Inr (None, n'))"
proof -
  have fd: "0 \<le> fd" "fd \<notin> nt_open n" using assms(1,3) by (auto simp: fresh_law_def fd_def)
  let ?s = "Socket_new (sk_family s) (sk_type s) (sk_protocol s)"
  obtain c ds k where g: "FdManager_get (ho_libc h) fd True (nt_fds n) (nt_kernel n) = Inr (Some c, ds, k)"
      "table_ok ds" "lookup_ctx fd ds = Some c"
      "net_ok (n\<lparr>nt_fds := ds, nt_kernel := k, nt_open := insert fd (nt_open n)\<rparr>)" (is "net_ok ?n")
    using new_fd_ok [OF assms(2) fd, of "ho_libc h"] by blast
  have a: "sys_accept h n = Inr (fd, ?n)"
    using g(1) fd(1) by (simp add: sys_accept_def accept_done_def fd_def [symmetric])
  have m: "fd \<noteq> -1" using fd(1) by simp
  have l: "FdManager_get (ho_libc h) fd False (nt_fds ?n) (nt_kernel ?n) = Inr (Some c, ds, k)"
    using FdManager_get_lookup [OF fd(1), of "ho_libc h" ds k] g(3) by simp
  show ?thesis
  proof (cases "fx_isSocket c \<and> \<not> fx_isClosed c")
    case True
    let ?t = "?s\<lparr>sk_sock := fd, sk_isConnected := True\<rparr>"
    have "sound ?t ?n" using g(4) by (simp add: sound_def owned_def)
    from initSock_ok [OF this, of h] obtain ds' where i: "Socket_initSock h ?t ?n = Inr (?n\<lparr>nt_fds := ds'\<rparr>)" "table_ok ds'"
      by blast
    let ?t' = "snd (Socket_getRemoteAddress h (snd (Socket_getLocalAddress h ?t)))"
    have "Socket_accept h s n = Inr (Some ?t', ?n\<lparr>nt_fds := ds'\<rparr>)"
      using a l i(1) m True unfolding Socket_accept_def Socket_init_def by (simp add: Let_def)
    moreover have "net_ok (?n\<lparr>nt_fds := ds'\<rparr>)" using g(4) i(2) by (simp add: net_ok_def)
    moreover have "sk_sock ?t' = fd" "sk_isConnected ?t'" by simp_all
    ultimately show ?thesis using g(1) True
      by (intro exI [of _ c] exI [of _ "?n\<lparr>nt_fds := ds'\<rparr>"]) auto
  next
    case False
    have "Socket_accept h s n = Inr (None, ?n)"
      using a l m False unfolding Socket_accept_def Socket_init_def
      by (auto simp: Socket_destroy_def Socket_close_def Socket_new_def)
    then show ?thesis using g False by (intro exI [of _ c] exI [of _ ?n]) auto
  qed
qed

lemma accept_failed: "ho_accept h (nt_open n) = -1 \<Longrightarrow> Socket_accept h s n = Inr (None, n)"
  by (simp add: Socket_accept_def sys_accept_def accept_done_def)

lemma accept_keeps:
  assumes "fresh_law h" and "net_ok n"
  shows "Socket_accept h s n = Inr (Some t, n') \<Longrightarrow>
      keeps (Socket_new (sk_family s) (sk_type s) (sk_protocol s)) n t n'"
    and "Socket_accept h s n = Inr (None, n') \<Longrightarrow> net_ok n' \<and> nt_open n \<subseteq> nt_open n'"
proof -
  have fresh: "ho_accept h (nt_open n) \<notin> nt_open n" if "ho_accept h (nt_open n) \<noteq> -1"
    using assms(1) that by (auto simp: fresh_law_def)
  show "keeps (Socket_new (sk_family s) (sk_type s) (sk_protocol s)) n t n'" if r: "Socket_accept h s n = Inr (Some t, n')"
  proof -
    have ne: "ho_accept h (nt_open n) \<noteq> -1" using r accept_failed by fastforce
    from accept_cases [OF assms ne, of s] r fresh [OF ne] ne show ?thesis
      by (auto simp: keeps_def sound_def owned_def Socket_new_def split: if_splits)
  qed
  show "net_ok n' \<and> nt_open n \<subseteq> nt_open n'" if r: "Socket_accept h s n = Inr (None, n')"
  proof (cases "ho_accept h (nt_open n) = -1")
    case True
    then show ?thesis using r accept_failed [OF True, of s] assms(2) by simp
  next
    case False
    from accept_cases [OF assms False, of s] r show ?thesis by (auto split: if_splits)
  qed
qed

lemma sock_step_ok: "sock_step st st' \<Longrightarrow> (case st of (ss, n, F) \<Rightarrow> sockets_ok ss n F) \<Longrightarrow>
  (case st' of (ss, n, F) \<Rightarrow> sockets_ok ss n F)"
proof (induction rule: sock_step.induct)
  case (create ss i n F family type protocol)
  then have ok: "sockets_ok ss n F" by simp
  then have "sound (Socket_new family type protocol) n" by (simp add: sockets_ok_def Socket_new_sound)
  then show ?case using table_add [OF ok create(1) Socket_new_owns keeps_refl] by simp
next
  case (create_udp ss i h family n s n' F)
  then have ok: "sockets_ok ss n F" by simp
  then have "net_ok n" by (simp add: sockets_ok_def)
  from create_udp_keeps [OF create_udp(2) this create_udp(3)] show ?case
    using table_add [OF ok create_udp(1) Socket_new_owns] by simp
next
  case (operate ss i s h op n b s' n' F)
  then show ?case using sock_run_table [of h ss n F i s op b s' n'] by simp
next
  case (accept ss i s j h n t n' F)
  then have ok: "sockets_ok ss n F" by simp
  then have "net_ok n" by (simp add: sockets_ok_def)
  from accept_keeps(1) [OF accept(3) this accept(4)] show ?case
    using table_add [OF ok accept(2) Socket_new_owns] by simp
next
  case (refuse ss i s h n n' F)
  then have ok: "sockets_ok ss n F" by simp
  then have "net_ok n" by (simp add: sockets_ok_def)
  from accept_keeps(2) [OF refuse(2) this refuse(3)] ok show ?case by (auto simp: sockets_ok_def)
next
  case (destroy ss i s h n n' F)
  then have ok: "sockets_ok ss n F" by simp
  from destroy_ok [OF sockets_ok_sound [where ss = ss and i = i, OF ok destroy(1)], of h] destroy(2)
  have n': "net_ok n'" "nt_open n' = nt_open n - owned s" by auto
  have "holdings ss = owned s \<union> holdings (ss(i := None))" "owned s \<inter> holdings (ss(i := None)) = {}"
    using holdings_split [of ss i s] sockets_ok_disjoint [OF ok, of i s] destroy(1) by auto
  then show ?case using ok n' by (auto simp: sockets_ok_def split: if_splits)
qed

lemma sock_reach_ok: "sock_reach st \<Longrightarrow> (case st of (ss, n, F) \<Rightarrow> sockets_ok ss n F)"
proof (induction rule: sock_reach.induct)
  case (start n)
  then show ?case by (simp add: sockets_ok_def holdings_def)
qed (rule sock_step_ok)

text \<open>C22. However a program creates, connects, binds, closes, accepts and destroys sockets, no descriptor
  belongs to two sockets, the descriptor of every socket is open, and the open descriptors are those of the
  sockets and those that belong to none; destroying a socket always returns and closes exactly its own
  descriptor, and a second \<open>close\<close> does nothing.\<close>

theorem sockets_own_descriptors:
  assumes "sock_reach (ss, n, F)" and "ss i = Some s"
  shows "(sk_sock s \<noteq> -1 \<longrightarrow> sk_sock s \<in> nt_open n \<and> sk_sock s \<notin> F) \<and>
    (\<forall>j t. ss j = Some t \<and> sk_sock t = sk_sock s \<and> sk_sock s \<noteq> -1 \<longrightarrow> j = i) \<and>
    nt_open n = {sk_sock t | t. t \<in> ran ss \<and> sk_sock t \<noteq> -1} \<union> F \<and>
    (\<exists>b s' n'. Socket_close h s n = Inr (b, s', n') \<and> nt_open n' = nt_open n - {sk_sock s} \<and>
       Socket_close h s' n' = Inr (True, s', n') \<and> sock_reach (ss(i := None), n', F))"
proof -
  have ok: "sockets_ok ss n F" using sock_reach_ok [OF assms(1)] by simp
  have sd: "sound s n" by (rule sockets_ok_sound [OF ok, of i]) (rule assms(2))
  have h: "holdings ss = {sk_sock t | t. t \<in> ran ss \<and> sk_sock t \<noteq> -1}"
    by (auto simp: holdings_def owned_def split: if_splits)
  have one: "j = i" if "ss j = Some t" "sk_sock t = sk_sock s" "sk_sock s \<noteq> -1" for j t
  proof (rule ccontr)
    assume "j \<noteq> i"
    then have "owned t \<inter> owned s = {}" using ok that(1) assms(2) unfolding sockets_ok_def by blast
    then show False using that by (simp add: owned_def)
  qed
  have mem: "sk_sock s \<in> nt_open n \<and> sk_sock s \<notin> F" if "sk_sock s \<noteq> -1"
  proof -
    have "sk_sock s \<in> holdings ss" using assms(2) that unfolding h by (auto intro: ranI)
    then show ?thesis using ok by (auto simp: sockets_ok_def)
  qed
  obtain b s' n' where c: "Socket_close h s n = Inr (b, s', n')" "sk_sock s' = -1" "\<not> sk_isConnected s'"
      "nt_open n' = nt_open n - owned s"
    using close_ok [OF sd, of h] by blast
  have "\<forall>fd \<in> nt_open n. 0 \<le> fd" using ok unfolding sockets_ok_def net_ok_def by blast
  then have "-1 \<notin> nt_open n" by force
  then have "nt_open n' = nt_open n - {sk_sock s}" using c(4) by (auto simp: owned_def split: if_splits)
  moreover have "Socket_destroy h s n = Inr n'" using c(1) by (simp add: Socket_destroy_def)
  then have "sock_reach (ss(i := None), n', F)"
    using sock_reach.step [OF assms(1) sock_step.destroy [where ss = ss and i = i]] assms(2) by blast
  moreover have "Socket_close h s' n' = Inr (True, s', n')" using c(2,3) by (simp add: Socket_close_def)
  moreover have "nt_open n = {sk_sock t | t. t \<in> ran ss \<and> sk_sock t \<noteq> -1} \<union> F" using ok h by (simp add: sockets_ok_def)
  ultimately show ?thesis using one mem c(1) by blast
qed

text \<open>A host whose kernel hands out the descriptor after the highest one it has given.\<close>

definition sample_host :: "(int \<Rightarrow> u32) host" where
  "sample_host = \<lparr>ho_hook = True, ho_libc = sample_libc, ho_fault = (\<lambda>op fd. False),
     ho_socket = (\<lambda>fds. if 7 \<in> fds then -1 else 7), ho_accept = (\<lambda>fds. if 8 \<in> fds then -1 else 8),
     ho_option = (\<lambda>l opt. True), ho_connect = (\<lambda>t fd. True), ho_bind = (\<lambda>fd. True), ho_listen = (\<lambda>fd. True),
     ho_peername = (\<lambda>fd. None), ho_sockname = (\<lambda>fd. None)\<rparr>"

definition sample_net :: "(int \<Rightarrow> u32) net" where
  "sample_net = \<lparr>nt_fds = FdManager_new, nt_kernel = (\<lambda>fd. 2), nt_iom = None, nt_open = {0, 1, 2}, nt_unlinked = []\<rparr>"

lemma sample_net_ok: "net_ok sample_net"
  by (simp add: net_ok_def sample_net_def table_ok_def FdManager_new_def)

lemma sample_host_law: "fresh_law sample_host"
  by (simp add: fresh_law_def sample_host_def)

theorem sockets_own_descriptors_witness:
  "\<exists>s n. create_udp sample_host 2 sample_net = Inr (s, n) \<and> sk_sock s = 7 \<and> nt_open n = {0, 1, 2, 7} \<and>
    (\<exists>b s' n'. Socket_close sample_host s n = Inr (b, s', n') \<and> nt_open n' = {0, 1, 2})"
proof -
  let ?h = sample_host and ?s = "Socket_new 2 SOCK_DGRAM 0"
  obtain s n where r: "create_udp ?h 2 sample_net = Inr (s, n)"
    using newSock_ok [OF sample_host_law Socket_new_sound [OF sample_net_ok], of 2 SOCK_DGRAM 0]
    by (auto simp: create_udp_def Socket_new_def)
  have fd: "sk_sock s = 7"
    using r by (auto simp: create_udp_def Socket_newSock_def sys_socket_def hook_socket_def result_simps sample_host_def
        sample_net_def Let_def)
  have st: "sock_reach ([0 \<mapsto> s], n, nt_open sample_net)"
    using sock_reach.step [OF sock_reach.start [OF sample_net_ok] sock_step.create_udp [OF _ sample_host_law r, of Map.empty 0]]
    by simp
  from sockets_own_descriptors [OF st, of 0 s ?h] fd r show ?thesis
    by (auto simp: sample_net_def)
qed

section \<open>Timeouts\<close>

lemma to_int32_id: "to_int32 x = x \<longleftrightarrow> - (2 ^ 31) \<le> x \<and> x < 2 ^ 31"
  using signed_take_bit_int_eq_self_iff [of 31 x] by (simp add: to_int32_def signed_of_int)

lemma to_int32_bounds: "- (2 ^ 31) \<le> to_int32 x \<and> to_int32 x < 2 ^ 31"
  using signed_take_bit_int_greater_eq_minus_exp [of 31 x] signed_take_bit_int_less_exp [of 31 x]
  by (simp add: to_int32_def signed_of_int)

lemma c_mod_neg: "a < 0 \<Longrightarrow> c_mod a b = - ((- a) mod b)"
  by (simp add: c_mod_def c_div_def) (use div_mult_mod_eq [of "- a" b] in linarith)

lemma c_mod_bounds:
  assumes "0 < b"
  shows "- b < c_mod a b \<and> c_mod a b < b"
proof (cases "a < 0")
  case True
  then show ?thesis
    using c_mod_neg [OF True, of b] pos_mod_bound [OF assms, of "- a"] pos_mod_sign [OF assms, of "- a"] by linarith
next
  case False
  then have "c_mod a b = a mod b" by simp
  then show ?thesis using pos_mod_bound [OF assms, of a] pos_mod_sign [OF assms, of a] assms by linarith
qed

lemma sint64: "- (2 ^ 63) \<le> x \<Longrightarrow> x < 2 ^ 63 \<Longrightarrow> sint (word_of_int x :: u64) = x"
  using signed_take_bit_int_eq_self [of 63 x] by (simp add: signed_of_int)

lemma ms_timeval_ms:
  "timeval_ms (fst (ms_timeval v)) (snd (ms_timeval v)) = word_of_int (to_int32 (c_div v 1000) * 1000 + c_mod v 1000)"
proof -
  have "to_int32 (c_mod v 1000 * 1000) = c_mod v 1000 * 1000"
    using c_mod_bounds [of 1000 v] by (simp add: to_int32_id)
  then show ?thesis by (simp add: timeval_ms_def ms_timeval_def)
qed

lemma timeout_stored:
  assumes "ho_hook h" and "lookup_ctx (sk_sock s) (nt_fds n) = Some c" and "opt \<in> {SO_RCVTIMEO, SO_SNDTIMEO}"
  shows "\<exists>b n'. Socket_setOption h SOL_SOCKET opt (ms_timeval v) s n = Inr (b, n') \<and>
    Socket_getTimeout h opt s n' = Inr (to_int32 (c_div v 1000) * 1000 + c_mod v 1000) \<and>
    (\<forall>opt' \<in> {SO_RCVTIMEO, SO_SNDTIMEO} - {opt}. Socket_getTimeout h opt' s n' = Socket_getTimeout h opt' s n)"
proof -
  have fd: "0 \<le> sk_sock s" "nat (sk_sock s) < length (nt_fds n)" "nt_fds n ! nat (sk_sock s) = Some c"
    using assms(2) by (auto simp: lookup_ctx_def split: if_splits)
  let ?v = "to_int32 (c_div v 1000) * 1000 + c_mod v 1000"
  have "- (2 ^ 63) \<le> ?v \<and> ?v < 2 ^ 63" using to_int32_bounds [of "c_div v 1000"] c_mod_bounds [of 1000 v] by auto
  then have "sint (word_of_int ?v :: u64) = ?v" using sint64 [of ?v] by blast
  then show ?thesis
    using fd assms
    by (auto simp: Socket_setOption_def hook_setsockopt_def Socket_getTimeout_def FdManager_get_lookup set_ctx_def
        lookup_ctx_def FdCtx_setTimeout_def FdCtx_getTimeout_def ms_timeval_ms)
qed

text \<open>On a socket that the hooks manage, \<open>setSendTimeout\<close> returns and \<open>getSendTimeout\<close> gives the
  milliseconds back exactly when their number of seconds fits in an \<open>int\<close>, negative numbers and so the
  \<open>-1\<close> for no timeout included; the timeout for receiving is not touched.\<close>

theorem send_timeout_exact:
  assumes "ho_hook h" and "lookup_ctx (sk_sock s) (nt_fds n) = Some c"
  shows "\<exists>n'. Socket_setSendTimeout h v s n = Inr n' \<and>
    (Socket_getSendTimeout h s n' = Inr v \<longleftrightarrow> - (2 ^ 31) \<le> c_div v 1000 \<and> c_div v 1000 < 2 ^ 31) \<and>
    Socket_getRecvTimeout h s n' = Socket_getRecvTimeout h s n"
proof -
  obtain b n' where r: "Socket_setOption h SOL_SOCKET SO_SNDTIMEO (ms_timeval v) s n = Inr (b, n')"
      "Socket_getTimeout h SO_SNDTIMEO s n' = Inr (to_int32 (c_div v 1000) * 1000 + c_mod v 1000)"
      "Socket_getTimeout h SO_RCVTIMEO s n' = Socket_getTimeout h SO_RCVTIMEO s n"
    using timeout_stored [OF assms, of SO_SNDTIMEO v] by auto
  have "to_int32 (c_div v 1000) * 1000 + c_mod v 1000 = v \<longleftrightarrow> to_int32 (c_div v 1000) = c_div v 1000"
    using c_div_mod [of v 1000] by (auto simp: c_mod_def)
  then show ?thesis
    using r by (simp add: Socket_setSendTimeout_def Socket_getSendTimeout_def Socket_getRecvTimeout_def to_int32_id)
qed

theorem send_timeout_exact_witness:
  "\<exists>n'. Socket_setSendTimeout sample_host (-1) ((Socket_new 2 1 0)\<lparr>sk_sock := 5\<rparr>) (sample_net\<lparr>nt_fds := sample_fds\<rparr>) = Inr n' \<and>
    Socket_getSendTimeout sample_host ((Socket_new 2 1 0)\<lparr>sk_sock := 5\<rparr>) n' = Inr (-1)"
proof -
  have "ho_hook sample_host" by (simp add: sample_host_def)
  moreover have "lookup_ctx (sk_sock ((Socket_new 2 1 0)\<lparr>sk_sock := 5\<rparr>)) (nt_fds (sample_net\<lparr>nt_fds := sample_fds\<rparr>)) = Some sample_ctx"
    using sample_fds_ok(2) by simp
  ultimately show ?thesis
    using send_timeout_exact [of sample_host "(Socket_new 2 1 0)\<lparr>sk_sock := 5\<rparr>" "sample_net\<lparr>nt_fds := sample_fds\<rparr>" sample_ctx "-1"]
    by (auto simp: c_div_def)
qed

section \<open>Further behaviour\<close>

text \<open>A connection that \<open>init\<close> refuses because the table still has an entry for the number of its descriptor, made
  when the number stood for something else, is not closed: the destructor of the dropped socket does not
  know the descriptor.\<close>

lemma refused_accept_leaks:
  assumes "fresh_law h" and "net_ok n" and "ho_accept h (nt_open n) \<noteq> -1"
    and "lookup_ctx (ho_accept h (nt_open n)) (nt_fds n) = Some c" and "\<not> fx_isSocket c"
  shows "\<exists>n'. Socket_accept h s n = Inr (None, n') \<and> nt_open n' = insert (ho_accept h (nt_open n)) (nt_open n)"
proof -
  let ?fd = "ho_accept h (nt_open n)"
  have fd: "0 \<le> ?fd" using assms(1,3) by (auto simp: fresh_law_def)
  have "table_ok (nt_fds n)" using assms(2) by (simp add: net_ok_def)
  from FdManager_get_create [OF this fd, of "ho_libc h" "nt_kernel n"] assms(4)
  have "FdManager_get (ho_libc h) ?fd True (nt_fds n) (nt_kernel n) = Inr (Some c, nt_fds n, nt_kernel n)" by auto
  then show ?thesis using accept_cases [OF assms(1-3), of s] assms(5) by auto
qed

text \<open>With no stale entry and a descriptor that is a socket every accepted connection gets its socket.\<close>

lemma accept_succeeds:
  assumes "fresh_law h" and "net_ok n" and "ho_accept h (nt_open n) \<noteq> -1"
    and "lookup_ctx (ho_accept h (nt_open n)) (nt_fds n) = None"
    and "lc_fstat (ho_libc h) (ho_accept h (nt_open n)) (nt_kernel n) = Some True"
  shows "\<exists>t n'. Socket_accept h s n = Inr (Some t, n') \<and> sk_sock t = ho_accept h (nt_open n) \<and> sk_isConnected t"
proof -
  let ?fd = "ho_accept h (nt_open n)"
  have fd: "0 \<le> ?fd" using assms(1,3) by (auto simp: fresh_law_def)
  obtain c n' ds k where c: "FdManager_get (ho_libc h) ?fd True (nt_fds n) (nt_kernel n) = Inr (Some c, ds, k)"
      and r: "if fx_isSocket c \<and> \<not> fx_isClosed c
       then \<exists>t. Socket_accept h s n = Inr (Some t, n') \<and> sk_sock t = ?fd \<and> sk_isConnected t
       else Socket_accept h s n = Inr (None, n')"
    using accept_cases [OF assms(1-3), of s] by blast
  have "c = fst (FdCtx_new (ho_libc h) ?fd (nt_kernel n))"
    using c fd assms(3,4)
    by (auto simp: FdManager_get_def Let_def lookup_ctx_def table_at_def result_simps split: if_splits prod.splits)
  then have "fx_isSocket c \<and> \<not> fx_isClosed c"
    using assms(5) by (simp add: FdCtx_new_def FdCtx_init_def Let_def)
  then show ?thesis using r by auto
qed

text \<open>The vectored transfers of SSL sockets: complete ones add up, but when a later one fails the count of what
  was already transferred is lost.\<close>

lemma ssl_iov_complete:
  "\<forall>j < length lens. io (i + j) (lens ! j) = int (lens ! j) \<and> 0 < lens ! j \<Longrightarrow>
   acc + int (sum_list lens) < 2 ^ 31 \<Longrightarrow> 0 \<le> acc \<Longrightarrow> ssl_iov_loop io i acc lens = Inr (acc + int (sum_list lens))"
proof (induction lens arbitrary: i acc)
  case (Cons len lens)
  have 0: "io i len = int len" "0 < len" using Cons.prems(1) [rule_format, of 0] by simp_all
  have "\<forall>j < length lens. io (Suc i + j) (lens ! j) = int (lens ! j) \<and> 0 < lens ! j"
    using Cons.prems(1) [rule_format, of "Suc j" for j] by auto
  then have "ssl_iov_loop io (Suc i) (acc + int len) lens = Inr (acc + int len + int (sum_list lens))"
    using Cons.IH [of "Suc i" "acc + int len"] Cons.prems(2,3) by (simp add: add.assoc)
  moreover have "to_int32 (int len) = int len" using Cons.prems(2,3) by (simp add: to_int32_id)
  ultimately show ?case using 0 Cons.prems(2) by (simp add: add.assoc)
qed simp

lemma ssl_iov_loses_count: "ssl_iov_loop (\<lambda>i len. if i = 0 then int len else -1) 0 0 [3, 5] = Inr (-1)"
  by (simp add: to_int32_def)

text \<open>\<open>SSLSocket::close\<close> keeps the session, so that later transfers still go to it.\<close>

lemma ssl_close_keeps_session:
  assumes "sound (ss_base t) n" and "ss_ssl t = Some x"
  shows "\<exists>b t' n'. SSLSocket_close h t n = Inr (b, t', n') \<and> sk_sock (ss_base t') = -1 \<and> SSLSocket_io io len t' = io 0 len"
proof -
  obtain b s' n' where c: "Socket_close h (ss_base t) n = Inr (b, s', n')" "sk_sock s' = -1"
    using close_ok [OF assms(1), of h] by blast
  then show ?thesis using assms(2)
    by (intro exI [of _ b] exI [of _ "t\<lparr>ss_base := s'\<rparr>"] exI [of _ n']) (simp add: SSLSocket_close_def SSLSocket_io_def)
qed

end
