(* ===== verification/StringUtil.thy ===== *)
theory StringUtil
  imports Address
begin

text \<open>
  The helpers of \<open>sylar/util.h\<close> and \<open>sylar/util.cpp\<close> that work on values in memory: URL encoding,
  trimming, joining and splitting, numbers in strings, binary search, the atomic operations, reading and
  writing streams with and without a speed limit, and the choice of the host's address. A string is a
  list of characters, each of which is a byte.
\<close>

section \<open>URL encoding\<close>

definition uri_chars :: "nat list" where
  "uri_chars =
    [0, 0, 0, 0, 0, 0, 0, 0, 0, 0, 0, 0, 0, 0, 0, 0,
     0, 0, 0, 0, 0, 0, 0, 0, 0, 0, 0, 0, 0, 0, 0, 0,
     0, 0, 0, 0, 0, 0, 0, 0, 0, 0, 0, 0, 0, 1, 1, 0,
     1, 1, 1, 1, 1, 1, 1, 1, 1, 1, 0, 0, 0, 1, 0, 0,
     0, 1, 1, 1, 1, 1, 1, 1, 1, 1, 1, 1, 1, 1, 1, 1,
     1, 1, 1, 1, 1, 1, 1, 1, 1, 1, 1, 0, 0, 0, 0, 1,
     0, 1, 1, 1, 1, 1, 1, 1, 1, 1, 1, 1, 1, 1, 1, 1,
     1, 1, 1, 1, 1, 1, 1, 1, 1, 1, 1, 0, 0, 0, 1, 0,
     0, 0, 0, 0, 0, 0, 0, 0, 0, 0, 0, 0, 0, 0, 0, 0,
     0, 0, 0, 0, 0, 0, 0, 0, 0, 0, 0, 0, 0, 0, 0, 0,
     0, 0, 0, 0, 0, 0, 0, 0, 0, 0, 0, 0, 0, 0, 0, 0,
     0, 0, 0, 0, 0, 0, 0, 0, 0, 0, 0, 0, 0, 0, 0, 0,
     0, 0, 0, 0, 0, 0, 0, 0, 0, 0, 0, 0, 0, 0, 0, 0,
     0, 0, 0, 0, 0, 0, 0, 0, 0, 0, 0, 0, 0, 0, 0, 0,
     0, 0, 0, 0, 0, 0, 0, 0, 0, 0, 0, 0, 0, 0, 0, 0,
     0, 0, 0, 0, 0, 0, 0, 0, 0, 0, 0, 0, 0, 0, 0, 0]"

definition xdigit_chars :: "nat list" where
  "xdigit_chars =
    [0, 0, 0, 0, 0, 0, 0, 0, 0, 0, 0, 0, 0, 0, 0, 0,
     0, 0, 0, 0, 0, 0, 0, 0, 0, 0, 0, 0, 0, 0, 0, 0,
     0, 0, 0, 0, 0, 0, 0, 0, 0, 0, 0, 0, 0, 0, 0, 0,
     0, 1, 2, 3, 4, 5, 6, 7, 8, 9, 0, 0, 0, 0, 0, 0,
     0, 10, 11, 12, 13, 14, 15, 0, 0, 0, 0, 0, 0, 0, 0, 0,
     0, 0, 0, 0, 0, 0, 0, 0, 0, 0, 0, 0, 0, 0, 0, 0,
     0, 10, 11, 12, 13, 14, 15, 0, 0, 0, 0, 0, 0, 0, 0, 0,
     0, 0, 0, 0, 0, 0, 0, 0, 0, 0, 0, 0, 0, 0, 0, 0,
     0, 0, 0, 0, 0, 0, 0, 0, 0, 0, 0, 0, 0, 0, 0, 0,
     0, 0, 0, 0, 0, 0, 0, 0, 0, 0, 0, 0, 0, 0, 0, 0,
     0, 0, 0, 0, 0, 0, 0, 0, 0, 0, 0, 0, 0, 0, 0, 0,
     0, 0, 0, 0, 0, 0, 0, 0, 0, 0, 0, 0, 0, 0, 0, 0,
     0, 0, 0, 0, 0, 0, 0, 0, 0, 0, 0, 0, 0, 0, 0, 0,
     0, 0, 0, 0, 0, 0, 0, 0, 0, 0, 0, 0, 0, 0, 0, 0,
     0, 0, 0, 0, 0, 0, 0, 0, 0, 0, 0, 0, 0, 0, 0, 0,
     0, 0, 0, 0, 0, 0, 0, 0, 0, 0, 0, 0, 0, 0, 0, 0]"

definition char_is_unreserved :: "char \<Rightarrow> bool" where
  "char_is_unreserved c \<longleftrightarrow> uri_chars ! of_char c \<noteq> 0"

definition hexdigits :: string where
  "hexdigits = ''0123456789ABCDEF''"

text \<open>The loop of \<open>UrlEncode\<close>. The buffer \<open>ss\<close> is allocated at the first character that has to be
  encoded, with the characters \<open>pre\<close> before it.\<close>

definition url_buffer :: "string \<Rightarrow> string option \<Rightarrow> string" where
  "url_buffer pre ss = (case ss of None \<Rightarrow> pre | Some s \<Rightarrow> s)"

fun UrlEncode_loop :: "bool \<Rightarrow> string \<Rightarrow> string \<Rightarrow> string option \<Rightarrow> string option" where
  "UrlEncode_loop space_as_plus pre [] ss = ss"
| "UrlEncode_loop space_as_plus pre (c # cs) ss =
     UrlEncode_loop space_as_plus (pre @ [c]) cs
       (if \<not> char_is_unreserved c then
          (if c = CHR '' '' \<and> space_as_plus then Some (url_buffer pre ss @ ''+'')
           else Some (url_buffer pre ss @ ''%'' @ [hexdigits ! (of_char c div 16), hexdigits ! (of_char c mod 16)]))
        else map_option (\<lambda>s. s @ [c]) ss)"

definition UrlEncode :: "string \<Rightarrow> bool \<Rightarrow> string" where
  "UrlEncode str space_as_plus =
     (case UrlEncode_loop space_as_plus [] str None of None \<Rightarrow> str | Some rt \<Rightarrow> rt)"

definition isxdigit :: "char \<Rightarrow> bool" where
  "isxdigit c \<longleftrightarrow> is_digit c \<or> CHR ''a'' \<le> c \<and> c \<le> CHR ''f'' \<or> CHR ''A'' \<le> c \<and> c \<le> CHR ''F''"

definition xdigit_value :: "char \<Rightarrow> nat" where
  "xdigit_value c = xdigit_chars ! of_char c"

fun UrlDecode_loop :: "bool \<Rightarrow> string \<Rightarrow> string \<Rightarrow> string option \<Rightarrow> string option" where
  "UrlDecode_loop space_as_plus pre [] ss = ss"
| "UrlDecode_loop space_as_plus pre (c # cs) ss =
     (if c = CHR ''+'' \<and> space_as_plus
      then UrlDecode_loop space_as_plus (pre @ [c]) cs (Some (url_buffer pre ss @ '' ''))
      else
        case cs of
          d # e # rest \<Rightarrow>
            if c = CHR ''%'' \<and> isxdigit d \<and> isxdigit e
            then UrlDecode_loop space_as_plus (pre @ [c, d, e]) rest
                   (Some (url_buffer pre ss @ [char_of (16 * xdigit_value d + xdigit_value e)]))
            else UrlDecode_loop space_as_plus (pre @ [c]) cs (map_option (\<lambda>s. s @ [c]) ss)
        | _ \<Rightarrow> UrlDecode_loop space_as_plus (pre @ [c]) cs (map_option (\<lambda>s. s @ [c]) ss))"

definition UrlDecode :: "string \<Rightarrow> bool \<Rightarrow> string" where
  "UrlDecode str space_as_plus =
     (case UrlDecode_loop space_as_plus [] str None of None \<Rightarrow> str | Some rt \<Rightarrow> rt)"

text \<open>What the loops compute, without the buffer.\<close>

definition url_enc :: "bool \<Rightarrow> char \<Rightarrow> string" where
  "url_enc space_as_plus c =
     (if char_is_unreserved c then [c]
      else if c = CHR '' '' \<and> space_as_plus then ''+''
      else ''%'' @ [hexdigits ! (of_char c div 16), hexdigits ! (of_char c mod 16)])"

fun url_dec :: "bool \<Rightarrow> string \<Rightarrow> string" where
  "url_dec space_as_plus (c # d # e # cs) =
     (if c = CHR ''+'' \<and> space_as_plus then CHR '' '' # url_dec space_as_plus (d # e # cs)
      else if c = CHR ''%'' \<and> isxdigit d \<and> isxdigit e
      then char_of (16 * xdigit_value d + xdigit_value e) # url_dec space_as_plus cs
      else c # url_dec space_as_plus (d # e # cs))"
| "url_dec space_as_plus [c, d] = url_dec space_as_plus [c] @ url_dec space_as_plus [d]"
| "url_dec space_as_plus [c] = [if c = CHR ''+'' \<and> space_as_plus then CHR '' '' else c]"
| "url_dec space_as_plus [] = []"

lemma url_buffer_simps [simp]: "url_buffer pre (Some s) = s" "url_buffer pre None = pre"
  by (simp_all add: url_buffer_def)

lemma url_buffer_map [simp]: "url_buffer (pre @ [c]) (map_option (\<lambda>s. s @ [c]) ss) = url_buffer pre ss @ [c]"
  by (cases ss) simp_all

lemma UrlEncode_loop_enc:
  "url_buffer (pre @ cs) (UrlEncode_loop b pre cs ss) = url_buffer pre ss @ concat (map (url_enc b) cs)"
proof (induction cs arbitrary: pre ss)
  case (Cons c cs)
  let ?ss = "if \<not> char_is_unreserved c then
      (if c = CHR '' '' \<and> b then Some (url_buffer pre ss @ ''+'')
       else Some (url_buffer pre ss @ ''%'' @ [hexdigits ! (of_char c div 16), hexdigits ! (of_char c mod 16)]))
    else map_option (\<lambda>s. s @ [c]) ss"
  have "url_buffer (pre @ [c]) ?ss = url_buffer pre ss @ url_enc b c" by (simp add: url_enc_def)
  then show ?case using Cons.IH [of "pre @ [c]" ?ss] by simp
qed simp

lemma UrlEncode_enc: "UrlEncode str b = concat (map (url_enc b) str)"
  using UrlEncode_loop_enc [of "[]" str b None] by (simp add: UrlEncode_def url_buffer_def split: option.splits)

lemma UrlDecode_loop_dec: "url_buffer (pre @ cs) (UrlDecode_loop b pre cs ss) = url_buffer pre ss @ url_dec b cs"
proof (induction b cs arbitrary: pre ss rule: url_dec.induct)
  case (1 b c d e cs)
  show ?case
    using 1(1) [of "pre @ [c]" "Some (url_buffer pre ss @ '' '')"]
      1(2) [of "pre @ [c, d, e]" "Some (url_buffer pre ss @ [char_of (16 * xdigit_value d + xdigit_value e)])"]
      1(3) [of "pre @ [c]" "map_option (\<lambda>s. s @ [c]) ss"]
    by auto
qed (auto simp: url_buffer_def split: option.splits)

lemma UrlDecode_dec: "UrlDecode str b = url_dec b str"
  using UrlDecode_loop_dec [of "[]" str b None] by (simp add: UrlDecode_def url_buffer_def split: option.splits)

lemma hexdigits_value:
  assumes "d < 16"
  shows "isxdigit (hexdigits ! d)" "xdigit_value (hexdigits ! d) = d" "char_is_unreserved (hexdigits ! d)"
proof -
  have "list_all (\<lambda>d. isxdigit (hexdigits ! d) \<and> xdigit_value (hexdigits ! d) = d \<and>
      char_is_unreserved (hexdigits ! d)) [0..<16]"
    by code_simp
  then show "isxdigit (hexdigits ! d)" "xdigit_value (hexdigits ! d) = d" "char_is_unreserved (hexdigits ! d)"
    using assms by (auto simp: list_all_iff)
qed

lemma reserved_chars [simp]: "\<not> char_is_unreserved (CHR ''%'')" "\<not> char_is_unreserved (CHR ''+'')"
  by code_simp+

lemma of_char_nibbles: "(of_char c :: nat) div 16 < 16" "(of_char c :: nat) mod 16 < 16"
proof -
  have "(of_char c :: nat) < 256" by (metis of_char_mod_256 mod_less_divisor zero_less_numeral)
  then show "(of_char c :: nat) div 16 < 16" by linarith
qed simp

lemma url_enc_chars: "x \<in> set (url_enc b c) \<Longrightarrow> char_is_unreserved x \<or> x \<in> {CHR ''%'', CHR ''+''}"
  by (auto simp: url_enc_def hexdigits_value(3) of_char_nibbles split: if_splits)

lemma url_dec_enc: "url_dec b (url_enc b c @ cs) = c # url_dec b cs"
proof (cases "char_is_unreserved c \<or> c = CHR '' '' \<and> b")
  case True
  then have "url_enc b c = [if c = CHR '' '' \<and> b \<and> \<not> char_is_unreserved c then CHR ''+'' else c]"
    by (auto simp: url_enc_def)
  moreover have "c \<noteq> CHR ''%''" "c \<noteq> CHR ''+''" using True by auto
  ultimately show ?thesis
    using True by (cases cs rule: list.exhaust; cases "tl cs"; auto)
next
  case False
  have "16 * ((of_char c :: nat) div 16) + of_char c mod 16 = of_char c" by simp
  then show ?thesis
    using False hexdigits_value [OF of_char_nibbles(1) [of c]] hexdigits_value [OF of_char_nibbles(2) [of c]] by (auto simp: url_enc_def)
qed

text \<open>C29. \<open>UrlDecode\<close> undoes \<open>UrlEncode\<close> on every string of bytes, with spaces as plus signs or not,
  and the encoding contains only unreserved characters, plus signs and percent escapes.\<close>

theorem url_round_trip:
  "UrlDecode (UrlEncode str b) b = str \<and>
   set (UrlEncode str b) \<subseteq> {c. char_is_unreserved c} \<union> {CHR ''%'', CHR ''+''}"
proof -
  have "url_dec b (concat (map (url_enc b) str)) = str"
    by (induction str) (simp_all add: url_dec_enc)
  then show ?thesis using url_enc_chars by (auto simp: UrlDecode_dec UrlEncode_enc)
qed

section \<open>Trimming and joining\<close>

text \<open>\<open>find_first_not_of\<close> and \<open>find_last_not_of\<close> of \<open>std::string\<close>; \<open>None\<close> is \<open>npos\<close>.\<close>

definition find_first_not_of :: "string \<Rightarrow> string \<Rightarrow> nat option" where
  "find_first_not_of delimit str =
     (let n = length (takeWhile (\<lambda>c. c \<in> set delimit) str) in if n < length str then Some n else None)"

definition find_last_not_of :: "string \<Rightarrow> string \<Rightarrow> nat option" where
  "find_last_not_of delimit str =
     (let n = length (takeWhile (\<lambda>c. c \<in> set delimit) (rev str))
      in if n < length str then Some (length str - 1 - n) else None)"

definition substr :: "nat \<Rightarrow> nat \<Rightarrow> string \<Rightarrow> string" where
  "substr pos n str = take n (drop pos str)"

definition Trim :: "string \<Rightarrow> string \<Rightarrow> string" where
  "Trim str delimit =
     (case find_first_not_of delimit str of
        None \<Rightarrow> []
      | Some b \<Rightarrow> substr b (the (find_last_not_of delimit str) - b + 1) str)"

definition TrimLeft :: "string \<Rightarrow> string \<Rightarrow> string" where
  "TrimLeft str delimit = (case find_first_not_of delimit str of None \<Rightarrow> [] | Some b \<Rightarrow> drop b str)"

definition TrimRight :: "string \<Rightarrow> string \<Rightarrow> string" where
  "TrimRight str delimit = (case find_last_not_of delimit str of None \<Rightarrow> [] | Some e \<Rightarrow> substr 0 e str)"

fun Join_loop :: "bool \<Rightarrow> string list \<Rightarrow> string \<Rightarrow> string" where
  "Join_loop first [] tag = []"
| "Join_loop first (x # xs) tag = (if first then [] else tag) @ x @ Join_loop False xs tag"

definition Join :: "string list \<Rightarrow> string \<Rightarrow> string" where
  "Join xs tag = Join_loop True xs tag"

text \<open>\<open>toupper\<close> and \<open>tolower\<close> in the C locale.\<close>

definition toupper :: "char \<Rightarrow> char" where
  "toupper c = (if CHR ''a'' \<le> c \<and> c \<le> CHR ''z'' then char_of (of_char c - 32 :: nat) else c)"

definition tolower :: "char \<Rightarrow> char" where
  "tolower c = (if CHR ''A'' \<le> c \<and> c \<le> CHR ''Z'' then char_of (of_char c + 32 :: nat) else c)"

definition ToUpper :: "string \<Rightarrow> string" where
  "ToUpper name = map toupper name"

definition ToLower :: "string \<Rightarrow> string" where
  "ToLower name = map tolower name"

section \<open>Numbers in strings\<close>

definition isspace :: "char \<Rightarrow> bool" where
  "isspace c \<longleftrightarrow> c = CHR '' '' \<or> CHR 0x09 \<le> c \<and> c \<le> CHR 0x0D"

text \<open>\<open>strtoull\<close> with base 10: white space, a sign, digits; the largest value when the number does
  not fit, and the negated value after a minus sign.\<close>

definition strtoull :: "string \<Rightarrow> u64" where
  "strtoull str =
     (let s = dropWhile isspace str;
          neg = (s \<noteq> [] \<and> hd s = CHR ''-'');
          digits = takeWhile is_digit (if s \<noteq> [] \<and> (hd s = CHR ''-'' \<or> hd s = CHR ''+'') then tl s else s);
          n = value_of_digits digits
      in if n \<ge> 2 ^ 64 then - 1 else if neg then - of_nat n else of_nat n)"

definition Atoi :: "string \<Rightarrow> int" where
  "Atoi str = (if str = [] then 0 else sint (strtoull str))"

definition ToChar :: "string \<Rightarrow> int" where
  "ToChar str = (if str = [] then 0 else sint (byte_of (hd str)))"

text \<open>\<open>GetParamValue\<close> and \<open>CheckGetParamValue\<close>; \<open>cast\<close> is \<open>boost::lexical_cast\<close>, \<open>None\<close> when it
  throws.\<close>

definition GetParamValue :: "('v \<Rightarrow> 'r option) \<Rightarrow> ('k \<rightharpoonup> 'v) \<Rightarrow> 'k \<Rightarrow> 'r \<Rightarrow> 'r" where
  "GetParamValue cast m k def =
     (case m k of None \<Rightarrow> def | Some x \<Rightarrow> (case cast x of Some r \<Rightarrow> r | None \<Rightarrow> def))"

definition CheckGetParamValue :: "('v \<Rightarrow> 'r option) \<Rightarrow> ('k \<rightharpoonup> 'v) \<Rightarrow> 'k \<Rightarrow> 'r \<Rightarrow> bool \<times> 'r" where
  "CheckGetParamValue cast m k v =
     (case m k of None \<Rightarrow> (False, v) | Some x \<Rightarrow> (case cast x of Some r \<Rightarrow> (True, r) | None \<Rightarrow> (False, v)))"

section \<open>Binary search\<close>

text \<open>The instance for \<open>int\<close>. The second test of the loop reads \<open>arr[mid < v]\<close>, the element at 0 or 1.
  Reading outside of the array and overflow of \<open>left + right\<close> are undefined.\<close>

definition arr_at :: "int list \<Rightarrow> int \<Rightarrow> int result" where
  "arr_at arr i = (if 0 \<le> i \<and> nat i < length arr then Inr (arr ! nat i) else Inl (Undefined ''arr[i]''))"

function BinarySearch_loop :: "int list \<Rightarrow> int \<Rightarrow> int \<Rightarrow> int \<Rightarrow> int result" where
  "BinarySearch_loop arr v left right =
     (if left \<le> right then
        if left + right \<ge> 2 ^ 31 then Inl (Undefined ''left + right'')
        else
          let mid = (left + right) div 2 in
          rbind (arr_at arr mid) (\<lambda>x.
          if x > v then BinarySearch_loop arr v left (mid - 1)
          else
            rbind (arr_at arr (if mid < v then 1 else 0)) (\<lambda>y.
            if y \<noteq> 0 then BinarySearch_loop arr v (mid + 1) right else Inr mid))
      else Inr (- (left + 1)))"
  by pat_completeness auto
termination
  by (relation "measure (\<lambda>(arr, v, left, right). nat (right - left + 1))") auto

declare BinarySearch_loop.simps [simp del]

definition BinarySearch :: "int list \<Rightarrow> int \<Rightarrow> int result" where
  "BinarySearch arr v = BinarySearch_loop arr v 0 (int (length arr) - 1)"

section \<open>Atomic operations\<close>

text \<open>Each operation returns its result and the new value of the variable, in one step.\<close>

unbundle bit_operations_syntax

definition addFetch :: "'a::len word \<Rightarrow> 'a word \<Rightarrow> 'a word \<times> 'a word" where "addFetch t v = (t + v, t + v)"
definition subFetch :: "'a::len word \<Rightarrow> 'a word \<Rightarrow> 'a word \<times> 'a word" where "subFetch t v = (t - v, t - v)"
definition orFetch :: "'a::len word \<Rightarrow> 'a word \<Rightarrow> 'a word \<times> 'a word" where "orFetch t v = (t OR v, t OR v)"
definition andFetch :: "'a::len word \<Rightarrow> 'a word \<Rightarrow> 'a word \<times> 'a word" where "andFetch t v = (t AND v, t AND v)"
definition xorFetch :: "'a::len word \<Rightarrow> 'a word \<Rightarrow> 'a word \<times> 'a word" where "xorFetch t v = (t XOR v, t XOR v)"
definition nandFetch :: "'a::len word \<Rightarrow> 'a word \<Rightarrow> 'a word \<times> 'a word" where
  "nandFetch t v = (NOT (t AND v), NOT (t AND v))"
definition fetchAdd :: "'a::len word \<Rightarrow> 'a word \<Rightarrow> 'a word \<times> 'a word" where "fetchAdd t v = (t, t + v)"
definition fetchSub :: "'a::len word \<Rightarrow> 'a word \<Rightarrow> 'a word \<times> 'a word" where "fetchSub t v = (t, t - v)"
definition fetchOr :: "'a::len word \<Rightarrow> 'a word \<Rightarrow> 'a word \<times> 'a word" where "fetchOr t v = (t, t OR v)"
definition fetchAnd :: "'a::len word \<Rightarrow> 'a word \<Rightarrow> 'a word \<times> 'a word" where "fetchAnd t v = (t, t AND v)"
definition fetchXor :: "'a::len word \<Rightarrow> 'a word \<Rightarrow> 'a word \<times> 'a word" where "fetchXor t v = (t, t XOR v)"
definition fetchNand :: "'a::len word \<Rightarrow> 'a word \<Rightarrow> 'a word \<times> 'a word" where "fetchNand t v = (t, NOT (t AND v))"

definition compareAndSwap :: "'a::len word \<Rightarrow> 'a word \<Rightarrow> 'a word \<Rightarrow> 'a word \<times> 'a word" where
  "compareAndSwap t old_val new_val = (t, if t = old_val then new_val else t)"

definition compareAndSwapBool :: "'a::len word \<Rightarrow> 'a word \<Rightarrow> 'a word \<Rightarrow> bool \<times> 'a word" where
  "compareAndSwapBool t old_val new_val = (t = old_val, if t = old_val then new_val else t)"

section \<open>Streams\<close>

text \<open>An input stream: the bytes that are left and whether the stream is good. \<open>read\<close> on a good stream
  stores what it finds, and clears the state when that is less than asked for.\<close>

record istream =
  is_bytes :: "u8 list"
  is_good :: bool

definition stream_read :: "nat \<Rightarrow> istream \<Rightarrow> u8 list \<times> istream" where
  "stream_read n is =
     (if is_good is
      then (take n (is_bytes is), is\<lparr>is_bytes := drop n (is_bytes is), is_good := (n \<le> length (is_bytes is))\<rparr>)
      else ([], is))"

lemma stream_read_progress:
  assumes "is_good is" and "0 < n" and "stream_read n is = (bs, is')"
  shows "is_good is' \<Longrightarrow> length bs = n"
  using assms by (auto simp: stream_read_def)

text \<open>\<open>data\<close> has the bytes read so far, so that \<open>pos\<close> is its length.\<close>

function ReadFix_loop :: "u8 list \<Rightarrow> nat \<Rightarrow> istream \<Rightarrow> u8 list \<times> istream" where
  "ReadFix_loop data sz is =
     (if is_good is \<and> length data < sz then
        let (bs, is') = stream_read (sz - length data) is in ReadFix_loop (data @ bs) sz is'
      else (data, is))"
  by pat_completeness auto
termination
  by (relation "measure (\<lambda>(data, sz, is). (if is_good is then 1 else 0) + (sz - length data))")
    (auto simp: stream_read_def split: if_splits)

declare ReadFix_loop.simps [simp del]

definition ReadFixFromStream :: "nat \<Rightarrow> istream \<Rightarrow> bool \<times> u8 list \<times> istream" where
  "ReadFixFromStream sz is = (let (data, is') = ReadFix_loop [] sz is in (length data = sz, data, is'))"

text \<open>\<open>SpeedLimit\<close>. The quotient \<open>curCount_ / countPerMS_\<close> is computed in \<open>float\<close>; it is the argument
  \<open>quot\<close>, applied to the speed and the count. \<open>add\<close> returns the microseconds it sleeps, if any.\<close>

record speed_limit =
  sl_speed :: u32
  sl_curCount :: u32
  sl_curSec :: u32

definition SpeedLimit_new :: "u32 \<Rightarrow> speed_limit" where
  "SpeedLimit_new speed = \<lparr>sl_speed = (if speed = 0 then - 1 else speed), sl_curCount = 0, sl_curSec = 0\<rparr>"

definition SpeedLimit_add :: "(u32 \<Rightarrow> u32 \<Rightarrow> int) \<Rightarrow> u64 \<Rightarrow> u32 \<Rightarrow> speed_limit \<Rightarrow> int option \<times> speed_limit" where
  "SpeedLimit_add quot curms v sl =
     (if curms div 1000 \<noteq> ucast (sl_curSec sl)
      then (None, sl\<lparr>sl_curSec := ucast (curms div 1000), sl_curCount := v\<rparr>)
      else
        let sl1 = sl\<lparr>sl_curCount := sl_curCount sl + v\<rparr>;
            usedms = uint (curms mod 1000);
            limitms = quot (sl_speed sl1) (sl_curCount sl1)
        in (if usedms < limitms then Some (1000 * (limitms - usedms)) else None, sl1))"

text \<open>The streams with a speed limit: \<open>step\<close> is the value of \<open>ceil(speed / 100.0)\<close> and \<open>clock\<close> the times
  at which \<open>add\<close> is called. The sleeps are returned.\<close>

definition speed_per :: "nat \<Rightarrow> nat" where
  "speed_per step = max step (1024 * 64)"

function ReadSpeed_loop :: "(u32 \<Rightarrow> u32 \<Rightarrow> int) \<Rightarrow> (nat \<Rightarrow> u64) \<Rightarrow> nat \<Rightarrow> u8 list \<Rightarrow> nat \<Rightarrow> istream \<Rightarrow> speed_limit option \<Rightarrow>
    int list \<Rightarrow> u8 list \<times> istream \<times> int list" where
  "ReadSpeed_loop quot clock step data sz is limit sleeps =
     (if is_good is \<and> length data < sz then
        let s = (if sz - length data > speed_per step then speed_per step else sz - length data);
            (bs, is') = stream_read s is;
            (slept, limit') =
              (case limit of
                 None \<Rightarrow> (None, None)
               | Some l \<Rightarrow> (let (t, l') = SpeedLimit_add quot (clock (length data)) (of_nat (length bs)) l in (t, Some l')))
        in ReadSpeed_loop quot clock step (data @ bs) sz is' limit'
             (sleeps @ (case slept of None \<Rightarrow> [] | Some t \<Rightarrow> [t]))
      else (data, is, sleeps))"
  by pat_completeness auto
termination
  by (relation "measure (\<lambda>(quot, clock, step, data, sz, is, limit, sleeps).
      (if is_good is then 1 else 0) + (sz - length data))")
    (auto simp: stream_read_def speed_per_def split: if_splits)

declare ReadSpeed_loop.simps [simp del]

definition ReadFixFromStreamWithSpeed :: "(u32 \<Rightarrow> u32 \<Rightarrow> int) \<Rightarrow> (nat \<Rightarrow> u64) \<Rightarrow> nat \<Rightarrow> bool \<Rightarrow> u64 \<Rightarrow> nat \<Rightarrow> istream \<Rightarrow>
    bool \<times> u8 list \<times> istream" where
  "ReadFixFromStreamWithSpeed quot clock step is_file speed sz is =
     (let (data, is', sleeps) =
        ReadSpeed_loop quot clock step [] sz is (if is_file then Some (SpeedLimit_new (ucast speed)) else None) []
      in (length data = sz, data, is'))"

text \<open>An output stream takes every byte while it is good; \<open>os_room\<close> is the number of bytes after which
  it fails.\<close>

record ostream =
  os_bytes :: "u8 list"
  os_room :: nat
  os_good :: bool

definition stream_write :: "u8 list \<Rightarrow> ostream \<Rightarrow> ostream" where
  "stream_write bs os =
     (if os_good os
      then os\<lparr>os_bytes := os_bytes os @ take (os_room os) bs, os_room := os_room os - length bs,
             os_good := (length bs \<le> os_room os)\<rparr>
      else os)"

definition WriteToStream :: "u8 list \<Rightarrow> ostream \<Rightarrow> bool \<times> ostream" where
  "WriteToStream v os =
     (if \<not> os_good os then (False, os) else (let os' = stream_write v os in (os_good os', os')))"

function WriteSpeed_loop :: "nat \<Rightarrow> u8 list \<Rightarrow> nat \<Rightarrow> ostream \<Rightarrow> nat \<times> ostream" where
  "WriteSpeed_loop step data offset os =
     (if os_good os \<and> offset < length data then
        let s = (if length data - offset > speed_per step then speed_per step else length data - offset)
        in WriteSpeed_loop step data (offset + s) (stream_write (take s (drop offset data)) os)
      else (offset, os))"
  by pat_completeness auto
termination
  by (relation "measure (\<lambda>(step, data, offset, os). length data - offset)") (auto simp: speed_per_def)

declare WriteSpeed_loop.simps [simp del]

text \<open>The sleeps of the limit do not change what is written; they are left out here.\<close>

definition WriteFixToStreamWithSpeed :: "nat \<Rightarrow> u8 list \<Rightarrow> ostream \<Rightarrow> bool \<times> ostream" where
  "WriteFixToStreamWithSpeed step data os =
     (let (offset, os') = WriteSpeed_loop step data 0 os in (offset = length data, os'))"

section \<open>Time and addresses of the host\<close>

definition GetCurrentMS :: "u64 \<Rightarrow> u64 \<Rightarrow> u64" where
  "GetCurrentMS tv_sec tv_usec = tv_sec * 1000 + tv_usec div 1000"

definition GetCurrentUS :: "u64 \<Rightarrow> u64 \<Rightarrow> u64" where
  "GetCurrentUS tv_sec tv_usec = tv_sec * 1000 * 1000 + tv_usec"

text \<open>The loop of \<open>GetIPv4Inet\<close> ends at the first interface without an address.\<close>

definition is_loopback_name :: "string \<Rightarrow> bool" where
  "is_loopback_name name \<longleftrightarrow> take 2 (ToLower name) = ''lo''"

fun GetIPv4Inet_loop :: "ifaddrs list \<Rightarrow> u32 \<Rightarrow> u32" where
  "GetIPv4Inet_loop [] ipv4 = ipv4"
| "GetIPv4Inet_loop (x # xs) ipv4 =
     (case ifa_addr x of
        None \<Rightarrow> ipv4
      | Some bs \<Rightarrow>
          if read16 bs \<noteq> AF_INET then GetIPv4Inet_loop xs ipv4
          else if is_loopback_name (ifa_name x) then GetIPv4Inet_loop xs ipv4
          else GetIPv4Inet_loop xs (sin_addr (sockaddr_in_of bs)))"

definition GetIPv4Inet :: "ifaddrs list option \<Rightarrow> u32" where
  "GetIPv4Inet ifs =
     (let localhost = byteswap32 0x7f000001 in
      case ifs of None \<Rightarrow> localhost | Some xs \<Rightarrow> GetIPv4Inet_loop xs localhost)"

section \<open>Lemmas and properties\<close>

text \<open>What trimming at the right should give.\<close>

definition strip_right :: "string \<Rightarrow> string \<Rightarrow> string" where
  "strip_right delimit str = rev (dropWhile (\<lambda>c. c \<in> set delimit) (rev str))"

lemma length_takeWhile_full: "length (takeWhile P xs) < length xs \<longleftrightarrow> \<not> (\<forall>x \<in> set xs. P x)"
  by (induction xs) auto

lemma while_all: "\<forall>x \<in> set xs. P x \<Longrightarrow> dropWhile P xs = []" "\<forall>x \<in> set xs. P x \<Longrightarrow> takeWhile P xs = xs"
  by simp_all

lemma strip_right_take:
  "strip_right delimit str = take (length str - length (takeWhile (\<lambda>c. c \<in> set delimit) (rev str))) str"
  by (simp add: strip_right_def rev_drop flip: drop_length_takeWhile)

lemma TrimLeft_dropWhile: "TrimLeft str delimit = dropWhile (\<lambda>c. c \<in> set delimit) str"
  by (auto simp: TrimLeft_def find_first_not_of_def Let_def length_takeWhile_full while_all(1))

lemma Trim_eq: "Trim str delimit = strip_right delimit (TrimLeft str delimit)"
proof (cases "\<forall>c \<in> set str. c \<in> set delimit")
  case True
  then show ?thesis
    by (simp add: Trim_def find_first_not_of_def Let_def length_takeWhile_full TrimLeft_dropWhile strip_right_def
        while_all(1))
next
  case False
  let ?P = "\<lambda>c. c \<in> set delimit"
  let ?b = "length (takeWhile ?P str)" and ?xs = "dropWhile ?P str"
  obtain y where y: "y \<in> set ?xs" "\<not> ?P y" using False by (metis dropWhile_eq_Nil_conv hd_dropWhile hd_in_set)
  have str: "str = takeWhile ?P str @ ?xs" by simp
  have n: "takeWhile ?P (rev str) = takeWhile ?P (rev ?xs)"
    using takeWhile_append1 [of y "rev ?xs" ?P "rev (takeWhile ?P str)"] y by (metis str rev_append set_rev)
  let ?n = "length (takeWhile ?P (rev ?xs))"
  have "?n < length ?xs" using y length_takeWhile_full [of ?P "rev ?xs"] by auto
  moreover have "length str = ?b + length ?xs" by (metis str length_append)
  ultimately have e: "find_last_not_of delimit str = Some (?b + (length ?xs - 1 - ?n))" "?b < length str"
    using False by (simp_all add: find_last_not_of_def n length_takeWhile_full)
  have "Trim str delimit = take (length ?xs - ?n) ?xs"
    using e Suc_diff_Suc [OF \<open>?n < length ?xs\<close>] by (simp add: Trim_def find_first_not_of_def substr_def)
  then show ?thesis by (simp add: TrimLeft_dropWhile strip_right_take)
qed

text \<open>\<open>TrimRight\<close> takes the position of the last character to keep for a length and drops it too.\<close>

lemma TrimRight_butlast: "TrimRight str delimit = butlast (strip_right delimit str)"
proof (cases "\<forall>c \<in> set str. c \<in> set delimit")
  case True
  then have "dropWhile (\<lambda>c. c \<in> set delimit) (rev str) = []" "takeWhile (\<lambda>c. c \<in> set delimit) (rev str) = rev str"
    by simp_all
  then show ?thesis by (simp only: TrimRight_def find_last_not_of_def strip_right_def Let_def) simp
next
  case False
  then show ?thesis
    using length_takeWhile_full [of _ "rev str"]
    by (simp add: TrimRight_def find_last_not_of_def substr_def strip_right_take butlast_take)
qed

text \<open>The second test of \<open>BinarySearch\<close> looks at the first or second element of the array: in an array
  of at least two elements without a zero nothing is ever found.\<close>

lemma arr_at_ok: "0 \<le> i \<Longrightarrow> i < int (length arr) \<Longrightarrow> arr_at arr i = Inr (arr ! nat i)"
  by (simp add: arr_at_def)

lemma BinarySearch_loop_fails:
  assumes "2 \<le> length arr" and "0 \<notin> set arr" and "length arr < 2 ^ 30" and "0 \<le> left" and "right < int (length arr)"
  shows "\<exists>r. BinarySearch_loop arr v left right = Inr r \<and> r < 0"
  using assms
proof (induction arr v left right rule: BinarySearch_loop.induct)
  case (1 arr v left right)
  show ?case
  proof (cases "left \<le> right")
    case False
    then show ?thesis using 1 by (subst BinarySearch_loop.simps) simp
  next
    case True
    let ?mid = "(left + right) div 2"
    have m: "0 \<le> ?mid" "?mid < int (length arr)" "left + right < 2 ^ 31" using 1(3-7) True by auto
    have "arr ! 0 \<in> set arr" "arr ! 1 \<in> set arr" using 1(3) by (intro nth_mem, linarith)+
    then have nz: "arr ! (if ?mid < v then 1 else 0) \<noteq> 0" using 1(4) by (metis (full_types))
    have i: "arr_at arr (if ?mid < v then 1 else 0) = Inr (arr ! (if ?mid < v then 1 else 0))"
      using 1(3) by (auto simp: arr_at_def)
    show ?thesis
    proof (cases "arr ! nat ?mid > v")
      case True
      then show ?thesis
        using 1(1) [OF \<open>left \<le> right\<close> _ refl arr_at_ok [OF m(1,2)]] 1(3-7) m \<open>left \<le> right\<close>
        by (subst BinarySearch_loop.simps) (simp add: arr_at_ok Let_def)
    next
      case False
      then show ?thesis
        using 1(2) [OF \<open>left \<le> right\<close> _ refl arr_at_ok [OF m(1,2)] _ i] 1(3-7) m nz \<open>left \<le> right\<close>
        by (subst BinarySearch_loop.simps) (simp add: arr_at_ok Let_def i)
    qed
  qed
qed

lemma BinarySearch_fails:
  assumes "2 \<le> length arr" and "0 \<notin> set arr" and "length arr < 2 ^ 30"
  shows "\<exists>r. BinarySearch arr v = Inr r \<and> r < 0"
  using BinarySearch_loop_fails [OF assms, of 0 "int (length arr) - 1" v] by (simp add: BinarySearch_def)

lemma BinarySearch_present_not_found: "BinarySearch [1, 2, 3] 2 = Inr (-3)"
  by code_simp

text \<open>Numbers printed in decimal are read back.\<close>

lemma show_nat_no_space: "show_nat n = c # cs \<Longrightarrow> \<not> isspace c \<and> c \<noteq> CHR ''-'' \<and> c \<noteq> CHR ''+''"
  using show_nat_digits [of c n] by (auto simp: isspace_def is_digit_def less_eq_char_def)

lemma takeWhile_digits [simp]: "takeWhile is_digit (show_nat n) = show_nat n"
  using show_nat_digits [of _ n] by (simp add: takeWhile_eq_all_conv)

lemma strtoull_show:
  "n < 2 ^ 64 \<Longrightarrow> strtoull (show_nat n) = of_nat n"
  "n < 2 ^ 64 \<Longrightarrow> strtoull (CHR ''-'' # show_nat n) = - of_nat n"
proof -
  obtain c cs where c: "show_nat n = c # cs" by (cases "show_nat n") simp_all
  note h = show_nat_no_space [OF c]
  show "strtoull (show_nat n) = of_nat n" if "n < 2 ^ 64"
  proof -
    have "dropWhile isspace (show_nat n) = show_nat n" "hd (show_nat n) \<noteq> CHR ''-''" "hd (show_nat n) \<noteq> CHR ''+''"
      using h c by simp_all
    then show ?thesis using that by (simp add: strtoull_def)
  qed
  show "strtoull (CHR ''-'' # show_nat n) = - of_nat n" if "n < 2 ^ 64"
  proof -
    have "dropWhile isspace (CHR ''-'' # show_nat n) = CHR ''-'' # show_nat n"
      by (simp add: isspace_def less_eq_char_def)
    then show ?thesis using that by (simp add: strtoull_def)
  qed
qed

text \<open>\<open>Atoi\<close> reads back every 64-bit signed number printed in decimal, and numbers that do not fit
  into 64 bits become \<open>-1\<close>.\<close>

theorem Atoi_round_trip:
  "(- (2 ^ 63) \<le> i \<and> i < 2 ^ 63 \<longrightarrow> Atoi (show_int i) = i) \<and> (2 ^ 64 \<le> i \<longrightarrow> Atoi (show_int i) = -1)"
proof (intro conjI impI)
  assume i: "- (2 ^ 63) \<le> i \<and> i < 2 ^ 63"
  have "strtoull (show_int i) = word_of_int i"
    using i strtoull_show [of "nat i"] strtoull_show [of "nat (- i)"]
    by (auto simp: show_int_def nat_less_iff)
  moreover have "sint (word_of_int i :: u64) = i"
    using i by (simp add: sint_uint uint_word_of_int_eq signed_take_bit_take_bit signed_take_bit_int_eq_self)
  moreover have "show_int i \<noteq> []" by (simp add: show_int_def)
  ultimately show "Atoi (show_int i) = i" by (simp add: Atoi_def)
next
  assume i: "2 ^ 64 \<le> i"
  obtain c cs where c: "show_nat (nat i) = c # cs" by (cases "show_nat (nat i)") simp_all
  have "dropWhile isspace (show_nat (nat i)) = show_nat (nat i)" "hd (show_nat (nat i)) \<noteq> CHR ''-''"
    "hd (show_nat (nat i)) \<noteq> CHR ''+''"
    using show_nat_no_space [OF c] c by simp_all
  then have "strtoull (show_int i) = - 1" using i by (simp add: show_int_def strtoull_def nat_le_iff le_nat_iff)
  moreover have "show_int i \<noteq> []" by (simp add: show_int_def)
  ultimately show "Atoi (show_int i) = -1" by (simp add: Atoi_def)
qed

theorem Atoi_round_trip_witness: "Atoi (show_int (-42)) = -42 \<and> Atoi (show_int (2 ^ 64)) = -1"
  using Atoi_round_trip [of "-42"] Atoi_round_trip [of "2 ^ 64"] by simp

section \<open>Streams\<close>

lemma stream_read_take:
  "is_good is \<Longrightarrow> stream_read n is = (take n (is_bytes is), \<lparr>is_bytes = drop n (is_bytes is), is_good = (n \<le> length (is_bytes is))\<rparr>)"
  by (cases "is") (simp add: stream_read_def)

lemma stream_read_0: "stream_read 0 is = ([], is)"
  by (cases "is") (simp add: stream_read_def)

lemma stream_read_bad: "\<not> is_good is \<Longrightarrow> stream_read n is = ([], is)"
  by (simp add: stream_read_def)

lemma stream_read_add:
  "stream_read (n + m) is = (let (a, is1) = stream_read n is; (b, is2) = stream_read m is1 in (a @ b, is2))"
proof (cases "is_good is \<and> n \<le> length (is_bytes is)")
  case True
  then have "n + m \<le> length (is_bytes is) \<longleftrightarrow> m \<le> length (is_bytes is) - n"
    "drop m (drop n (is_bytes is)) = drop (n + m) (is_bytes is)"
    by (auto simp: add.commute)
  then show ?thesis using True by (simp add: stream_read_take take_add del: drop_drop)
next
  case False
  then show ?thesis by (auto simp: stream_read_def)
qed

lemma stream_read_length: "stream_read n is = (bs, is') \<Longrightarrow> length bs \<le> n \<and> (is_good is' \<longrightarrow> length bs = n)"
  by (cases "is_good is") (auto simp: stream_read_def)

lemma ReadFix_loop_read:
  "ReadFix_loop data sz is = (let (bs, is') = stream_read (sz - length data) is in (data @ bs, is'))"
proof (induction data sz "is" rule: ReadFix_loop.induct)
  case (1 data sz "is")
  show ?case
  proof (cases "is_good is \<and> length data < sz")
    case True
    obtain bs is' where r: "stream_read (sz - length data) is = (bs, is')" by fastforce
    have "stream_read (sz - length (data @ bs)) is' = ([], is')"
      using stream_read_length [OF r] stream_read_bad stream_read_0 True by (cases "is_good is'") auto
    then show ?thesis using True 1 [OF True r [symmetric] refl] r by (subst ReadFix_loop.simps) simp
  next
    case False
    then show ?thesis by (subst ReadFix_loop.simps) (auto simp: stream_read_bad stream_read_0)
  qed
qed

lemma ReadSpeed_loop_read:
  "\<exists>sl. ReadSpeed_loop quot clock step data sz is limit sleeps =
    (let (bs, is') = stream_read (sz - length data) is in (data @ bs, is', sl))"
proof (induction "(if is_good is then 1 else 0) + (sz - length data)" arbitrary: data "is" limit sleeps rule: less_induct)
  case less
  show ?case
  proof (cases "is_good is \<and> length data < sz")
    case True
    define s where "s = (if sz - length data > speed_per step then speed_per step else sz - length data)"
    have s: "0 < s" "s \<le> sz - length data" using True by (auto simp: s_def speed_per_def)
    obtain bs is' where r: "stream_read s is = (bs, is')" by fastforce
    note len = stream_read_length [OF r]
    have m: "(if is_good is' then 1 else 0) + (sz - length (data @ bs)) < (if is_good is then 1 else 0) + (sz - length data)"
      using True len s by (cases "is_good is'") (simp_all, linarith?)
    obtain limit' slept where lim: "(case limit of None \<Rightarrow> (None, None)
        | Some l \<Rightarrow> (let (t, l') = SpeedLimit_add quot (clock (length data)) (of_nat (length bs)) l in (t, Some l'))) =
          (slept, limit')" by fastforce
    have "ReadSpeed_loop quot clock step data sz is limit sleeps =
        ReadSpeed_loop quot clock step (data @ bs) sz is' limit'
          (sleeps @ (case slept of None \<Rightarrow> [] | Some t \<Rightarrow> [t]))"
      using True r lim by (subst ReadSpeed_loop.simps) (simp add: s_def [symmetric] Let_def)
    moreover have "stream_read (sz - length data) is =
        (let (b, is2) = stream_read (sz - length (data @ bs)) is' in (bs @ b, is2))"
    proof (cases "is_good is'")
      case True
      then show ?thesis
        using stream_read_add [of s "sz - length data - s" "is"] r s len by simp
    next
      case False
      then show ?thesis
        using stream_read_add [of s "sz - length data - s" "is"] r s by (simp add: stream_read_bad)
    qed
    ultimately show ?thesis
      using less [OF m, of limit' "sleeps @ (case slept of None \<Rightarrow> [] | Some t \<Rightarrow> [t])"]
      by (auto split: prod.splits)
  next
    case False
    then show ?thesis by (subst ReadSpeed_loop.simps) (auto simp: stream_read_bad stream_read_0)
  qed
qed

text \<open>Reading a fixed number of bytes ends and succeeds exactly when the stream is good and has
  them; the data are then its first bytes. Reading in chunks under a speed limit gives the same answer,
  the same data and the same stream.\<close>

theorem read_fix_equiv:
  "ReadFixFromStream sz is = (let (bs, is') = stream_read sz is in (length bs = sz, bs, is')) \<and>
   ReadFixFromStreamWithSpeed quot clock step is_file speed sz is = ReadFixFromStream sz is"
proof -
  let ?l = "if is_file then Some (SpeedLimit_new (ucast speed)) else None"
  obtain sl where "ReadSpeed_loop quot clock step [] sz is ?l [] = (let (bs, is') = stream_read sz is in (bs, is', sl))"
    using ReadSpeed_loop_read [of quot clock step "[]" sz "is" ?l "[]"] by auto
  then show ?thesis
    by (auto simp: ReadFixFromStream_def ReadFixFromStreamWithSpeed_def ReadFix_loop_read split: prod.splits)
qed

text \<open>The offset of \<open>WriteFixToStreamWithSpeed\<close> advances whether or not the write succeeded, so that a
  failure of the last chunk is reported as success.\<close>

lemma write_failure_unnoticed:
  assumes "os_good os" and "0 < length data" and "length data \<le> speed_per step" and "os_room os < length data"
  shows "fst (WriteFixToStreamWithSpeed step data os) \<and> \<not> os_good (snd (WriteFixToStreamWithSpeed step data os)) \<and>
    \<not> fst (WriteToStream data os)"
proof -
  have "WriteSpeed_loop step data 0 os = WriteSpeed_loop step data (length data) (stream_write data os)"
    using assms by (subst WriteSpeed_loop.simps) auto
  also have "\<dots> = (length data, stream_write data os)" by (subst WriteSpeed_loop.simps) simp
  finally show ?thesis using assms by (simp add: WriteFixToStreamWithSpeed_def WriteToStream_def stream_write_def)
qed

text \<open>The address chosen for the host is that of the last interface with an IPv4 address whose name
  does not start with \<open>lo\<close>, or the loopback address.\<close>

lemma GetIPv4Inet_last:
  assumes "\<forall>x \<in> set xs. ifa_addr x \<noteq> None"
  shows "GetIPv4Inet_loop xs d = last (d # map (\<lambda>x. sin_addr (sockaddr_in_of (the (ifa_addr x))))
    (filter (\<lambda>x. read16 (the (ifa_addr x)) = AF_INET \<and> \<not> is_loopback_name (ifa_name x)) xs))"
  using assms by (induction xs arbitrary: d) auto

lemma fetchAdd_tickets:
  "fst (fetchAdd t v) = t \<and> snd (fetchAdd t v) = fst (addFetch t v)" "snd (fetchSub (snd (fetchAdd t v)) v) = t"
  "fst (compareAndSwapBool t a b) \<longleftrightarrow> fst (compareAndSwap t a b) = a"
  by (simp_all add: fetchAdd_def addFetch_def fetchSub_def compareAndSwap_def compareAndSwapBool_def)

end
