(* ===== verification/LogFormat.thy ===== *)
theory LogFormat
  imports StringUtil
begin

text \<open>
  Log levels, events and formatters (\<open>LogLevel\<close>, \<open>LogEvent\<close>, \<open>LogFormatter\<close> and the format items of
  \<open>sylar/log.h\<close> and \<open>sylar/log.cpp\<close>). \<open>strftime\<close> on the local time is an argument.
\<close>

section \<open>Levels\<close>

datatype log_level = UNKNOW | DEBUG | INFO | WARN | ERROR | FATAL

definition level_code :: "log_level \<Rightarrow> nat" where
  "level_code l = (case l of UNKNOW \<Rightarrow> 0 | DEBUG \<Rightarrow> 1 | INFO \<Rightarrow> 2 | WARN \<Rightarrow> 3 | ERROR \<Rightarrow> 4 | FATAL \<Rightarrow> 5)"

lemma level_code_inject [simp]: "level_code a = level_code b \<longleftrightarrow> a = b"
  by (cases a; cases b) (simp_all add: level_code_def)

instantiation log_level :: linorder
begin

definition less_eq_log_level :: "log_level \<Rightarrow> log_level \<Rightarrow> bool" where
  "less_eq_log_level a b \<longleftrightarrow> level_code a \<le> level_code b"

definition less_log_level :: "log_level \<Rightarrow> log_level \<Rightarrow> bool" where
  "less_log_level a b \<longleftrightarrow> level_code a < level_code b"

instance
  by standard (auto simp: less_eq_log_level_def less_log_level_def)

end

definition LogLevel_ToString :: "log_level \<Rightarrow> string" where
  "LogLevel_ToString level =
     (case level of
        DEBUG \<Rightarrow> ''DEBUG'' | INFO \<Rightarrow> ''INFO'' | WARN \<Rightarrow> ''WARN'' | ERROR \<Rightarrow> ''ERROR'' | FATAL \<Rightarrow> ''FATAL''
      | UNKNOW \<Rightarrow> ''UNKNOW'')"

definition LogLevel_FromString :: "string \<Rightarrow> log_level" where
  "LogLevel_FromString str =
     (if str = ''DEBUG'' then DEBUG else if str = ''INFO'' then INFO else if str = ''WARN'' then WARN
      else if str = ''ERROR'' then ERROR else if str = ''FATAL'' then FATAL
      else if str = ''debug'' then DEBUG else if str = ''info'' then INFO else if str = ''warn'' then WARN
      else if str = ''error'' then ERROR else if str = ''fatal'' then FATAL
      else UNKNOW)"

section \<open>Events\<close>

record log_event =
  ev_file :: string
  ev_line :: int
  ev_elapse :: u32
  ev_thread_id :: u32
  ev_fiber_id :: u32
  ev_time :: u64
  ev_thread_name :: string
  ev_content :: string
  ev_logger :: string
  ev_level :: log_level

text \<open>\<open>LogEvent::format\<close>: \<open>None\<close> when \<open>vasprintf\<close> fails.\<close>

definition LogEvent_format :: "string option \<Rightarrow> log_event \<Rightarrow> log_event" where
  "LogEvent_format buf e = (case buf of None \<Rightarrow> e | Some s \<Rightarrow> e\<lparr>ev_content := ev_content e @ s\<rparr>)"

section \<open>Format items\<close>

datatype format_item =
    MessageFormatItem
  | LevelFormatItem
  | ElapseFormatItem
  | NameFormatItem
  | ThreadIdFormatItem
  | FiberIdFormatItem
  | ThreadNameFormatItem
  | DateTimeFormatItem string
  | FilenameFormatItem
  | LineFormatItem
  | NewLineFormatItem
  | StringFormatItem string
  | TabFormatItem

definition DateTimeFormatItem_new :: "string \<Rightarrow> format_item" where
  "DateTimeFormatItem_new fmt = DateTimeFormatItem (if fmt = [] then ''%Y-%m-%d %H:%M:%S'' else fmt)"

fun item_format :: "(string \<Rightarrow> u64 \<Rightarrow> string) \<Rightarrow> log_level \<Rightarrow> log_event \<Rightarrow> format_item \<Rightarrow> string" where
  "item_format strftime level e MessageFormatItem = ev_content e"
| "item_format strftime level e LevelFormatItem = LogLevel_ToString level"
| "item_format strftime level e ElapseFormatItem = show_word (ev_elapse e)"
| "item_format strftime level e NameFormatItem = ev_logger e"
| "item_format strftime level e ThreadIdFormatItem = show_word (ev_thread_id e)"
| "item_format strftime level e FiberIdFormatItem = show_word (ev_fiber_id e)"
| "item_format strftime level e ThreadNameFormatItem = ev_thread_name e"
| "item_format strftime level e (DateTimeFormatItem fmt) = strftime fmt (ev_time e)"
| "item_format strftime level e FilenameFormatItem = ev_file e"
| "item_format strftime level e LineFormatItem = show_int (ev_line e)"
| "item_format strftime level e NewLineFormatItem = [CHR 0x0A]"
| "item_format strftime level e (StringFormatItem s) = s"
| "item_format strftime level e TabFormatItem = [CHR 0x09]"

text \<open>The map \<open>format_items\<close>.\<close>

definition format_items :: "string \<Rightarrow> (string \<Rightarrow> format_item) option" where
  "format_items = map_of
     [(''m'', \<lambda>fmt. MessageFormatItem), (''p'', \<lambda>fmt. LevelFormatItem), (''r'', \<lambda>fmt. ElapseFormatItem),
      (''c'', \<lambda>fmt. NameFormatItem), (''t'', \<lambda>fmt. ThreadIdFormatItem), (''n'', \<lambda>fmt. NewLineFormatItem),
      (''d'', DateTimeFormatItem_new), (''f'', \<lambda>fmt. FilenameFormatItem), (''l'', \<lambda>fmt. LineFormatItem),
      (''T'', \<lambda>fmt. TabFormatItem), (''F'', \<lambda>fmt. FiberIdFormatItem), (''N'', \<lambda>fmt. ThreadNameFormatItem)]"

section \<open>Parsing a pattern\<close>

definition isalpha :: "char \<Rightarrow> bool" where
  "isalpha c = (let code = of_char c :: nat in code \<in> {65..90} \<union> {97..122})"

text \<open>
  The inner loop of \<open>init\<close>, on the characters after a percent sign: \<open>scan_name\<close> is \<open>fmt_status == 0\<close>
  with \<open>acc\<close> the characters passed since \<open>i + 1\<close>, \<open>scan_fmt\<close> is \<open>fmt_status == 1\<close> with \<open>acc\<close> those since
  \<open>fmt_begin + 1\<close>. The result has \<open>str\<close>, \<open>fmt\<close> and the characters from position \<open>n\<close> on; \<open>None\<close> is leaving
  the loop with \<open>fmt_status == 1\<close>.
\<close>

fun scan_fmt :: "string \<Rightarrow> string \<Rightarrow> string \<Rightarrow> (string \<times> string \<times> string) option" where
  "scan_fmt str acc [] = None"
| "scan_fmt str acc (c # cs) = (if c = CHR 0x7D then Some (str, acc, cs) else scan_fmt str (acc @ [c]) cs)"

fun scan_name :: "string \<Rightarrow> string \<Rightarrow> (string \<times> string \<times> string) option" where
  "scan_name acc [] = Some (acc, [], [])"
| "scan_name acc (c # cs) =
     (if \<not> isalpha c \<and> c \<noteq> CHR 0x7B \<and> c \<noteq> CHR 0x7D then Some (acc, [], c # cs)
      else if c = CHR 0x7B then scan_fmt acc [] cs
      else scan_name (acc @ [c]) cs)"

lemma scan_fmt_shorter: "scan_fmt str acc cs = Some (s, f, rest) \<Longrightarrow> length rest < length cs"
  by (induction str acc cs rule: scan_fmt.induct) (auto split: if_splits)

lemma scan_name_shorter: "scan_name acc cs = Some (s, f, rest) \<Longrightarrow> length rest \<le> length cs"
  by (induction acc cs rule: scan_name.induct) (auto split: if_splits dest: scan_fmt_shorter)

text \<open>The outer loop. A tuple \<open>(str, fmt, type)\<close> has type 0 for text and 1 for an item.\<close>

function init_loop :: "string \<Rightarrow> (string \<times> string \<times> nat) list \<Rightarrow> bool \<Rightarrow> string \<Rightarrow>
    string \<times> (string \<times> string \<times> nat) list \<times> bool" where
  "init_loop nstr vec error [] = (nstr, vec, error)"
| "init_loop nstr vec error (c # cs) =
     (if c \<noteq> CHR ''%'' then init_loop (nstr @ [c]) vec error cs
      else if cs \<noteq> [] \<and> hd cs = CHR ''%'' then init_loop (nstr @ ''%'') vec error cs
      else
        case scan_name [] cs of
          Some (str, fmt, rest) \<Rightarrow>
            init_loop [] (vec @ (if nstr \<noteq> [] then [(nstr, [], 0)] else []) @ [(str, fmt, 1)]) error rest
        | None \<Rightarrow> init_loop nstr (vec @ [(''<<pattern_error>>'', [], 0)]) True cs)"
  by pat_completeness auto
termination
  by (relation "measure (\<lambda>(nstr, vec, error, cs). length cs)") (auto dest: scan_name_shorter)

definition init_tuples :: "string \<Rightarrow> (string \<times> string \<times> nat) list \<times> bool" where
  "init_tuples pattern =
     (let (nstr, vec, error) = init_loop [] [] False pattern
      in (if nstr \<noteq> [] then vec @ [(nstr, [], 0)] else vec, error))"

fun build_items :: "(string \<times> string \<times> nat) list \<Rightarrow> format_item list \<times> bool" where
  "build_items [] = ([], False)"
| "build_items ((str, fmt, ty) # vec) =
     (let (items, error) = build_items vec in
      if ty = 0 then (StringFormatItem str # items, error)
      else
        case format_items str of
          None \<Rightarrow> (StringFormatItem (''<<error_format %'' @ str @ ''>>'') # items, True)
        | Some mk \<Rightarrow> (mk fmt # items, error))"

record log_formatter =
  lf_pattern :: string
  lf_items :: "format_item list"
  lf_error :: bool

definition LogFormatter_new :: "string \<Rightarrow> log_formatter" where
  "LogFormatter_new pattern =
     (let (vec, error1) = init_tuples pattern; (items, error2) = build_items vec
      in \<lparr>lf_pattern = pattern, lf_items = items, lf_error = error1 \<or> error2\<rparr>)"

definition LogFormatter_format :: "(string \<Rightarrow> u64 \<Rightarrow> string) \<Rightarrow> log_formatter \<Rightarrow> log_level \<Rightarrow> log_event \<Rightarrow> string" where
  "LogFormatter_format strftime f level e = concat (map (item_format strftime level e) (lf_items f))"

section \<open>Properties\<close>

text \<open>\<open>FromString\<close> reads back what \<open>ToString\<close> prints, in upper and lower case, and every other string is
  \<open>UNKNOW\<close>; the levels are ordered by severity.\<close>

theorem level_round_trip:
  "LogLevel_FromString (LogLevel_ToString l) = l \<and>
   (l \<noteq> UNKNOW \<longrightarrow> LogLevel_FromString (ToLower (LogLevel_ToString l)) = l) \<and>
   (LogLevel_FromString s \<noteq> UNKNOW \<longrightarrow> ToUpper s = LogLevel_ToString (LogLevel_FromString s))"
proof (intro conjI impI)
  show "LogLevel_FromString (LogLevel_ToString l) = l"
    by (cases l) (simp_all add: LogLevel_ToString_def LogLevel_FromString_def)
  have "list_all (\<lambda>l. LogLevel_FromString (ToLower (LogLevel_ToString l)) = l) [DEBUG, INFO, WARN, ERROR, FATAL]"
    by (simp add: ToLower_def tolower_def LogLevel_ToString_def LogLevel_FromString_def less_eq_char_def char_of_def bit_Suc_0_iff)
  then show "l \<noteq> UNKNOW \<Longrightarrow> LogLevel_FromString (ToLower (LogLevel_ToString l)) = l" by (cases l) simp_all
  have "list_all (\<lambda>s. ToUpper s = LogLevel_ToString (LogLevel_FromString s))
      [''DEBUG'', ''INFO'', ''WARN'', ''ERROR'', ''FATAL'', ''debug'', ''info'', ''warn'', ''error'', ''fatal'']"
    by (simp add: ToUpper_def toupper_def LogLevel_ToString_def LogLevel_FromString_def less_eq_char_def char_of_def bit_Suc_0_iff)
  moreover have "s \<in> set [''DEBUG'', ''INFO'', ''WARN'', ''ERROR'', ''FATAL'', ''debug'', ''info'', ''warn'', ''error'', ''fatal'']"
    if "LogLevel_FromString s \<noteq> UNKNOW"
    using that by (auto simp: LogLevel_FromString_def split: if_splits)
  ultimately show "LogLevel_FromString s \<noteq> UNKNOW \<Longrightarrow> ToUpper s = LogLevel_ToString (LogLevel_FromString s)"
    unfolding list_all_iff by blast
qed

theorem level_round_trip_witness:
  "LogLevel_FromString (ToLower (LogLevel_ToString WARN)) = WARN \<and> ToUpper ''info'' = ''INFO''"
  using level_round_trip [of WARN "''info''"] by (simp add: LogLevel_FromString_def LogLevel_ToString_def)

text \<open>Patterns as they are meant: text and items, an item with or without an argument in braces.\<close>

datatype piece = Text string | Item string "string option"

fun render :: "piece list \<Rightarrow> string" where
  "render [] = []"
| "render (Text t # ps) = t @ render ps"
| "render (Item x None # ps) = ''%'' @ x @ render ps"
| "render (Item x (Some f) # ps) = ''%'' @ x @ [CHR 0x7B] @ f @ [CHR 0x7D] @ render ps"

definition ends_name :: "string \<Rightarrow> bool" where
  "ends_name cs \<longleftrightarrow> cs = [] \<or> (\<not> isalpha (hd cs) \<and> hd cs \<noteq> CHR 0x7B \<and> hd cs \<noteq> CHR 0x7D)"

fun pieces_ok :: "piece list \<Rightarrow> bool" where
  "pieces_ok [] = True"
| "pieces_ok (Text t # ps) =
     (t \<noteq> [] \<and> CHR ''%'' \<notin> set t \<and> (case ps of Text u # qs \<Rightarrow> False | _ \<Rightarrow> True) \<and> pieces_ok ps)"
| "pieces_ok (Item x None # ps) = (format_items x \<noteq> None \<and> ends_name (render ps) \<and> pieces_ok ps)"
| "pieces_ok (Item x (Some f) # ps) = (format_items x \<noteq> None \<and> CHR 0x7D \<notin> set f \<and> pieces_ok ps)"

definition piece_tuple :: "piece \<Rightarrow> string \<times> string \<times> nat" where
  "piece_tuple p = (case p of Text t \<Rightarrow> (t, [], 0) | Item x f \<Rightarrow> (x, case f of None \<Rightarrow> [] | Some g \<Rightarrow> g, 1))"

definition piece_item :: "piece \<Rightarrow> format_item" where
  "piece_item p = (case p of Text t \<Rightarrow> StringFormatItem t
     | Item x f \<Rightarrow> the (format_items x) (case f of None \<Rightarrow> [] | Some g \<Rightarrow> g))"

lemma scan_fmt_ok: "CHR 0x7D \<notin> set f \<Longrightarrow> scan_fmt str acc (f @ CHR 0x7D # rest) = Some (str, acc @ f, rest)"
  by (induction f arbitrary: acc) auto

lemma scan_name_alpha: "\<forall>c \<in> set x. isalpha c \<Longrightarrow> scan_name acc (x @ rest) = scan_name (acc @ x) rest"
proof (induction x arbitrary: acc)
  case (Cons c x)
  then have "isalpha c" by simp
  then have "c \<noteq> CHR 0x7B" by (auto simp: isalpha_def less_eq_char_def)
  with \<open>isalpha c\<close> show ?case using Cons by simp
qed simp

lemma scan_name_end: "ends_name cs \<Longrightarrow> scan_name acc cs = Some (acc, [], cs)"
  by (cases cs) (auto simp: ends_name_def)

lemma format_items_alpha: "format_items x \<noteq> None \<Longrightarrow> (\<forall>c \<in> set x. isalpha c) \<and> x \<noteq> [] \<and> hd x \<noteq> CHR ''%''"
proof -
  assume "format_items x \<noteq> None"
  then have "x \<in> set [''m'', ''p'', ''r'', ''c'', ''t'', ''n'', ''d'', ''f'', ''l'', ''T'', ''F'', ''N'']"
    by (auto simp: format_items_def split: if_splits)
  moreover have "list_all (\<lambda>x. (\<forall>c \<in> set x. isalpha c) \<and> x \<noteq> [] \<and> hd x \<noteq> CHR ''%'')
      [''m'', ''p'', ''r'', ''c'', ''t'', ''n'', ''d'', ''f'', ''l'', ''T'', ''F'', ''N'']"
    by (simp add: isalpha_def)
  ultimately show ?thesis unfolding list_all_iff by blast
qed

lemma init_loop_text: "CHR ''%'' \<notin> set t \<Longrightarrow> init_loop nstr vec e (t @ cs) = init_loop (nstr @ t) vec e cs"
  by (induction t arbitrary: nstr) auto

definition flushed :: "string \<Rightarrow> (string \<times> string \<times> nat) list" where
  "flushed nstr = (if nstr \<noteq> [] then [(nstr, [], 0)] else [])"

lemma flushed_Nil [simp]: "flushed [] = []"
  by (simp add: flushed_def)

lemma piece_tuple_simps [simp]:
  "piece_tuple (Text t) = (t, [], 0)" "piece_tuple (Item x None) = (x, [], 1)" "piece_tuple (Item x (Some f)) = (x, f, 1)"
  by (simp_all add: piece_tuple_def)

lemma init_loop_item:
  assumes "format_items x \<noteq> None" and "scan_name [] (x @ cs) = Some (x, f, rest)"
  shows "init_loop nstr vec e (CHR ''%'' # x @ cs) = init_loop [] (vec @ flushed nstr @ [(x, f, 1)]) e rest"
  using format_items_alpha [OF assms(1)] assms(2) by (auto simp: flushed_def)

lemma init_loop_pieces:
  assumes "pieces_ok ps" and "nstr = [] \<or> (case ps of Text u # qs \<Rightarrow> False | _ \<Rightarrow> True)"
  shows "\<exists>n v. init_loop nstr vec e (render ps) = (n, v, e) \<and> v @ flushed n = vec @ flushed nstr @ map piece_tuple ps"
  using assms
proof (induction ps arbitrary: nstr vec rule: render.induct)
  case 1
  then show ?case by simp
next
  case (2 t ps)
  then have "nstr = []" by simp
  moreover have t: "t \<noteq> []" "CHR ''%'' \<notin> set t" "case ps of Text u # qs \<Rightarrow> False | _ \<Rightarrow> True" "pieces_ok ps"
    using 2(2) by simp_all
  moreover have "flushed t = [(t, [], 0)]"
    using t(1) by (simp add: flushed_def)
  ultimately show ?case
    using 2(1) [OF t(4), of t vec] t(3) init_loop_text [OF t(2), of "[]" vec e "render ps"] by simp
next
  case (3 x ps)
  then have x: "format_items x \<noteq> None" "ends_name (render ps)" "pieces_ok ps" by simp_all
  have "scan_name [] (x @ render ps) = Some (x, [], render ps)"
    using format_items_alpha [OF x(1)] scan_name_end [OF x(2)] by (simp add: scan_name_alpha)
  from init_loop_item [OF x(1) this] have "init_loop nstr vec e (render (Item x None # ps)) =
      init_loop [] (vec @ flushed nstr @ [(x, [], 1)]) e (render ps)"
    by (simp del: init_loop.simps)
  then show ?case using 3(1) [OF x(3), of "[]" "vec @ flushed nstr @ [(x, [], 1)]"] by simp
next
  case (4 x f ps)
  then have x: "format_items x \<noteq> None" "CHR 0x7D \<notin> set f" "pieces_ok ps" by simp_all
  have "scan_name [] (x @ CHR 0x7B # f @ CHR 0x7D # render ps) = Some (x, f, render ps)"
    using format_items_alpha [OF x(1)] scan_fmt_ok [OF x(2), of x "[]"] by (simp add: scan_name_alpha isalpha_def less_eq_char_def)
  from init_loop_item [OF x(1) this] have "init_loop nstr vec e (render (Item x (Some f) # ps)) =
      init_loop [] (vec @ flushed nstr @ [(x, f, 1)]) e (render ps)"
    by (simp del: init_loop.simps)
  then show ?case using 4(1) [OF x(3), of "[]" "vec @ flushed nstr @ [(x, f, 1)]"] by simp
qed

lemma build_items_pieces: "pieces_ok ps \<Longrightarrow> build_items (map piece_tuple ps) = (map piece_item ps, False)"
  by (induction ps rule: render.induct) (auto simp: piece_item_def)


definition default_pieces :: "piece list" where
  "default_pieces = [Item ''d'' (Some ''%Y-%m-%d %H:%M:%S''), Item ''T'' None, Item ''t'' None, Item ''T'' None,
     Item ''N'' None, Item ''T'' None, Item ''F'' None, Item ''T'' None, Text ''['', Item ''p'' None, Text '']'', Item ''T'' None,
     Text ''['', Item ''c'' None, Text '']'', Item ''T'' None, Item ''f'' None, Text '':'', Item ''l'' None, Item ''T'' None,
     Item ''m'' None, Item ''n'' None]"

lemma default_pieces_ok: "pieces_ok default_pieces"
  by (simp add: default_pieces_def format_items_def ends_name_def isalpha_def less_eq_char_def)

lemma default_pattern:
  "render default_pieces = ''%d{%Y-%m-%d %H:%M:%S}%T%t%T%N%T%F%T[%p]%T[%c]%T%f:%l%T%m%n''"
  by code_simp


text \<open>Two percent signs do not stand for one: after the first is taken as text, the second starts an
  item again.\<close>

lemma double_percent:
  "init_loop nstr vec e (CHR ''%'' # CHR ''%'' # cs) = init_loop (nstr @ ''%'') vec e (CHR ''%'' # cs)"
  by simp

lemma double_percent_error: "lf_error (LogFormatter_new ''100%%'')"
  by code_simp

end
