(* ===== verification/Config.thy ===== *)
theory Config
  imports StringUtil "HOL-Library.Countable"
begin

text \<open>
  Configuration variables (\<open>sylar/config.h\<close>, \<open>sylar/config.cpp\<close>): typed variables with listeners, the
  registry of variables, the conversions between strings and containers, and loading from YAML.

  The YAML library and \<open>boost::lexical_cast\<close> are arguments: \<open>load\<close> is \<open>YAML::Load\<close> (\<open>None\<close> when it
  throws), \<open>emit\<close> is streaming a node, \<open>from_str\<close> and \<open>to_str\<close> are the casts of an element type. The
  documents themselves are a datatype. The values of all variables have one type \<open>'v\<close>; the type a
  variable was declared with is a name.
\<close>

section \<open>YAML documents\<close>

datatype yaml = YNull | YScalar string | YSeq "yaml list" | YMap "(string \<times> yaml) list"

instance yaml :: countable
  by countable_datatype

definition yaml_size :: "yaml \<Rightarrow> nat" where
  "yaml_size n = (case n of YSeq xs \<Rightarrow> length xs | YMap kvs \<Rightarrow> length kvs | _ \<Rightarrow> 0)"

text \<open>\<open>node[i]\<close>; indexing a map with a number is left to \<open>idx\<close>.\<close>

definition yaml_at :: "(yaml \<Rightarrow> nat \<Rightarrow> yaml) \<Rightarrow> yaml \<Rightarrow> nat \<Rightarrow> yaml" where
  "yaml_at idx n i = (case n of YSeq xs \<Rightarrow> xs ! i | _ \<Rightarrow> idx n i)"

text \<open>The entries a range over a node's iterators gives as key and value. Sequences have entries
  without a key, whose \<open>first.Scalar()\<close> throws.\<close>

definition yaml_entries :: "yaml \<Rightarrow> (string \<times> yaml) list option" where
  "yaml_entries n = (case n of YMap kvs \<Rightarrow> Some kvs | YSeq xs \<Rightarrow> (if xs = [] then Some [] else None) | _ \<Rightarrow> Some [])"

section \<open>Conversions\<close>

fun cast_all :: "(string \<Rightarrow> 'a option) \<Rightarrow> string list \<Rightarrow> 'a list option" where
  "cast_all fs [] = Some []"
| "cast_all fs (s # ss) =
     (case fs s of None \<Rightarrow> None | Some x \<Rightarrow> (case cast_all fs ss of None \<Rightarrow> None | Some xs \<Rightarrow> Some (x # xs)))"

definition vector_from_string :: "(string \<Rightarrow> yaml option) \<Rightarrow> (yaml \<Rightarrow> string) \<Rightarrow> (yaml \<Rightarrow> nat \<Rightarrow> yaml) \<Rightarrow>
    (string \<Rightarrow> 'a option) \<Rightarrow> string \<Rightarrow> 'a list option" where
  "vector_from_string load emit idx fs v =
     (case load v of
        None \<Rightarrow> None
      | Some node \<Rightarrow> cast_all fs (map (\<lambda>i. emit (yaml_at idx node i)) [0..<yaml_size node]))"

text \<open>The nodes pushed back for the elements, with their own cast \<open>ts\<close>.\<close>

fun node_all :: "(string \<Rightarrow> yaml option) \<Rightarrow> ('a \<Rightarrow> string option) \<Rightarrow> 'a list \<Rightarrow> yaml list option" where
  "node_all load ts [] = Some []"
| "node_all load ts (x # xs) =
     (case ts x of
        None \<Rightarrow> None
      | Some s \<Rightarrow>
          (case load s of
             None \<Rightarrow> None
           | Some n \<Rightarrow> (case node_all load ts xs of None \<Rightarrow> None | Some ns \<Rightarrow> Some (n # ns))))"

definition vector_to_string :: "(string \<Rightarrow> yaml option) \<Rightarrow> (yaml \<Rightarrow> string) \<Rightarrow> ('a \<Rightarrow> string option) \<Rightarrow> 'a list \<Rightarrow> string option" where
  "vector_to_string load emit ts v = map_option (\<lambda>ns. emit (YSeq ns)) (node_all load ts v)"

text \<open>\<open>std::list\<close> is converted in the same way as \<open>std::vector\<close>.\<close>

definition list_from_string :: "(string \<Rightarrow> yaml option) \<Rightarrow> (yaml \<Rightarrow> string) \<Rightarrow> (yaml \<Rightarrow> nat \<Rightarrow> yaml) \<Rightarrow>
    (string \<Rightarrow> 'a option) \<Rightarrow> string \<Rightarrow> 'a list option" where
  "list_from_string load emit idx fs v =
     (case load v of
        None \<Rightarrow> None
      | Some node \<Rightarrow> cast_all fs (map (\<lambda>i. emit (yaml_at idx node i)) [0..<yaml_size node]))"

definition list_to_string :: "(string \<Rightarrow> yaml option) \<Rightarrow> (yaml \<Rightarrow> string) \<Rightarrow> ('a \<Rightarrow> string option) \<Rightarrow> 'a list \<Rightarrow> string option" where
  "list_to_string load emit ts v = map_option (\<lambda>ns. emit (YSeq ns)) (node_all load ts v)"

text \<open>\<open>std::set\<close> and \<open>std::unordered_set\<close>: the elements are inserted one by one; for printing they come
  in the order of iteration. A \<open>std::set\<close> whose comparator \<open>lt\<close> does not tell all elements apart keeps the first
  of those it takes for equal.\<close>

definition ordered_set_from_string :: "('a \<Rightarrow> 'a \<Rightarrow> bool) \<Rightarrow> (string \<Rightarrow> yaml option) \<Rightarrow> (yaml \<Rightarrow> string) \<Rightarrow>
    (yaml \<Rightarrow> nat \<Rightarrow> yaml) \<Rightarrow> (string \<Rightarrow> 'a option) \<Rightarrow> string \<Rightarrow> 'a list option" where
  "ordered_set_from_string lt load emit idx fs v =
     (case load v of
        None \<Rightarrow> None
      | Some node \<Rightarrow>
          map_option (\<lambda>xs. fold (set_insert lt) xs [])
            (cast_all fs (map (\<lambda>i. emit (yaml_at idx node i)) [0..<yaml_size node])))"

definition set_from_string :: "(string \<Rightarrow> yaml option) \<Rightarrow> (yaml \<Rightarrow> string) \<Rightarrow> (yaml \<Rightarrow> nat \<Rightarrow> yaml) \<Rightarrow>
    (string \<Rightarrow> 'a option) \<Rightarrow> string \<Rightarrow> 'a set option" where
  "set_from_string load emit idx fs v =
     (case load v of
        None \<Rightarrow> None
      | Some node \<Rightarrow>
          map_option (\<lambda>xs. fold insert xs {}) (cast_all fs (map (\<lambda>i. emit (yaml_at idx node i)) [0..<yaml_size node])))"

definition set_to_string :: "(string \<Rightarrow> yaml option) \<Rightarrow> (yaml \<Rightarrow> string) \<Rightarrow> ('a \<Rightarrow> string option) \<Rightarrow> 'a list \<Rightarrow> string option" where
  "set_to_string load emit ts order = map_option (\<lambda>ns. emit (YSeq ns)) (node_all load ts order)"

text \<open>\<open>std::map\<close> and \<open>std::unordered_map\<close> with string keys: \<open>insert\<close> keeps the first value of a key.\<close>

definition map_insert :: "'k \<times> 'v \<Rightarrow> ('k \<rightharpoonup> 'v) \<Rightarrow> ('k \<rightharpoonup> 'v)" where
  "map_insert kv m = (if m (fst kv) = None then m(fst kv \<mapsto> snd kv) else m)"

definition map_from_string :: "(string \<Rightarrow> yaml option) \<Rightarrow> (yaml \<Rightarrow> string) \<Rightarrow> (string \<Rightarrow> 'a option) \<Rightarrow> string \<Rightarrow>
    (string \<rightharpoonup> 'a) option" where
  "map_from_string load emit fs v =
     (case load v of
        None \<Rightarrow> None
      | Some node \<Rightarrow>
          (case yaml_entries node of
             None \<Rightarrow> None
           | Some kvs \<Rightarrow>
               map_option (\<lambda>xs. fold map_insert (zip (map fst kvs) xs) Map.empty)
                 (cast_all fs (map (\<lambda>(k, n). emit n) kvs))))"

definition map_to_string :: "(string \<Rightarrow> yaml option) \<Rightarrow> (yaml \<Rightarrow> string) \<Rightarrow> ('a \<Rightarrow> string option) \<Rightarrow> (string \<times> 'a) list \<Rightarrow>
    string option" where
  "map_to_string load emit ts order =
     map_option (\<lambda>ns. emit (YMap (zip (map fst order) ns))) (node_all load ts (map snd order))"

section \<open>Variables\<close>

record 'v config_var =
  cv_name :: string
  cv_description :: string
  cv_type :: string
  cv_val :: 'v
  cv_cbs :: "(u64 \<times> nat) list"

definition ConfigVar_new :: "string \<Rightarrow> string \<Rightarrow> 'v \<Rightarrow> string \<Rightarrow> 'v config_var" where
  "ConfigVar_new type name default_value description =
     \<lparr>cv_name = ToLower name, cv_description = description, cv_type = type, cv_val = default_value, cv_cbs = []\<rparr>"

text \<open>The listeners are called in the order of their ids with the old and the new value; \<open>throws\<close> says
  which of them throw. The result has the calls that were made and whether one threw.\<close>

fun notify :: "(nat \<Rightarrow> bool) \<Rightarrow> 'v \<Rightarrow> 'v \<Rightarrow> (u64 \<times> nat) list \<Rightarrow> (nat \<times> 'v \<times> 'v) list \<times> bool" where
  "notify throws old v [] = ([], False)"
| "notify throws old v ((key, cb) # cbs) =
     (if throws cb then ([(cb, old, v)], True)
      else (let (calls, t) = notify throws old v cbs in ((cb, old, v) # calls, t)))"

definition ConfigVar_setValue :: "(nat \<Rightarrow> bool) \<Rightarrow> 'v \<Rightarrow> 'v config_var \<Rightarrow> (nat \<times> 'v \<times> 'v) list \<times> bool \<times> 'v config_var" where
  "ConfigVar_setValue throws v var =
     (if v = cv_val var then ([], False, var)
      else (let (calls, thrown) = notify throws (cv_val var) v (cv_cbs var)
            in (calls, thrown, if thrown then var else var\<lparr>cv_val := v\<rparr>)))"

text \<open>\<open>fromString\<close> catches what the cast and the listeners throw. It always returns false.\<close>

definition ConfigVar_fromString :: "(string \<Rightarrow> string \<Rightarrow> 'v option) \<Rightarrow> (nat \<Rightarrow> bool) \<Rightarrow> string \<Rightarrow> 'v config_var \<Rightarrow>
    bool \<times> (nat \<times> 'v \<times> 'v) list \<times> 'v config_var" where
  "ConfigVar_fromString from_str throws val var =
     (case from_str (cv_type var) val of
        None \<Rightarrow> (False, [], var)
      | Some v \<Rightarrow> (let (calls, thrown, var') = ConfigVar_setValue throws v var in (False, calls, var')))"

definition ConfigVar_toString :: "(string \<Rightarrow> 'v \<Rightarrow> string option) \<Rightarrow> 'v config_var \<Rightarrow> string" where
  "ConfigVar_toString to_str var = (case to_str (cv_type var) (cv_val var) of None \<Rightarrow> [] | Some s \<Rightarrow> s)"

text \<open>The listeners are a map from ids to functions, kept sorted by id. \<open>s_fun_id\<close> is the counter of the
  variable's type.\<close>

fun cbs_put :: "u64 \<Rightarrow> nat \<Rightarrow> (u64 \<times> nat) list \<Rightarrow> (u64 \<times> nat) list" where
  "cbs_put k cb [] = [(k, cb)]"
| "cbs_put k cb ((k', cb') # cbs) =
     (if k < k' then (k, cb) # (k', cb') # cbs else if k = k' then (k, cb) # cbs else (k', cb') # cbs_put k cb cbs)"

definition ConfigVar_addListener :: "nat \<Rightarrow> u64 \<Rightarrow> 'v config_var \<Rightarrow> u64 \<times> u64 \<times> 'v config_var" where
  "ConfigVar_addListener cb s_fun_id var =
     (let id' = s_fun_id + 1 in (id', id', var\<lparr>cv_cbs := cbs_put id' cb (cv_cbs var)\<rparr>))"

definition ConfigVar_delListener :: "u64 \<Rightarrow> 'v config_var \<Rightarrow> 'v config_var" where
  "ConfigVar_delListener key var = var\<lparr>cv_cbs := filter (\<lambda>(k, cb). k \<noteq> key) (cv_cbs var)\<rparr>"

definition ConfigVar_getListener :: "u64 \<Rightarrow> 'v config_var \<Rightarrow> nat option" where
  "ConfigVar_getListener key var = map_of (cv_cbs var) key"

definition ConfigVar_clearListener :: "'v config_var \<Rightarrow> 'v config_var" where
  "ConfigVar_clearListener var = var\<lparr>cv_cbs := []\<rparr>"

section \<open>The registry\<close>

type_synonym 'v config_map = "string \<rightharpoonup> 'v config_var"

definition valid_chars :: string where
  "valid_chars = ''abcdefghikjlmnopqrstuvwxyz._012345678''"

definition valid_name :: "string \<Rightarrow> bool" where
  "valid_name name \<longleftrightarrow> find_first_not_of valid_chars name = None"

text \<open>\<open>Lookup\<close> with a default value: the variable, a null pointer when it exists with another type, or an
  exception.\<close>

definition Config_Lookup :: "string \<Rightarrow> string \<Rightarrow> 'v \<Rightarrow> string \<Rightarrow> 'v config_map \<Rightarrow> ('v config_var option \<times> 'v config_map) result" where
  "Config_Lookup type name default_value description datas =
     (case datas name of
        Some var \<Rightarrow> Inr (if cv_type var = type then Some var else None, datas)
      | None \<Rightarrow>
          if \<not> valid_name name then Inl (Thrown name)
          else (let v = ConfigVar_new type name default_value description in Inr (Some v, datas(name \<mapsto> v))))"

definition Config_Lookup_existing :: "string \<Rightarrow> string \<Rightarrow> 'v config_map \<Rightarrow> 'v config_var option" where
  "Config_Lookup_existing type name datas =
     (case datas name of None \<Rightarrow> None | Some var \<Rightarrow> if cv_type var = type then Some var else None)"

definition Config_LookupBase :: "string \<Rightarrow> 'v config_map \<Rightarrow> 'v config_var option" where
  "Config_LookupBase name datas = datas name"

definition Config_Visit :: "('v config_var \<Rightarrow> 's \<Rightarrow> 's) \<Rightarrow> string list \<Rightarrow> 'v config_map \<Rightarrow> 's \<Rightarrow> 's" where
  "Config_Visit cb order datas s = fold (\<lambda>name. case datas name of None \<Rightarrow> id | Some var \<Rightarrow> cb var) order s"

section \<open>Loading\<close>

fun ListAllMember :: "string \<Rightarrow> yaml \<Rightarrow> (string \<times> yaml) list" and
  ListAllMember_map :: "string \<Rightarrow> (string \<times> yaml) list \<Rightarrow> (string \<times> yaml) list" where
  "ListAllMember pre (YMap kvs) =
     (if \<not> valid_name pre then [] else (pre, YMap kvs) # ListAllMember_map pre kvs)"
| "ListAllMember pre YNull = (if \<not> valid_name pre then [] else [(pre, YNull)])"
| "ListAllMember pre (YScalar s) = (if \<not> valid_name pre then [] else [(pre, YScalar s)])"
| "ListAllMember pre (YSeq xs) = (if \<not> valid_name pre then [] else [(pre, YSeq xs)])"
| "ListAllMember_map pre [] = []"
| "ListAllMember_map pre ((k, n) # kvs) =
     ListAllMember (if pre = [] then k else pre @ ''.'' @ k) n @ ListAllMember_map pre kvs"

text \<open>The text a variable is set from: the scalar itself or the printed node.\<close>

definition node_text :: "(yaml \<Rightarrow> string) \<Rightarrow> yaml \<Rightarrow> string" where
  "node_text emit n = (case n of YScalar s \<Rightarrow> s | _ \<Rightarrow> emit n)"

definition load_node :: "(yaml \<Rightarrow> string) \<Rightarrow> (string \<Rightarrow> string \<Rightarrow> 'v option) \<Rightarrow> (nat \<Rightarrow> bool) \<Rightarrow> string \<times> yaml \<Rightarrow>
    'v config_map \<times> (nat \<times> 'v \<times> 'v) list \<Rightarrow> 'v config_map \<times> (nat \<times> 'v \<times> 'v) list" where
  "load_node emit from_str throws node st =
     (if fst node = [] then st
      else
        let key = ToLower (fst node) in
        case Config_LookupBase key (fst st) of
          None \<Rightarrow> st
        | Some var \<Rightarrow>
            let (b, calls, var') =
              ConfigVar_fromString from_str throws (node_text emit (snd node)) var
            in ((fst st)(key \<mapsto> var'), snd st @ calls))"

definition Config_LoadFromYaml :: "(yaml \<Rightarrow> string) \<Rightarrow> (string \<Rightarrow> string \<Rightarrow> 'v option) \<Rightarrow> (nat \<Rightarrow> bool) \<Rightarrow> yaml \<Rightarrow>
    'v config_map \<Rightarrow> 'v config_map \<times> (nat \<times> 'v \<times> 'v) list" where
  "Config_LoadFromYaml emit from_str throws root datas =
     fold (load_node emit from_str throws) (ListAllMember [] root) (datas, [])"

text \<open>\<open>LoadFromConfDir\<close>: for every file its name, its time of modification and its content, \<open>None\<close> when
  it cannot be read or parsed. \<open>times\<close> is \<open>s_file2modifytime\<close>, in which a missing entry counts as 0.\<close>

definition load_file :: "(yaml \<Rightarrow> string) \<Rightarrow> (string \<Rightarrow> string \<Rightarrow> 'v option) \<Rightarrow> (nat \<Rightarrow> bool) \<Rightarrow> bool \<Rightarrow>
    string \<times> u64 \<times> yaml option \<Rightarrow> (string \<Rightarrow> u64) \<times> 'v config_map \<times> (nat \<times> 'v \<times> 'v) list \<Rightarrow>
    (string \<Rightarrow> u64) \<times> 'v config_map \<times> (nat \<times> 'v \<times> 'v) list" where
  "load_file emit from_str throws force file st =
     (let (times, datas, calls) = st; (name, mtime, content) = file in
      if \<not> force \<and> times name = mtime then st
      else
        (times(name := mtime),
         case content of
           None \<Rightarrow> (datas, calls)
         | Some root \<Rightarrow>
             (let (datas', calls') = Config_LoadFromYaml emit from_str throws root datas in (datas', calls @ calls'))))"

definition Config_LoadFromConfDir :: "(yaml \<Rightarrow> string) \<Rightarrow> (string \<Rightarrow> string \<Rightarrow> 'v option) \<Rightarrow> (nat \<Rightarrow> bool) \<Rightarrow> bool \<Rightarrow>
    (string \<times> u64 \<times> yaml option) list \<Rightarrow> (string \<Rightarrow> u64) \<times> 'v config_map \<times> (nat \<times> 'v \<times> 'v) list \<Rightarrow>
    (string \<Rightarrow> u64) \<times> 'v config_map \<times> (nat \<times> 'v \<times> 'v) list" where
  "Config_LoadFromConfDir emit from_str throws force files st = fold (load_file emit from_str throws force) files st"

section \<open>Round trips of the conversions\<close>

text \<open>What the documentation of the YAML library promises, and what a conversion of element values
  needs: the node loaded from a value's string, printed again, is converted to the value.\<close>

definition yaml_law :: "(string \<Rightarrow> yaml option) \<Rightarrow> (yaml \<Rightarrow> string) \<Rightarrow> bool" where
  "yaml_law load emit \<longleftrightarrow> (\<forall>n. load (emit n) = Some n)"

definition codec_law :: "(string \<Rightarrow> yaml option) \<Rightarrow> (yaml \<Rightarrow> string) \<Rightarrow> ('a \<Rightarrow> string option) \<Rightarrow> (string \<Rightarrow> 'b option) \<Rightarrow>
    ('a \<Rightarrow> 'b) \<Rightarrow> 'a \<Rightarrow> bool" where
  "codec_law load emit ts fs view x \<longleftrightarrow> (\<exists>s n. ts x = Some s \<and> load s = Some n \<and> fs (emit n) = Some (view x))"

lemma node_all_cast:
  assumes "\<forall>x \<in> set xs. codec_law load emit ts fs view x"
  shows "\<exists>ns. node_all load ts xs = Some ns \<and> length ns = length xs \<and> cast_all fs (map emit ns) = Some (map view xs)"
  using assms
proof (induction xs)
  case (Cons x xs)
  then obtain ns where ns: "node_all load ts xs = Some ns" "length ns = length xs"
    "cast_all fs (map emit ns) = Some (map view xs)" by auto
  obtain s n where "ts x = Some s" "load s = Some n" "fs (emit n) = Some (view x)"
    using Cons.prems by (auto simp: codec_law_def)
  then have "node_all load ts (x # xs) = Some (n # ns) \<and> length (n # ns) = length (x # xs) \<and>
      cast_all fs (map emit (n # ns)) = Some (map view (x # xs))"
    using ns by simp
  then show ?case by blast
qed simp

lemma seq_nodes: "map (\<lambda>i. emit (yaml_at idx (YSeq ns) i)) [0..<yaml_size (YSeq ns)] = map emit ns"
  by (rule nth_equalityI) (simp_all add: yaml_at_def yaml_size_def)

lemma fold_map_insert:
  "distinct (map fst kvs) \<Longrightarrow> \<forall>k \<in> fst ` set kvs. m k = None \<Longrightarrow> fold map_insert kvs m = m ++ map_of kvs"
proof (induction kvs arbitrary: m)
  case (Cons kv kvs)
  obtain k v where kv: "kv = (k, v)" by fastforce
  have "fold map_insert (kv # kvs) m = fold map_insert kvs (m(k \<mapsto> v))"
    using Cons.prems kv by (simp add: map_insert_def)
  also have "\<dots> = m(k \<mapsto> v) ++ map_of kvs"
    by (rule Cons.IH) (use Cons.prems kv in auto)
  also have "\<dots> = m ++ map_of (kv # kvs)"
  proof -
    have "map_of kvs k = None" using Cons.prems(1) kv by (simp add: map_of_eq_None_iff)
    then show ?thesis using kv by (auto simp: fun_eq_iff map_add_def split: option.splits)
  qed
  finally show ?case .
qed simp

text \<open>The conversions of containers are inverse to each other as soon as those of their elements
  are: a vector, a list, a set or a map that is printed to a YAML string and read back is the same, and
  the law holds again for the container, so that containers can be nested.\<close>

theorem container_round_trip:
  assumes "yaml_law load emit" and "\<forall>x \<in> set xs. codec_law load emit ts fs id x" and "length ks = length xs" and "distinct ks"
  shows "codec_law load emit (vector_to_string load emit ts) (vector_from_string load emit idx fs) id xs \<and>
    codec_law load emit (list_to_string load emit ts) (list_from_string load emit idx fs) id xs \<and>
    codec_law load emit (set_to_string load emit ts) (set_from_string load emit idx fs) set xs \<and>
    codec_law load emit (map_to_string load emit ts) (map_from_string load emit fs) map_of (zip ks xs)"
proof -
  obtain ns where ns: "node_all load ts xs = Some ns" "length ns = length xs"
    "cast_all fs (map emit ns) = Some xs"
    using node_all_cast [OF assms(2)] by auto
  have l: "load (emit n) = Some n" for n using assms(1) by (simp add: yaml_law_def)
  have "fold insert xs {} = set xs" by (simp add: union_set_fold [symmetric])
  moreover have "map (\<lambda>(k, n). emit n) (zip ks ns) = map emit ns"
    using ns(2) assms(3) by (intro nth_equalityI) simp_all
  moreover have "fold map_insert (zip ks xs) Map.empty = map_of (zip ks xs)"
    using fold_map_insert [of "zip ks xs" Map.empty] assms(3,4) by simp
  ultimately show ?thesis
    using ns assms(3)
    by (simp add: codec_law_def vector_to_string_def vector_from_string_def list_to_string_def list_from_string_def
        set_to_string_def set_from_string_def map_to_string_def map_from_string_def l seq_nodes yaml_entries_def)
qed

text \<open>A library that numbers the documents.\<close>

definition sample_emit :: "yaml \<Rightarrow> string" where
  "sample_emit n = show_nat (to_nat n)"

definition sample_load :: "string \<Rightarrow> yaml option" where
  "sample_load s = Some (from_nat (value_of_digits s))"

definition sample_to :: "string \<Rightarrow> string option" where
  "sample_to x = Some (sample_emit (YScalar x))"

definition sample_from :: "string \<Rightarrow> string option" where
  "sample_from s = (case sample_load s of Some (YScalar x) \<Rightarrow> Some x | _ \<Rightarrow> None)"

lemma sample_laws: "yaml_law sample_load sample_emit" "codec_law sample_load sample_emit sample_to sample_from id x"
  by (simp_all add: yaml_law_def codec_law_def sample_load_def sample_emit_def sample_to_def sample_from_def)

theorem container_round_trip_witness:
  "codec_law sample_load sample_emit (vector_to_string sample_load sample_emit sample_to)
     (vector_from_string sample_load sample_emit (\<lambda>n i. YNull) sample_from) id [''a'', ''b'']"
  using container_round_trip [OF sample_laws(1), of "[''a'', ''b'']" sample_to sample_from "[''x'', ''y'']" "\<lambda>n i. YNull"]
    sample_laws(2) by simp

section \<open>Variables and listeners\<close>

lemma notify_quiet:
  "(\<forall>cb \<in> snd ` set cbs. \<not> throws cb) \<Longrightarrow> notify throws old v cbs = (map (\<lambda>(k, cb). (cb, old, v)) cbs, False)"
  by (induction cbs) auto

lemma notify_thrown:
  "snd (notify throws old v cbs) \<longleftrightarrow> (\<exists>cb \<in> snd ` set cbs. throws cb)"
  by (induction cbs) (auto split: prod.splits)

lemma notify_prefix:
  "\<exists>n. fst (notify throws old v cbs) = take n (map (\<lambda>(k, cb). (cb, old, v)) cbs)"
proof (induction cbs)
  case (Cons c cbs)
  obtain k cb where c: "c = (k, cb)" by fastforce
  obtain n where n: "fst (notify throws old v cbs) = take n (map (\<lambda>(k, cb). (cb, old, v)) cbs)" using Cons.IH by blast
  show ?case
  proof (cases "throws cb")
    case True
    then show ?thesis using c by (intro exI [of _ 1]) simp
  next
    case False
    then show ?thesis using c n by (intro exI [of _ "Suc n"]) (cases "notify throws old v cbs", simp)
  qed
qed simp

text \<open>C34. Setting a variable to the value it has does nothing. Otherwise the listeners are told the old
  and the new value, in the order of their ids; when none throws, every listener was told and the
  variable has the new value; when one throws, those after it are not told and the old value stays. The
  answer of \<open>fromString\<close> is false in every case.\<close>

theorem set_value_notifies:
  "(v = cv_val var \<longrightarrow> ConfigVar_setValue throws v var = ([], False, var)) \<and>
   (v \<noteq> cv_val var \<and> (\<forall>cb \<in> snd ` set (cv_cbs var). \<not> throws cb) \<longrightarrow>
     ConfigVar_setValue throws v var =
       (map (\<lambda>(k, cb). (cb, cv_val var, v)) (cv_cbs var), False, var\<lparr>cv_val := v\<rparr>)) \<and>
   (v \<noteq> cv_val var \<and> (\<exists>cb \<in> snd ` set (cv_cbs var). throws cb) \<longrightarrow>
     (\<exists>n. ConfigVar_setValue throws v var =
       (take n (map (\<lambda>(k, cb). (cb, cv_val var, v)) (cv_cbs var)), True, var))) \<and>
   \<not> fst (ConfigVar_fromString from_str throws s var)"
proof (intro conjI impI)
  show "ConfigVar_setValue throws v var = ([], False, var)" if "v = cv_val var"
    using that by (simp add: ConfigVar_setValue_def)
  show "ConfigVar_setValue throws v var =
      (map (\<lambda>(k, cb). (cb, cv_val var, v)) (cv_cbs var), False, var\<lparr>cv_val := v\<rparr>)"
    if "v \<noteq> cv_val var \<and> (\<forall>cb \<in> snd ` set (cv_cbs var). \<not> throws cb)"
    using that by (simp add: ConfigVar_setValue_def notify_quiet)
  show "\<exists>n. ConfigVar_setValue throws v var =
      (take n (map (\<lambda>(k, cb). (cb, cv_val var, v)) (cv_cbs var)), True, var)"
    if h: "v \<noteq> cv_val var \<and> (\<exists>cb \<in> snd ` set (cv_cbs var). throws cb)"
  proof -
    obtain calls t where n: "notify throws (cv_val var) v (cv_cbs var) = (calls, t)" by fastforce
    then have "t" using h notify_thrown [of throws "cv_val var" v "cv_cbs var"] by simp
    then show ?thesis
      using h n notify_prefix [of throws "cv_val var" v "cv_cbs var"] by (auto simp: ConfigVar_setValue_def)
  qed
  show "\<not> fst (ConfigVar_fromString from_str throws s var)"
    by (simp add: ConfigVar_fromString_def split: option.splits prod.splits)
qed

theorem set_value_notifies_witness:
  "ConfigVar_setValue (\<lambda>cb. False) (8 :: int)
     \<lparr>cv_name = ''tcp.timeout'', cv_description = [], cv_type = ''int'', cv_val = 5, cv_cbs = [(1, 3), (2, 4)]\<rparr> =
   ([(3, 5, 8), (4, 5, 8)], False,
     \<lparr>cv_name = ''tcp.timeout'', cv_description = [], cv_type = ''int'', cv_val = 8, cv_cbs = [(1, 3), (2, 4)]\<rparr>)"
  using set_value_notifies [of 8
      "\<lparr>cv_name = ''tcp.timeout'', cv_description = [], cv_type = ''int'', cv_val = 5 :: int, cv_cbs = [(1, 3), (2, 4)]\<rparr>"
      "\<lambda>cb. False"] by simp

text \<open>The ids of the listeners of a variable are the keys of an ordered map.\<close>

definition cbs_ok :: "u64 \<Rightarrow> 'v config_var \<Rightarrow> bool" where
  "cbs_ok s_fun_id var \<longleftrightarrow> sorted_wrt (<) (map fst (cv_cbs var)) \<and> (\<forall>k \<in> fst ` set (cv_cbs var). k \<le> s_fun_id)"

lemma cbs_put_last:
  "\<forall>k' \<in> fst ` set cbs. k' < k \<Longrightarrow> cbs_put k cb cbs = cbs @ [(k, cb)]"
  by (induction cbs) auto

lemma addListener_ok:
  assumes "cbs_ok s_fun_id var" and "s_fun_id \<noteq> - 1" and "ConfigVar_addListener cb s_fun_id var = (key, s_fun_id', var')"
  shows "cbs_ok s_fun_id' var'" "ConfigVar_getListener key var' = Some cb"
    "ConfigVar_delListener key var' = var" "k \<noteq> key \<Longrightarrow> ConfigVar_getListener k var' = ConfigVar_getListener k var"
proof -
  have less: "s_fun_id < s_fun_id + 1"
  proof -
    have "unat s_fun_id \<noteq> 2 ^ 64 - 1"
      using assms(2) by (simp add: word_unat_eq_iff unsigned_minus_1_eq_mask mask_eq_exp_minus_1)
    then have "unat s_fun_id + unat (1 :: u64) < 2 ^ LENGTH(64)" using unat_bound [of s_fun_id] by simp
    then show ?thesis using word_plus_no_wrap(2) [of s_fun_id 1] by (simp add: word_less_nat_alt)
  qed
  then have below: "\<forall>k' \<in> fst ` set (cv_cbs var). k' < s_fun_id + 1"
    using assms(1) by (auto simp: cbs_ok_def intro: le_less_trans)
  then have v: "key = s_fun_id + 1" "s_fun_id' = key" "var' = var\<lparr>cv_cbs := cv_cbs var @ [(key, cb)]\<rparr>"
    using assms(3) by (auto simp: ConfigVar_addListener_def Let_def cbs_put_last)
  show "cbs_ok s_fun_id' var'"
    using assms(1) below less v by (auto simp: cbs_ok_def sorted_wrt_append)
  have none: "map_of (cv_cbs var) key = None" using below v(1) by (auto simp: map_of_eq_None_iff)
  then show "ConfigVar_getListener key var' = Some cb"
    "k \<noteq> key \<Longrightarrow> ConfigVar_getListener k var' = ConfigVar_getListener k var"
    using v by (auto simp: ConfigVar_getListener_def map_add_def split: option.splits)
  have "filter (\<lambda>(k, cb). k \<noteq> key) (cv_cbs var) = cv_cbs var" using below v(1) by (force simp: filter_id_conv)
  then show "ConfigVar_delListener key var' = var" using v by (simp add: ConfigVar_delListener_def)
qed

section \<open>Names and loading\<close>

lemma valid_name_iff: "valid_name name \<longleftrightarrow> set name \<subseteq> set valid_chars"
  by (auto simp: valid_name_def find_first_not_of_def Let_def length_takeWhile_full)

text \<open>The alphabet of names has no 9, although the documentation of the class allows the digits
  0 to 9.\<close>

lemma name_with_9_rejected:
  assumes "CHR ''9'' \<in> set name" and "datas name = None"
  shows "Config_Lookup type name d desc datas = Inl (Thrown name)"
proof -
  have "\<not> valid_name name" using assms(1) by (auto simp: valid_name_iff valid_chars_def)
  then show ?thesis using assms(2) by (simp add: Config_Lookup_def)
qed

lemma ToLower_valid: "valid_name name \<Longrightarrow> ToLower name = name"
proof -
  have "list_all (\<lambda>c. tolower c = c) valid_chars" by code_simp
  then show "valid_name name \<Longrightarrow> ToLower name = name"
    by (auto simp: valid_name_iff ToLower_def list_all_iff intro!: map_idI)
qed

lemma ListAllMember_valid:
  "(k, m) \<in> set (ListAllMember pre n) \<Longrightarrow> valid_name k"
  "(k, m) \<in> set (ListAllMember_map pre kvs) \<Longrightarrow> valid_name k"
  by (induction pre n and pre kvs rule: ListAllMember_ListAllMember_map.induct) (auto split: if_splits)

text \<open>What loading a node makes of a variable when no listener throws.\<close>

definition loaded :: "(yaml \<Rightarrow> string) \<Rightarrow> (string \<Rightarrow> string \<Rightarrow> 'v option) \<Rightarrow> yaml \<Rightarrow> 'v config_var \<Rightarrow> 'v config_var" where
  "loaded emit from_str n var =
     (case from_str (cv_type var) (node_text emit n) of None \<Rightarrow> var | Some v \<Rightarrow> var\<lparr>cv_val := v\<rparr>)"

abbreviation quiet :: "nat \<Rightarrow> bool" where "quiet \<equiv> (\<lambda>cb. False)"

lemma fromString_loaded:
  "snd (snd (ConfigVar_fromString from_str quiet (node_text emit n) var)) = loaded emit from_str n var"
  "loaded emit from_str n var = var \<Longrightarrow> ConfigVar_fromString from_str quiet (node_text emit n) var = (False, [], var)"
  by (auto simp: ConfigVar_fromString_def loaded_def ConfigVar_setValue_def notify_quiet split: option.splits)
    (metis config_var.select_convs(4) config_var.surjective config_var.update_convs(4))+

lemma load_node_eq:
  assumes "valid_name k"
  shows "load_node emit from_str quiet (k, n) (datas, calls) =
    (if k = [] then (datas, calls)
     else case datas k of
       None \<Rightarrow> (datas, calls)
     | Some var \<Rightarrow> (datas(k \<mapsto> loaded emit from_str n var),
         calls @ fst (snd (ConfigVar_fromString from_str quiet (node_text emit n) var))))"
  using fromString_loaded(1) [of from_str emit n]
  by (simp add: load_node_def ToLower_valid [OF assms] Config_LookupBase_def Let_def case_prod_unfold split: option.splits)

lemma fold_load_node:
  assumes "\<forall>(k, n) \<in> set xs. valid_name k" and "distinct (map fst xs)"
  shows "fst (fold (load_node emit from_str quiet) xs (datas, calls)) name =
    (case map_of xs name of
       Some n \<Rightarrow> if name = [] then datas name else map_option (loaded emit from_str n) (datas name)
     | None \<Rightarrow> datas name)"
  using assms
proof (induction xs arbitrary: datas calls)
  case (Cons x xs)
  obtain k n where x: "x = (k, n)" by fastforce
  have k: "valid_name k" "map_of xs k = None" using Cons.prems x by (auto simp: map_of_eq_None_iff)
  let ?d = "if k = [] then datas else (case datas k of None \<Rightarrow> datas | Some var \<Rightarrow> datas(k \<mapsto> loaded emit from_str n var))"
  have f: "fst (load_node emit from_str quiet x (datas, calls)) = ?d"
    unfolding x load_node_eq [OF k(1)] by (simp split: option.splits)
  define calls' where "calls' = snd (load_node emit from_str quiet x (datas, calls))"
  have step: "load_node emit from_str quiet x (datas, calls) = (?d, calls')"
    unfolding calls'_def f [symmetric] by simp
  have ih: "fst (fold (load_node emit from_str quiet) xs (datas', calls')) name =
      (case map_of xs name of
        Some n \<Rightarrow> if name = [] then datas' name else map_option (loaded emit from_str n) (datas' name)
      | None \<Rightarrow> datas' name)" for datas'
    by (rule Cons.IH) (use Cons.prems in auto)
  have e: "fst (fold (load_node emit from_str quiet) (x # xs) (datas, calls)) name =
      (case map_of xs name of
        Some n \<Rightarrow> if name = [] then ?d name else map_option (loaded emit from_str n) (?d name)
      | None \<Rightarrow> ?d name)"
    by (simp only: fold_simps step ih)
  show ?case unfolding e using k(2) x by (cases "datas k") (auto split: option.splits if_splits)
qed simp

lemma fold_load_node_same:
  assumes "\<forall>(k, n) \<in> set xs. valid_name k \<and> (\<forall>var. k \<noteq> [] \<and> datas k = Some var \<longrightarrow> loaded emit from_str n var = var)"
  shows "fold (load_node emit from_str quiet) xs (datas, calls) = (datas, calls)"
  using assms
proof (induction xs)
  case (Cons x xs)
  obtain k n where x: "x = (k, n)" by fastforce
  have "load_node emit from_str quiet x (datas, calls) = (datas, calls)"
    using Cons.prems x load_node_eq [of k emit from_str n datas calls] fromString_loaded(2) [of emit from_str n]
    by (auto simp: fun_upd_idem split: option.splits)
  then show ?case using Cons by simp
qed simp


definition sample_config :: "int config_map" where
  "sample_config = [''tcp.port'' \<mapsto> ConfigVar_new ''int'' ''tcp.port'' 80 []]"

definition sample_root :: yaml where
  "sample_root = YMap [(''tcp'', YMap [(''port'', YScalar ''8080'')])]"

lemma sample_members:
  "ListAllMember [] sample_root =
     [([], sample_root), (''tcp'', YMap [(''port'', YScalar ''8080'')]), (''tcp.port'', YScalar ''8080'')]"
  by (simp add: sample_root_def valid_name_iff valid_chars_def)


text \<open>Names with capital letters are dropped while the document is listed, before \<open>LoadFromYaml\<close> turns
  them to lower case.\<close>

lemma capital_names_dropped:
  "set k \<inter> {c. CHR ''A'' \<le> c \<and> c \<le> CHR ''Z''} \<noteq> {} \<Longrightarrow> ListAllMember k n = []"
proof -
  assume h: "set k \<inter> {c. CHR ''A'' \<le> c \<and> c \<le> CHR ''Z''} \<noteq> {}"
  have "list_all (\<lambda>c. \<not> (CHR ''A'' \<le> c \<and> c \<le> CHR ''Z'')) valid_chars" by code_simp
  then have "\<not> valid_name k" using h by (auto simp: valid_name_iff list_all_iff)
  then show "ListAllMember k n = []" by (cases n) simp_all
qed

text \<open>Loading the directory again without \<open>force\<close> skips every file that was not modified, whether or not
  it could be parsed the first time.\<close>

lemma load_file_times: "fst (load_file emit from_str throws force (name, mtime, content) st) name = mtime"
  "name' \<noteq> name \<Longrightarrow> fst (load_file emit from_str throws force (name, mtime, content) st) name' = fst st name'"
  by (auto simp: load_file_def Let_def split: prod.splits)

lemma load_files_times:
  assumes "distinct (map fst files)"
  shows "(name, mtime, content) \<in> set files \<Longrightarrow>
    fst (Config_LoadFromConfDir emit from_str throws force files st) name = mtime"
    and "name \<notin> fst ` set files \<Longrightarrow> fst (Config_LoadFromConfDir emit from_str throws force files st) name = fst st name"
  using assms
proof (induction files arbitrary: st)
  case (Cons f files)
  obtain n m c where f: "f = (n, m, c)" by (cases f) auto
  {
    case 1
    then show ?case
      using Cons.IH [of "load_file emit from_str throws force f st"] f
        load_file_times(1) [of emit from_str throws force n m c st]
      by (cases "name = n") (force simp: Config_LoadFromConfDir_def)+
  next
    case 2
    then show ?case
      using Cons.IH(2) [of "load_file emit from_str throws force f st"] f
        load_file_times(2) [of name n emit from_str throws force m c st]
      by (simp add: Config_LoadFromConfDir_def)
  }
qed (simp_all add: Config_LoadFromConfDir_def)

lemma reload_noop:
  assumes "distinct (map fst files)" and "st' = Config_LoadFromConfDir emit from_str throws force files st"
  shows "Config_LoadFromConfDir emit from_str throws False files st' = st'"
proof -
  have "load_file emit from_str throws False f st' = st'" if "f \<in> set files" for f
  proof -
    obtain n m c where f: "f = (n, m, c)" by (cases f) auto
    then have "fst st' n = m" using load_files_times(1) [OF assms(1), of n m c emit from_str throws force st] that assms(2) by simp
    then show ?thesis using f by (cases st') (auto simp: load_file_def)
  qed
  then show ?thesis unfolding Config_LoadFromConfDir_def by (induction files) auto
qed

text \<open>A variable is created once: every later \<open>Lookup\<close> of the name gives that variable, or null for
  another type, and ignores its default value.\<close>

lemma lookup_once:
  assumes "Config_Lookup type name d desc datas = Inr (Some var, datas')"
  shows "Config_Lookup type name d' desc' datas' = Inr (Some var, datas')"
    "type' \<noteq> type \<Longrightarrow> Config_Lookup type' name d' desc' datas' = Inr (None, datas')"
    "Config_Lookup_existing type name datas' = Some var" "Config_LookupBase name datas' = Some var"
  using assms
  by (auto simp: Config_Lookup_def Config_Lookup_existing_def Config_LookupBase_def ConfigVar_new_def Let_def
      split: option.splits if_splits)

end
