(* ===== verification/Log.thy ===== *)
theory Log
  imports LogFormat Config
begin

text \<open>
  Appenders, loggers and their manager, and the configuration of loggers (\<open>sylar/log.h\<close>,
  \<open>sylar/log.cpp\<close>). Loggers are known by their names and appenders by their addresses; what is written
  to the console and to files is a list of outputs in the order of writing. \<open>writable\<close> says whether a
  log file can be opened. The locks are not modelled: every operation is one step.
\<close>

section \<open>State\<close>

datatype appender_kind = StdoutLogAppender | FileLogAppender string

record log_appender =
  ap_kind :: appender_kind
  ap_level :: log_level
  ap_has_formatter :: bool
  ap_formatter :: "log_formatter option"
  ap_last_time :: u64
  ap_good :: bool

record logger =
  lg_name :: string
  lg_level :: log_level
  lg_appenders :: "nat list"
  lg_formatter :: "log_formatter option"
  lg_root :: "string option"

record log_sys =
  ls_loggers :: "string \<rightharpoonup> logger"
  ls_appenders :: "nat \<rightharpoonup> log_appender"
  ls_out :: "(appender_kind \<times> string) list"

section \<open>Appenders\<close>

definition FileLogAppender_reopen :: "(string \<Rightarrow> bool) \<Rightarrow> log_appender \<Rightarrow> log_appender" where
  "FileLogAppender_reopen writable a =
     (case ap_kind a of FileLogAppender filename \<Rightarrow> a\<lparr>ap_good := writable filename\<rparr> | StdoutLogAppender \<Rightarrow> a)"

definition FileLogAppender_new :: "(string \<Rightarrow> bool) \<Rightarrow> string \<Rightarrow> log_appender" where
  "FileLogAppender_new writable filename =
     FileLogAppender_reopen writable
       \<lparr>ap_kind = FileLogAppender filename, ap_level = DEBUG, ap_has_formatter = False, ap_formatter = None,
        ap_last_time = 0, ap_good = False\<rparr>"

definition StdoutLogAppender_new :: log_appender where
  "StdoutLogAppender_new = \<lparr>ap_kind = StdoutLogAppender, ap_level = DEBUG, ap_has_formatter = False,
     ap_formatter = None, ap_last_time = 0, ap_good = True\<rparr>"

definition LogAppender_setFormatter :: "log_formatter option \<Rightarrow> log_appender \<Rightarrow> log_appender" where
  "LogAppender_setFormatter val a = a\<lparr>ap_formatter := val, ap_has_formatter := (val \<noteq> None)\<rparr>"

text \<open>\<open>log\<close> of the two kinds: the output, if any, and the appender afterwards. Calling through a null
  formatter is undefined.\<close>

definition StdoutLogAppender_log :: "(string \<Rightarrow> u64 \<Rightarrow> string) \<Rightarrow> log_level \<Rightarrow> log_event \<Rightarrow> log_appender \<Rightarrow>
    (string option \<times> log_appender) result" where
  "StdoutLogAppender_log strftime level e a =
     (if level \<ge> ap_level a then
        (case ap_formatter a of
           None \<Rightarrow> Inl (Undefined ''formatter_->format'')
         | Some f \<Rightarrow> Inr (Some (LogFormatter_format strftime f level e), a))
      else Inr (None, a))"

definition FileLogAppender_log :: "(string \<Rightarrow> bool) \<Rightarrow> (string \<Rightarrow> u64 \<Rightarrow> string) \<Rightarrow> log_level \<Rightarrow> log_event \<Rightarrow> log_appender \<Rightarrow>
    (string option \<times> log_appender) result" where
  "FileLogAppender_log writable strftime level e a =
     (if level \<ge> ap_level a then
        let now = ev_time e;
            a1 = (if now \<ge> ap_last_time a + 3 then (FileLogAppender_reopen writable a)\<lparr>ap_last_time := now\<rparr> else a)
        in (case ap_formatter a1 of
              None \<Rightarrow> Inl (Undefined ''formatter_->format'')
            | Some f \<Rightarrow> Inr (if ap_good a1 then Some (LogFormatter_format strftime f level e) else None, a1))
      else Inr (None, a))"

definition LogAppender_log :: "(string \<Rightarrow> bool) \<Rightarrow> (string \<Rightarrow> u64 \<Rightarrow> string) \<Rightarrow> log_level \<Rightarrow> log_event \<Rightarrow> nat \<Rightarrow> log_sys \<Rightarrow>
    log_sys result" where
  "LogAppender_log writable strftime level e p s =
     (case ls_appenders s p of
        None \<Rightarrow> Inl (Undefined ''null appender'')
      | Some a \<Rightarrow>
          rbind (case ap_kind a of
                   StdoutLogAppender \<Rightarrow> StdoutLogAppender_log strftime level e a
                 | FileLogAppender f \<Rightarrow> FileLogAppender_log writable strftime level e a) (\<lambda>(out, a1).
          Inr (s\<lparr>ls_appenders := (ls_appenders s)(p \<mapsto> a1),
                 ls_out := ls_out s @ (case out of None \<Rightarrow> [] | Some t \<Rightarrow> [(ap_kind a, t)])\<rparr>)))"

section \<open>Loggers\<close>

definition default_pattern_text :: string where
  "default_pattern_text = ''%d{%Y-%m-%d %H:%M:%S}%T%t%T%N%T%F%T[%p]%T[%c]%T%f:%l%T%m%n''"

definition Logger_new :: "string \<Rightarrow> logger" where
  "Logger_new name = \<lparr>lg_name = name, lg_level = DEBUG, lg_appenders = [],
     lg_formatter = Some (LogFormatter_new default_pattern_text), lg_root = None\<rparr>"

text \<open>Setting the formatter of a logger passes it on to its appenders without one of their own.\<close>

definition inherit_formatter :: "log_formatter option \<Rightarrow> nat \<Rightarrow> (nat \<rightharpoonup> log_appender) \<Rightarrow> (nat \<rightharpoonup> log_appender)" where
  "inherit_formatter val p h =
     (case h p of
        None \<Rightarrow> h
      | Some a \<Rightarrow> if \<not> ap_has_formatter a then h(p \<mapsto> a\<lparr>ap_formatter := val\<rparr>) else h)"

definition Logger_setFormatter :: "log_formatter option \<Rightarrow> string \<Rightarrow> log_sys \<Rightarrow> log_sys" where
  "Logger_setFormatter val name s =
     (case ls_loggers s name of
        None \<Rightarrow> s
      | Some lg \<Rightarrow>
          s\<lparr>ls_loggers := (ls_loggers s)(name \<mapsto> lg\<lparr>lg_formatter := val\<rparr>),
            ls_appenders := fold (inherit_formatter val) (lg_appenders lg) (ls_appenders s)\<rparr>)"

definition Logger_setFormatter_string :: "string \<Rightarrow> string \<Rightarrow> log_sys \<Rightarrow> log_sys" where
  "Logger_setFormatter_string val name s =
     (let new_val = LogFormatter_new val
      in if lf_error new_val then s else Logger_setFormatter (Some new_val) name s)"

definition update_logger :: "string \<Rightarrow> (logger \<Rightarrow> logger) \<Rightarrow> log_sys \<Rightarrow> log_sys" where
  "update_logger name f s =
     (case ls_loggers s name of None \<Rightarrow> s | Some lg \<Rightarrow> s\<lparr>ls_loggers := (ls_loggers s)(name \<mapsto> f lg)\<rparr>)"

definition Logger_setLevel :: "log_level \<Rightarrow> string \<Rightarrow> log_sys \<Rightarrow> log_sys" where
  "Logger_setLevel level name s = update_logger name (\<lambda>lg. lg\<lparr>lg_level := level\<rparr>) s"

definition Logger_addAppender :: "nat \<Rightarrow> string \<Rightarrow> log_sys \<Rightarrow> log_sys" where
  "Logger_addAppender p name s =
     (case (ls_loggers s name, ls_appenders s p) of
        (Some lg, Some a) \<Rightarrow>
          s\<lparr>ls_appenders := (if ap_formatter a = None then (ls_appenders s)(p \<mapsto> a\<lparr>ap_formatter := lg_formatter lg\<rparr>)
                            else ls_appenders s),
            ls_loggers := (ls_loggers s)(name \<mapsto> lg\<lparr>lg_appenders := lg_appenders lg @ [p]\<rparr>)\<rparr>
      | _ \<Rightarrow> s)"

definition Logger_delAppender :: "nat \<Rightarrow> string \<Rightarrow> log_sys \<Rightarrow> log_sys" where
  "Logger_delAppender p name s = update_logger name (\<lambda>lg. lg\<lparr>lg_appenders := remove1 p (lg_appenders lg)\<rparr>) s"

definition Logger_clearAppenders :: "string \<Rightarrow> log_sys \<Rightarrow> log_sys" where
  "Logger_clearAppenders name s = update_logger name (\<lambda>lg. lg\<lparr>lg_appenders := []\<rparr>) s"

fun log_all :: "(string \<Rightarrow> bool) \<Rightarrow> (string \<Rightarrow> u64 \<Rightarrow> string) \<Rightarrow> log_level \<Rightarrow> log_event \<Rightarrow> nat list \<Rightarrow> log_sys \<Rightarrow> log_sys result" where
  "log_all writable strftime level e [] s = Inr s"
| "log_all writable strftime level e (p # ps) s =
     rbind (LogAppender_log writable strftime level e p s) (log_all writable strftime level e ps)"

text \<open>\<open>Logger::log\<close>. The number bounds the chain of \<open>root_\<close> pointers, which is at most two loggers long in
  every state of the manager.\<close>

fun Logger_log :: "nat \<Rightarrow> (string \<Rightarrow> bool) \<Rightarrow> (string \<Rightarrow> u64 \<Rightarrow> string) \<Rightarrow> log_level \<Rightarrow> log_event \<Rightarrow> string \<Rightarrow> log_sys \<Rightarrow>
    log_sys result" where
  "Logger_log 0 writable strftime level e name s = Inl (Undefined ''chain of root loggers'')"
| "Logger_log (Suc n) writable strftime level e name s =
     (case ls_loggers s name of
        None \<Rightarrow> Inl (Undefined ''null logger'')
      | Some lg \<Rightarrow>
          if level \<ge> lg_level lg then
            if lg_appenders lg \<noteq> [] then log_all writable strftime level e (lg_appenders lg) s
            else (case lg_root lg of None \<Rightarrow> Inr s | Some r \<Rightarrow> Logger_log n writable strftime level e r s)
          else Inr s)"

text \<open>The macros \<open>SYLAR_LOG_LEVEL\<close> test the level of the logger, and the destructor of the wrapper logs the
  event.\<close>

definition LogEventWrap_destroy :: "(string \<Rightarrow> bool) \<Rightarrow> (string \<Rightarrow> u64 \<Rightarrow> string) \<Rightarrow> log_event \<Rightarrow> log_sys \<Rightarrow> log_sys result" where
  "LogEventWrap_destroy writable strftime e s = Logger_log 2 writable strftime (ev_level e) e (ev_logger e) s"

definition SYLAR_LOG_LEVEL :: "(string \<Rightarrow> bool) \<Rightarrow> (string \<Rightarrow> u64 \<Rightarrow> string) \<Rightarrow> log_event \<Rightarrow> log_sys \<Rightarrow> log_sys result" where
  "SYLAR_LOG_LEVEL writable strftime e s =
     (case ls_loggers s (ev_logger e) of
        None \<Rightarrow> Inl (Undefined ''null logger'')
      | Some lg \<Rightarrow> if lg_level lg \<le> ev_level e then LogEventWrap_destroy writable strftime e s else Inr s)"

section \<open>The manager\<close>

definition LoggerManager_new :: "nat \<Rightarrow> log_sys" where
  "LoggerManager_new p =
     Logger_addAppender p ''root''
       \<lparr>ls_loggers = [''root'' \<mapsto> Logger_new ''root''], ls_appenders = [p \<mapsto> StdoutLogAppender_new], ls_out = []\<rparr>"

definition LoggerManager_getLogger :: "string \<Rightarrow> log_sys \<Rightarrow> log_sys" where
  "LoggerManager_getLogger name s =
     (case ls_loggers s name of
        Some lg \<Rightarrow> s
      | None \<Rightarrow> s\<lparr>ls_loggers := (ls_loggers s)(name \<mapsto> (Logger_new name)\<lparr>lg_root := Some ''root''\<rparr>)\<rparr>)"

section \<open>YAML\<close>

text \<open>\<open>toYamlString\<close> of appenders, loggers and the manager; \<open>load\<close> and \<open>emit\<close> are the YAML library.\<close>

definition formatter_entry :: "log_formatter option \<Rightarrow> (string \<times> yaml) list" where
  "formatter_entry f = (case f of None \<Rightarrow> [] | Some x \<Rightarrow> [(''formatter'', YScalar (lf_pattern x))])"

definition level_entry :: "log_level \<Rightarrow> (string \<times> yaml) list" where
  "level_entry l = (if l \<noteq> UNKNOW then [(''level'', YScalar (LogLevel_ToString l))] else [])"

definition Appender_toYaml :: "log_appender \<Rightarrow> yaml" where
  "Appender_toYaml a =
     YMap ((case ap_kind a of
              FileLogAppender filename \<Rightarrow> [(''type'', YScalar ''FileLogAppender''), (''file'', YScalar filename)]
            | StdoutLogAppender \<Rightarrow> [(''type'', YScalar ''StdoutLogAppender'')]) @
       level_entry (ap_level a) @ (if ap_has_formatter a then formatter_entry (ap_formatter a) else []))"

definition appenders_entry :: "yaml list \<Rightarrow> (string \<times> yaml) list" where
  "appenders_entry ns = (if ns = [] then [] else [(''appenders'', YSeq ns)])"

definition Logger_toYaml :: "(string \<Rightarrow> yaml option) \<Rightarrow> (yaml \<Rightarrow> string) \<Rightarrow> log_sys \<Rightarrow> logger \<Rightarrow> yaml option" where
  "Logger_toYaml load emit s lg =
     map_option (\<lambda>ns. YMap ([(''name'', YScalar (lg_name lg))] @ level_entry (lg_level lg) @
         formatter_entry (lg_formatter lg) @ appenders_entry ns))
       (node_all load (\<lambda>p. map_option (\<lambda>a. emit (Appender_toYaml a)) (ls_appenders s p)) (lg_appenders lg))"

definition LoggerManager_toYamlString :: "(string \<Rightarrow> yaml option) \<Rightarrow> (yaml \<Rightarrow> string) \<Rightarrow> logger list \<Rightarrow> log_sys \<Rightarrow> string option" where
  "LoggerManager_toYamlString load emit order s =
     map_option (\<lambda>ns. emit (if ns = [] then YNull else YSeq ns))
       (node_all load (\<lambda>lg. map_option emit (Logger_toYaml load emit s lg)) order)"

section \<open>Definitions of loggers in the configuration\<close>

record log_appender_define =
  ad_type :: nat
  ad_level :: log_level
  ad_formatter :: string
  ad_file :: string

record log_define =
  ld_name :: string
  ld_level :: log_level
  ld_formatter :: string
  ld_appenders :: "log_appender_define list"

definition LogDefine_less :: "log_define \<Rightarrow> log_define \<Rightarrow> bool" where
  "LogDefine_less a b \<longleftrightarrow> bytes_less (map byte_of (ld_name a)) (map byte_of (ld_name b))"

definition LogDefine_isValid :: "log_define \<Rightarrow> bool" where
  "LogDefine_isValid d \<longleftrightarrow> ld_name d \<noteq> []"

text \<open>\<open>node[key]\<close>: subscripting a scalar throws, other nodes without the key are undefined. \<open>as_string\<close> is
  \<open>as<std::string>()\<close>, \<open>None\<close> when it throws.\<close>

definition yaml_get :: "yaml \<Rightarrow> string \<Rightarrow> yaml option option" where
  "yaml_get n key = (case n of YScalar s \<Rightarrow> None | YMap kvs \<Rightarrow> Some (map_of kvs key) | _ \<Rightarrow> Some None)"

definition get_string :: "(yaml \<Rightarrow> string option) \<Rightarrow> yaml \<Rightarrow> string \<Rightarrow> string \<Rightarrow> string option" where
  "get_string as_string n key default_value =
     (case yaml_get n key of
        None \<Rightarrow> None
      | Some None \<Rightarrow> Some default_value
      | Some (Some v) \<Rightarrow> as_string v)"

text \<open>One round of the loop over the appenders: \<open>Some None\<close> is \<open>continue\<close>.\<close>

definition appender_from_yaml :: "(yaml \<Rightarrow> string option) \<Rightarrow> yaml \<Rightarrow> log_appender_define option option" where
  "appender_from_yaml as_string n =
     (case yaml_get n ''type'' of
        None \<Rightarrow> None
      | Some None \<Rightarrow> Some None
      | Some (Some t) \<Rightarrow>
          (case as_string t of
             None \<Rightarrow> None
           | Some ty \<Rightarrow>
               if ty = ''FileLogAppender'' then
                 (case yaml_get n ''file'' of
                    None \<Rightarrow> None
                  | Some None \<Rightarrow> Some None
                  | Some (Some f) \<Rightarrow>
                      (case (as_string f, get_string as_string n ''formatter'' []) of
                         (Some file, Some fmt) \<Rightarrow>
                           Some (Some \<lparr>ad_type = 1, ad_level = UNKNOW, ad_formatter = fmt, ad_file = file\<rparr>)
                       | _ \<Rightarrow> None))
               else if ty = ''StdoutLogAppender'' then
                 (case get_string as_string n ''formatter'' [] of
                    None \<Rightarrow> None
                  | Some fmt \<Rightarrow> Some (Some \<lparr>ad_type = 2, ad_level = UNKNOW, ad_formatter = fmt, ad_file = []\<rparr>))
               else Some None))"

fun appenders_from_yaml :: "(yaml \<Rightarrow> string option) \<Rightarrow> yaml list \<Rightarrow> log_appender_define list option" where
  "appenders_from_yaml as_string [] = Some []"
| "appenders_from_yaml as_string (n # ns) =
     (case appender_from_yaml as_string n of
        None \<Rightarrow> None
      | Some d \<Rightarrow>
          map_option (\<lambda>ds. (case d of None \<Rightarrow> [] | Some x \<Rightarrow> [x]) @ ds) (appenders_from_yaml as_string ns))"

definition LogDefine_from_yaml :: "(yaml \<Rightarrow> string option) \<Rightarrow> (yaml \<Rightarrow> nat \<Rightarrow> yaml) \<Rightarrow> yaml \<Rightarrow> log_define option" where
  "LogDefine_from_yaml as_string idx node =
     (case yaml_get node ''name'' of
        Some (Some nm) \<Rightarrow>
          (case (as_string nm, get_string as_string node ''level'' '' '', get_string as_string node ''formatter'' [],
                 case yaml_get node ''appenders'' of
                   None \<Rightarrow> None
                 | Some None \<Rightarrow> Some []
                 | Some (Some as) \<Rightarrow> appenders_from_yaml as_string (map (yaml_at idx as) [0..<yaml_size as])) of
             (Some name, Some level, Some fmt, Some ds) \<Rightarrow>
               Some \<lparr>ld_name = name, ld_level = LogLevel_FromString level, ld_formatter = fmt, ld_appenders = ds\<rparr>
           | _ \<Rightarrow> None)
      | _ \<Rightarrow> None)"

definition string_entry :: "string \<Rightarrow> string \<Rightarrow> (string \<times> yaml) list" where
  "string_entry key s = (if s \<noteq> [] then [(key, YScalar s)] else [])"

definition appender_to_yaml :: "log_appender_define \<Rightarrow> yaml" where
  "appender_to_yaml a =
     (let kvs = (if ad_type a = 1 then [(''type'', YScalar ''FileLogAppender''), (''file'', YScalar (ad_file a))]
                 else if ad_type a = 2 then [(''type'', YScalar ''StdoutLogAppender'')] else []) @
                level_entry (ad_level a) @ string_entry ''formatter'' (ad_formatter a)
      in if kvs = [] then YNull else YMap kvs)"

definition LogDefine_to_yaml :: "log_define \<Rightarrow> yaml" where
  "LogDefine_to_yaml d =
     YMap ([(''name'', YScalar (ld_name d))] @ level_entry (ld_level d) @ string_entry ''formatter'' (ld_formatter d) @
       appenders_entry (map appender_to_yaml (ld_appenders d)))"

section \<open>Applying a changed configuration\<close>

text \<open>One appender of a definition: \<open>daemon\<close> is \<open>Env::has("d")\<close>, \<open>fresh\<close> the address of the new object. An
  appender of another type leaves \<open>ap\<close> null.\<close>

definition make_appender :: "(string \<Rightarrow> bool) \<Rightarrow> bool \<Rightarrow> log_appender_define \<Rightarrow> log_appender option result" where
  "make_appender writable daemon d =
     (if ad_type d = 1 then Inr (Some (FileLogAppender_new writable (ad_file d)))
      else if ad_type d = 2 then Inr (if \<not> daemon then Some StdoutLogAppender_new else None)
      else Inl (Undefined ''ap->setLevel''))"

definition apply_appender :: "(string \<Rightarrow> bool) \<Rightarrow> bool \<Rightarrow> string \<Rightarrow> log_appender_define \<Rightarrow> nat \<times> log_sys \<Rightarrow> (nat \<times> log_sys) result" where
  "apply_appender writable daemon name d st =
     rbind (make_appender writable daemon d) (\<lambda>ap.
     case ap of
       None \<Rightarrow> Inr st
     | Some a \<Rightarrow>
         let (fresh, s) = st;
             a1 = a\<lparr>ap_level := ad_level d\<rparr>;
             fmt = LogFormatter_new (ad_formatter d);
             a2 = (if ad_formatter d \<noteq> [] \<and> \<not> lf_error fmt then LogAppender_setFormatter (Some fmt) a1 else a1)
         in Inr (Suc fresh, Logger_addAppender fresh name (s\<lparr>ls_appenders := (ls_appenders s)(fresh \<mapsto> a2)\<rparr>)))"

fun apply_appenders :: "(string \<Rightarrow> bool) \<Rightarrow> bool \<Rightarrow> string \<Rightarrow> log_appender_define list \<Rightarrow> nat \<times> log_sys \<Rightarrow> (nat \<times> log_sys) result" where
  "apply_appenders writable daemon name [] st = Inr st"
| "apply_appenders writable daemon name (d # ds) st =
     rbind (apply_appender writable daemon name d st) (apply_appenders writable daemon name ds)"

definition apply_define :: "(string \<Rightarrow> bool) \<Rightarrow> bool \<Rightarrow> log_define \<Rightarrow> nat \<times> log_sys \<Rightarrow> (nat \<times> log_sys) result" where
  "apply_define writable daemon i st =
     (let (fresh, s) = st;
          s1 = Logger_setLevel (ld_level i) (ld_name i) (LoggerManager_getLogger (ld_name i) s);
          s2 = (if ld_formatter i \<noteq> [] then Logger_setFormatter_string (ld_formatter i) (ld_name i) s1 else s1);
          s3 = Logger_clearAppenders (ld_name i) s2
      in apply_appenders writable daemon (ld_name i) (ld_appenders i) (fresh, s3))"

text \<open>The sets of definitions are ordered by name; \<open>find\<close> looks for a definition of the same name.\<close>

definition define_find :: "log_define \<Rightarrow> log_define list \<Rightarrow> log_define option" where
  "define_find i xs =
     (let k = set_find LogDefine_less i xs in if k < length xs then Some (xs ! k) else None)"

fun apply_new :: "(string \<Rightarrow> bool) \<Rightarrow> bool \<Rightarrow> log_define list \<Rightarrow> log_define list \<Rightarrow> nat \<times> log_sys \<Rightarrow> (nat \<times> log_sys) result" where
  "apply_new writable daemon old [] st = Inr st"
| "apply_new writable daemon old (i # is) st =
     rbind (if define_find i old = Some i then Inr st else apply_define writable daemon i st)
       (apply_new writable daemon old is)"

definition remove_define :: "log_define \<Rightarrow> log_sys \<Rightarrow> log_sys" where
  "remove_define i s =
     Logger_clearAppenders (ld_name i) (Logger_setLevel UNKNOW (ld_name i) (LoggerManager_getLogger (ld_name i) s))"

definition remove_old :: "log_define list \<Rightarrow> log_define list \<Rightarrow> log_sys \<Rightarrow> log_sys" where
  "remove_old new_value old_value s =
     fold (\<lambda>i s. if define_find i new_value = None then remove_define i s else s) old_value s"

definition on_logger_conf_changed :: "(string \<Rightarrow> bool) \<Rightarrow> bool \<Rightarrow> log_define list \<Rightarrow> log_define list \<Rightarrow> nat \<times> log_sys \<Rightarrow>
    (nat \<times> log_sys) result" where
  "on_logger_conf_changed writable daemon old_value new_value st =
     rbind (apply_new writable daemon old_value new_value st) (\<lambda>(fresh, s).
     Inr (fresh, remove_old new_value old_value s))"

section \<open>Round trip of the definitions\<close>

text \<open>What is left of an appender's definition: its level is printed but never read, and only a file
  appender keeps its file.\<close>

definition readable_appender :: "log_appender_define \<Rightarrow> log_appender_define" where
  "readable_appender a = a\<lparr>ad_level := UNKNOW, ad_file := (if ad_type a = 1 then ad_file a else [])\<rparr>"

lemma level_entry_get: "key \<noteq> ''level'' \<Longrightarrow> map_of (level_entry l @ kvs) key = map_of kvs key"
  by (auto simp: level_entry_def map_add_def split: option.splits)

lemma appender_round_trip:
  assumes "\<And>s. as_string (YScalar s) = Some s" and "ad_type a \<in> {1, 2}"
  shows "appender_from_yaml as_string (appender_to_yaml a) = Some (Some (readable_appender a))"
  using assms(2)
  by (cases a)
    (auto simp: appender_from_yaml_def appender_to_yaml_def readable_appender_def yaml_get_def get_string_def
      string_entry_def level_entry_def assms(1))

lemma appenders_round_trip:
  assumes "\<And>s. as_string (YScalar s) = Some s" and "\<forall>a \<in> set as. ad_type a \<in> {1, 2}"
  shows "appenders_from_yaml as_string (map appender_to_yaml as) = Some (map readable_appender as)"
  using assms(2) by (induction as) (simp_all add: appender_round_trip [OF assms(1)])

lemma seq_at: "map (yaml_at idx (YSeq ns)) [0..<yaml_size (YSeq ns)] = ns"
  by (rule nth_equalityI) (simp_all add: yaml_at_def yaml_size_def)

text \<open>A definition of a logger that is written to YAML and read back keeps its name, level, pattern and
  the kinds, files and patterns of its appenders; the levels of the appenders are lost.\<close>

theorem log_define_round_trip:
  assumes "\<And>s. as_string (YScalar s) = Some s" and "\<forall>a \<in> set (ld_appenders d). ad_type a \<in> {1, 2}"
  shows "LogDefine_from_yaml as_string idx (LogDefine_to_yaml d) =
    Some (d\<lparr>ld_appenders := map readable_appender (ld_appenders d)\<rparr>)"
proof -
  let ?kvs = "[(''name'', YScalar (ld_name d))] @ level_entry (ld_level d) @ string_entry ''formatter'' (ld_formatter d) @
       appenders_entry (map appender_to_yaml (ld_appenders d))"
  have n: "map_of ?kvs ''name'' = Some (YScalar (ld_name d))" by simp
  have l: "(case map_of ?kvs ''level'' of None \<Rightarrow> Some '' '' | Some v \<Rightarrow> as_string v) =
      Some (if ld_level d = UNKNOW then '' '' else LogLevel_ToString (ld_level d))"
    by (simp add: level_entry_def string_entry_def appenders_entry_def assms(1))
  have f: "(case map_of ?kvs ''formatter'' of None \<Rightarrow> Some [] | Some v \<Rightarrow> as_string v) = Some (ld_formatter d)"
    by (simp add: level_entry_def string_entry_def appenders_entry_def assms(1))
  have a: "map_of ?kvs ''appenders'' =
      (if ld_appenders d = [] then None else Some (YSeq (map appender_to_yaml (ld_appenders d))))"
    by (simp add: level_entry_def string_entry_def appenders_entry_def)
  have lv: "LogLevel_FromString (if ld_level d = UNKNOW then '' '' else LogLevel_ToString (ld_level d)) = ld_level d"
    by (cases "ld_level d") (simp_all add: LogLevel_FromString_def LogLevel_ToString_def)
  show ?thesis
    using n l f a lv
    by (simp add: LogDefine_from_yaml_def LogDefine_to_yaml_def yaml_get_def get_string_def assms(1) seq_at
        appenders_round_trip [OF assms] split: option.splits)
qed

theorem log_define_round_trip_witness:
  "LogDefine_from_yaml (\<lambda>n. case n of YScalar s \<Rightarrow> Some s | _ \<Rightarrow> None) (\<lambda>n i. YNull)
     (LogDefine_to_yaml \<lparr>ld_name = ''system'', ld_level = INFO, ld_formatter = ''%m%n'',
        ld_appenders = [\<lparr>ad_type = 1, ad_level = ERROR, ad_formatter = [], ad_file = ''/tmp/a.log''\<rparr>]\<rparr>) =
   Some \<lparr>ld_name = ''system'', ld_level = INFO, ld_formatter = ''%m%n'',
        ld_appenders = [\<lparr>ad_type = 1, ad_level = UNKNOW, ad_formatter = [], ad_file = ''/tmp/a.log''\<rparr>]\<rparr>"
  using log_define_round_trip [of "\<lambda>n. case n of YScalar s \<Rightarrow> Some s | _ \<Rightarrow> None"
      "\<lparr>ld_name = ''system'', ld_level = INFO, ld_formatter = ''%m%n'',
        ld_appenders = [\<lparr>ad_type = 1, ad_level = ERROR, ad_formatter = [], ad_file = ''/tmp/a.log''\<rparr>]\<rparr>" "\<lambda>n i. YNull"]
  by (simp add: readable_appender_def)

end
