(* ===== verification/Loggers.thy ===== *)
theory Loggers
  imports Log
begin

text \<open>
  What logging writes and what a changed configuration does: the states that the manager of the loggers
  reaches, that logging never fails in them and writes what each appender is due, and that the listener of
  the configuration leaves every logger as it is configured (\<open>sylar/log.cpp\<close>).
\<close>

section \<open>What is logged\<close>

text \<open>What an appender with a formatter writes for an event.\<close>

definition appender_out :: "(string \<Rightarrow> bool) \<Rightarrow> (string \<Rightarrow> u64 \<Rightarrow> string) \<Rightarrow> log_level \<Rightarrow> log_event \<Rightarrow> log_appender \<Rightarrow>
    (appender_kind \<times> string) list" where
  "appender_out writable strftime level e a =
     (let text = [(ap_kind a, LogFormatter_format strftime (the (ap_formatter a)) level e)] in
      if level < ap_level a then []
      else case ap_kind a of
             StdoutLogAppender \<Rightarrow> text
           | FileLogAppender f \<Rightarrow>
               if (if ev_time e \<ge> ap_last_time a + 3 then writable f else ap_good a) then text else [])"

text \<open>Appenders that agree on everything but the state of their file, and on what they write now.\<close>

definition same_appender :: "(string \<Rightarrow> bool) \<Rightarrow> (string \<Rightarrow> u64 \<Rightarrow> string) \<Rightarrow> log_level \<Rightarrow> log_event \<Rightarrow>
    (nat \<rightharpoonup> log_appender) \<Rightarrow> (nat \<rightharpoonup> log_appender) \<Rightarrow> bool" where
  "same_appender writable strftime level e h h' \<longleftrightarrow> (\<forall>p. rel_option (\<lambda>a a'.
     ap_kind a' = ap_kind a \<and> ap_level a' = ap_level a \<and> ap_formatter a' = ap_formatter a \<and>
     ap_has_formatter a' = ap_has_formatter a \<and>
     appender_out writable strftime level e a' = appender_out writable strftime level e a) (h p) (h' p))"

lemma same_appender_refl [simp]: "same_appender writable strftime level e h h"
  by (simp add: same_appender_def option.rel_refl)

lemma same_appender_trans:
  "same_appender w t l e h h' \<Longrightarrow> same_appender w t l e h' h'' \<Longrightarrow> same_appender w t l e h h''"
proof -
  assume 1: "same_appender w t l e h h'" and 2: "same_appender w t l e h' h''"
  show ?thesis
    unfolding same_appender_def
  proof
    fix p
    show "rel_option (\<lambda>a a'. ap_kind a' = ap_kind a \<and> ap_level a' = ap_level a \<and> ap_formatter a' = ap_formatter a \<and>
       ap_has_formatter a' = ap_has_formatter a \<and> appender_out w t l e a' = appender_out w t l e a) (h p) (h'' p)"
      using 1 [unfolded same_appender_def, rule_format, of p] 2 [unfolded same_appender_def, rule_format, of p]
      by (cases "h p"; cases "h' p"; cases "h'' p") simp_all
  qed
qed

lemma LogAppender_log_out:
  assumes "ls_appenders s p = Some a" and "ap_formatter a \<noteq> None"
  shows "\<exists>s'. LogAppender_log writable strftime level e p s = Inr s' \<and> ls_loggers s' = ls_loggers s \<and>
    ls_out s' = ls_out s @ appender_out writable strftime level e a \<and>
    same_appender writable strftime level e (ls_appenders s) (ls_appenders s')"
proof -
  obtain f where f: "ap_formatter a = Some f" using assms(2) by blast
  define a1 where "a1 = (case ap_kind a of StdoutLogAppender \<Rightarrow> a
    | FileLogAppender g \<Rightarrow> if level \<ge> ap_level a \<and> ev_time e \<ge> ap_last_time a + 3
        then (FileLogAppender_reopen writable a)\<lparr>ap_last_time := ev_time e\<rparr> else a)"
  have same: "ap_kind a1 = ap_kind a \<and> ap_level a1 = ap_level a \<and> ap_formatter a1 = ap_formatter a \<and>
      ap_has_formatter a1 = ap_has_formatter a \<and>
      appender_out writable strftime level e a1 = appender_out writable strftime level e a"
    by (auto simp: a1_def FileLogAppender_reopen_def appender_out_def Let_def split: appender_kind.splits)
  have "LogAppender_log writable strftime level e p s =
      Inr (s\<lparr>ls_appenders := (ls_appenders s)(p \<mapsto> a1), ls_out := ls_out s @ appender_out writable strftime level e a\<rparr>)"
    using assms(1) f
    by (auto simp: LogAppender_log_def StdoutLogAppender_log_def FileLogAppender_log_def appender_out_def a1_def
        FileLogAppender_reopen_def Let_def not_le split: appender_kind.splits)
  then show ?thesis using same assms(1) by (auto simp: same_appender_def option.rel_refl)
qed

text \<open>An appender that is attached to a logger has a formatter to write with.\<close>

definition ready :: "(nat \<rightharpoonup> log_appender) \<Rightarrow> nat \<Rightarrow> bool" where
  "ready h p \<longleftrightarrow> (case h p of None \<Rightarrow> False | Some a \<Rightarrow> ap_formatter a \<noteq> None)"

lemma same_appender_ready: "same_appender w t l e h h' \<Longrightarrow> ready h' p = ready h p"
proof -
  assume "same_appender w t l e h h'"
  from this [unfolded same_appender_def, rule_format, of p]
  show ?thesis by (cases "h p"; cases "h' p") (simp_all add: ready_def)
qed

lemma same_appender_out:
  "same_appender w t l e h h' \<Longrightarrow> h p = Some a \<Longrightarrow> appender_out w t l e (the (h' p)) = appender_out w t l e a"
proof -
  assume "same_appender w t l e h h'" and "h p = Some a"
  then show ?thesis using \<open>same_appender w t l e h h'\<close> [unfolded same_appender_def, rule_format, of p]
    by (cases "h' p") simp_all
qed

lemma log_all_out:
  assumes "\<forall>p \<in> set ps. ready (ls_appenders s) p"
  shows "\<exists>s'. log_all w t l e ps s = Inr s' \<and> ls_loggers s' = ls_loggers s \<and>
    ls_out s' = ls_out s @ concat (map (\<lambda>p. appender_out w t l e (the (ls_appenders s p))) ps) \<and>
    same_appender w t l e (ls_appenders s) (ls_appenders s')"
  using assms
proof (induction ps arbitrary: s)
  case (Cons p ps)
  obtain a where a: "ls_appenders s p = Some a" "ap_formatter a \<noteq> None"
    using Cons.prems by (auto simp: ready_def split: option.splits)
  obtain s1 where 1: "LogAppender_log w t l e p s = Inr s1" "ls_loggers s1 = ls_loggers s"
      "ls_out s1 = ls_out s @ appender_out w t l e a" "same_appender w t l e (ls_appenders s) (ls_appenders s1)"
    using LogAppender_log_out [OF a] by blast
  have "\<forall>q \<in> set ps. ready (ls_appenders s1) q"
    using Cons.prems same_appender_ready [OF 1(4)] by simp
  then obtain s2 where 2: "log_all w t l e ps s1 = Inr s2" "ls_loggers s2 = ls_loggers s1"
      "ls_out s2 = ls_out s1 @ concat (map (\<lambda>p. appender_out w t l e (the (ls_appenders s1 p))) ps)"
      "same_appender w t l e (ls_appenders s1) (ls_appenders s2)"
    using Cons.IH by blast
  have out: "map (\<lambda>p. appender_out w t l e (the (ls_appenders s1 p))) ps =
      map (\<lambda>p. appender_out w t l e (the (ls_appenders s p))) ps"
    using Cons.prems same_appender_out [OF 1(4)] by (auto simp: ready_def split: option.splits)
  show ?case using 1 2(1,2) 2(3) [unfolded out] a same_appender_trans [OF 1(4) 2(4)] by simp
qed simp

section \<open>Reachable states of the manager\<close>

definition logger_ok :: "log_sys \<Rightarrow> logger \<Rightarrow> bool" where
  "logger_ok s lg \<longleftrightarrow> lg_root lg \<in> {None, Some ''root''} \<and> lg_formatter lg \<noteq> None \<and>
     (\<forall>p \<in> set (lg_appenders lg). ready (ls_appenders s) p)"

definition sys_ok :: "log_sys \<Rightarrow> bool" where
  "sys_ok s \<longleftrightarrow> (\<exists>r. ls_loggers s ''root'' = Some r \<and> lg_root r = None) \<and>
     (\<forall>name lg. ls_loggers s name = Some lg \<longrightarrow> logger_ok s lg)"

definition heap_le :: "(nat \<rightharpoonup> log_appender) \<Rightarrow> (nat \<rightharpoonup> log_appender) \<Rightarrow> bool" where
  "heap_le h h' \<longleftrightarrow> (\<forall>p. ready h p \<longrightarrow> ready h' p)"

lemma heap_le_refl [simp]: "heap_le h h"
  by (simp add: heap_le_def)

lemma logger_ok_mono: "logger_ok s lg \<Longrightarrow> heap_le (ls_appenders s) (ls_appenders s') \<Longrightarrow> logger_ok s' lg"
  by (auto simp: logger_ok_def heap_le_def)

text \<open>A state stays well formed when appenders keep their formatters and one logger is replaced by a
  well-formed one with the same parent.\<close>

lemma sys_ok_update:
  assumes "sys_ok s" and "ls_loggers s name = Some lg" and "heap_le (ls_appenders s) (ls_appenders s')"
    and "ls_loggers s' = (ls_loggers s)(name \<mapsto> lg')" and "logger_ok s' lg'" and "lg_root lg' = lg_root lg"
  shows "sys_ok s'"
  using assms logger_ok_mono [OF _ assms(3)] by (auto simp: sys_ok_def)

lemma sys_ok_same:
  assumes "sys_ok s" and "heap_le (ls_appenders s) (ls_appenders s')" and "ls_loggers s' = ls_loggers s"
  shows "sys_ok s'"
  using assms logger_ok_mono [OF _ assms(2)] by (auto simp: sys_ok_def)

lemma heap_le_trans: "heap_le h h' \<Longrightarrow> heap_le h' h'' \<Longrightarrow> heap_le h h''"
  by (simp add: heap_le_def)

lemma heap_le_upd: "ap_formatter a \<noteq> None \<or> \<not> ready h p \<Longrightarrow> heap_le h (h(p \<mapsto> a))"
  by (auto simp: heap_le_def ready_def)

lemma same_appender_heap_le: "same_appender w t l e h h' \<Longrightarrow> heap_le h h'"
  by (simp add: heap_le_def same_appender_ready)

lemma inherit_heap_le: "heap_le h (fold (inherit_formatter (Some f)) ps h)"
proof (induction ps arbitrary: h)
  case (Cons p ps)
  have "heap_le h (inherit_formatter (Some f) p h)"
    by (auto simp: inherit_formatter_def intro!: heap_le_upd split: option.splits)
  then show ?case using heap_le_trans [OF _ Cons.IH] by simp
qed simp

lemma update_logger_ok:
  assumes "sys_ok s" and "\<And>lg. logger_ok s lg \<Longrightarrow> logger_ok s (f lg)" and "\<And>lg. lg_root (f lg) = lg_root lg"
  shows "sys_ok (update_logger name f s)"
proof (cases "ls_loggers s name")
  case (Some lg)
  then have "logger_ok s lg" using assms(1) by (auto simp: sys_ok_def)
  then have "logger_ok (update_logger name f s) (f lg)"
    using assms(2) Some by (auto simp: update_logger_def logger_ok_def)
  then show ?thesis using assms(3) Some by (auto simp: update_logger_def intro: sys_ok_update [OF assms(1) Some])
qed (simp add: update_logger_def assms(1))

lemma setLevel_ok: "sys_ok s \<Longrightarrow> sys_ok (Logger_setLevel l name s)"
  unfolding Logger_setLevel_def by (erule update_logger_ok) (auto simp: logger_ok_def)

lemma clearAppenders_ok: "sys_ok s \<Longrightarrow> sys_ok (Logger_clearAppenders name s)"
  unfolding Logger_clearAppenders_def by (erule update_logger_ok) (auto simp: logger_ok_def)

lemma delAppender_ok: "sys_ok s \<Longrightarrow> sys_ok (Logger_delAppender p name s)"
  unfolding Logger_delAppender_def
  by (erule update_logger_ok) (auto simp: logger_ok_def dest: notin_set_remove1)

lemma getLogger_ok: "sys_ok s \<Longrightarrow> sys_ok (LoggerManager_getLogger name s)"
  by (auto simp: LoggerManager_getLogger_def sys_ok_def logger_ok_def Logger_new_def split: option.splits)

lemma setFormatter_ok:
  assumes "sys_ok s"
  shows "sys_ok (Logger_setFormatter (Some f) name s)"
proof (cases "ls_loggers s name")
  case (Some lg)
  let ?s = "Logger_setFormatter (Some f) name s"
  have le: "heap_le (ls_appenders s) (ls_appenders ?s)"
    using Some by (simp add: Logger_setFormatter_def inherit_heap_le)
  have "logger_ok s lg" using assms Some by (auto simp: sys_ok_def)
  then have "logger_ok ?s (lg\<lparr>lg_formatter := Some f\<rparr>)"
    using le by (auto simp: logger_ok_def heap_le_def)
  then show ?thesis using le Some
    by (auto simp: Logger_setFormatter_def intro: sys_ok_update [OF assms Some])
qed (simp add: Logger_setFormatter_def assms)

lemma setFormatter_string_ok: "sys_ok s \<Longrightarrow> sys_ok (Logger_setFormatter_string v name s)"
  by (simp add: Logger_setFormatter_string_def Let_def setFormatter_ok)

lemma addAppender_ok:
  assumes "sys_ok s"
  shows "sys_ok (Logger_addAppender p name s)"
proof (cases "ls_loggers s name = None \<or> ls_appenders s p = None")
  case False
  then obtain lg a where lg: "ls_loggers s name = Some lg" and a: "ls_appenders s p = Some a" by auto
  let ?s = "Logger_addAppender p name s"
  have ok: "logger_ok s lg" using assms lg by (auto simp: sys_ok_def)
  then have le: "heap_le (ls_appenders s) (ls_appenders ?s)" and r: "ready (ls_appenders ?s) p"
    using lg a by (auto simp: Logger_addAppender_def logger_ok_def ready_def intro!: heap_le_upd)
  have "logger_ok ?s (lg\<lparr>lg_appenders := lg_appenders lg @ [p]\<rparr>)"
    using ok le r by (auto simp: logger_ok_def heap_le_def)
  then show ?thesis using le lg a
    by (auto simp: Logger_addAppender_def intro: sys_ok_update [OF assms lg])
qed (auto simp: Logger_addAppender_def assms split: option.splits)

text \<open>Events that the program can put the loggers through: its own calls, a new appender, and a change of the
  configuration.\<close>

inductive log_step :: "(string \<Rightarrow> bool) \<Rightarrow> (string \<Rightarrow> u64 \<Rightarrow> string) \<Rightarrow> log_sys \<Rightarrow> log_sys \<Rightarrow> bool"
  for writable strftime where
  get: "log_step writable strftime s (LoggerManager_getLogger name s)"
| level: "log_step writable strftime s (Logger_setLevel l name s)"
| formatter: "log_step writable strftime s (Logger_setFormatter (Some f) name s)"
| formatter_string: "log_step writable strftime s (Logger_setFormatter_string v name s)"
| new: "ls_appenders s p = None \<Longrightarrow> ap_formatter a = None \<Longrightarrow>
    log_step writable strftime s (s\<lparr>ls_appenders := (ls_appenders s)(p \<mapsto> a)\<rparr>)"
| set: "ls_appenders s p = Some a \<Longrightarrow>
    log_step writable strftime s
      (s\<lparr>ls_appenders := (ls_appenders s)(p \<mapsto> LogAppender_setFormatter (Some f) a)\<rparr>)"
| add: "log_step writable strftime s (Logger_addAppender p name s)"
| del: "log_step writable strftime s (Logger_delAppender p name s)"
| clear: "log_step writable strftime s (Logger_clearAppenders name s)"
| conf: "\<forall>p \<in> dom (ls_appenders s). p < fresh \<Longrightarrow>
    on_logger_conf_changed writable daemon old_value new_value (fresh, s) = Inr (fresh', s') \<Longrightarrow>
    log_step writable strftime s s'"
| log: "Logger_log 2 writable strftime l e name s = Inr s' \<Longrightarrow> log_step writable strftime s s'"

inductive log_reach :: "(string \<Rightarrow> bool) \<Rightarrow> (string \<Rightarrow> u64 \<Rightarrow> string) \<Rightarrow> log_sys \<Rightarrow> bool"
  for writable strftime where
  start: "log_reach writable strftime (LoggerManager_new p)"
| step: "log_reach writable strftime s \<Longrightarrow> log_step writable strftime s s' \<Longrightarrow> log_reach writable strftime s'"

lemma LoggerManager_new_ok: "sys_ok (LoggerManager_new p)"
  by (auto simp: LoggerManager_new_def Logger_addAppender_def Logger_new_def StdoutLogAppender_new_def sys_ok_def
      logger_ok_def ready_def)

lemma apply_appender_ok:
  assumes "apply_appender w d name x (fresh, s) = Inr (fresh', s')" and "sys_ok s"
    and "\<forall>p \<in> dom (ls_appenders s). p < fresh"
  shows "sys_ok s' \<and> (\<forall>p \<in> dom (ls_appenders s'). p < fresh')"
proof (cases "make_appender w d x")
  case (Inr ap)
  show ?thesis
  proof (cases ap)
    case (Some a)
    define a2 where "a2 = (if ad_formatter x \<noteq> [] \<and> \<not> lf_error (LogFormatter_new (ad_formatter x))
      then LogAppender_setFormatter (Some (LogFormatter_new (ad_formatter x))) (a\<lparr>ap_level := ad_level x\<rparr>)
      else a\<lparr>ap_level := ad_level x\<rparr>)"
    let ?s = "s\<lparr>ls_appenders := (ls_appenders s)(fresh \<mapsto> a2)\<rparr>"
    have s': "fresh' = Suc fresh" "s' = Logger_addAppender fresh name ?s"
      using assms(1) Inr Some by (auto simp: apply_appender_def a2_def Let_def)
    have "\<not> ready (ls_appenders s) fresh" using assms(3) by (auto simp: ready_def split: option.splits)
    then have "sys_ok ?s" by (auto intro!: sys_ok_same [OF assms(2)] heap_le_upd)
    moreover have "dom (ls_appenders s') \<subseteq> insert fresh (dom (ls_appenders s))"
      unfolding s' by (auto simp: Logger_addAppender_def split: option.splits if_splits)
    ultimately show ?thesis using assms(3) s' addAppender_ok by (auto intro: less_SucI)
  qed (use assms Inr in \<open>auto simp: apply_appender_def\<close>)
qed (use assms in \<open>auto simp: apply_appender_def\<close>)

lemma apply_appenders_ok:
  "apply_appenders w d name xs (fresh, s) = Inr (fresh', s') \<Longrightarrow> sys_ok s \<Longrightarrow>
   \<forall>p \<in> dom (ls_appenders s). p < fresh \<Longrightarrow> sys_ok s' \<and> (\<forall>p \<in> dom (ls_appenders s'). p < fresh')"
proof (induction xs arbitrary: fresh s)
  case (Cons x xs)
  then obtain f1 s1 where 1: "apply_appender w d name x (fresh, s) = Inr (f1, s1)"
      "apply_appenders w d name xs (f1, s1) = Inr (fresh', s')"
    by (cases "apply_appender w d name x (fresh, s)") auto
  then show ?case using apply_appender_ok [OF 1(1) Cons.prems(2,3)] Cons.IH by blast
qed simp

lemma inherit_dom: "dom (fold (inherit_formatter v) ps h) = dom h"
proof (induction ps arbitrary: h)
  case (Cons p ps)
  have "dom (inherit_formatter v p h) = dom h"
    by (auto simp: inherit_formatter_def split: option.splits if_splits)
  then show ?case using Cons by simp
qed simp

lemma heap_update_logger [simp]: "ls_appenders (update_logger name f s) = ls_appenders s"
  by (simp add: update_logger_def split: option.splits)

lemma heap_getLogger [simp]: "ls_appenders (LoggerManager_getLogger name s) = ls_appenders s"
  by (simp add: LoggerManager_getLogger_def split: option.splits)

lemma dom_setFormatter_string [simp]:
  "dom (ls_appenders (Logger_setFormatter_string v name s)) = dom (ls_appenders s)"
  by (simp add: Logger_setFormatter_string_def Logger_setFormatter_def Let_def inherit_dom split: option.splits)

text \<open>The logger of a definition before its appenders are made.\<close>

definition prepare_define :: "log_define \<Rightarrow> log_sys \<Rightarrow> log_sys" where
  "prepare_define i s =
     (let s1 = Logger_setLevel (ld_level i) (ld_name i) (LoggerManager_getLogger (ld_name i) s);
          s2 = (if ld_formatter i \<noteq> [] then Logger_setFormatter_string (ld_formatter i) (ld_name i) s1 else s1)
      in Logger_clearAppenders (ld_name i) s2)"

lemma apply_define_prepare:
  "apply_define w d i (fresh, s) = apply_appenders w d (ld_name i) (ld_appenders i) (fresh, prepare_define i s)"
  by (simp add: apply_define_def prepare_define_def Let_def)

lemma prepare_ok: "sys_ok s \<Longrightarrow> sys_ok (prepare_define i s)"
  by (simp add: prepare_define_def Let_def clearAppenders_ok setFormatter_string_ok setLevel_ok getLogger_ok)

lemma prepare_dom: "dom (ls_appenders (prepare_define i s)) = dom (ls_appenders s)"
  by (simp add: prepare_define_def Let_def Logger_clearAppenders_def Logger_setLevel_def)

lemma apply_new_ok:
  "apply_new w d old is (fresh, s) = Inr (fresh', s') \<Longrightarrow> sys_ok s \<Longrightarrow>
   \<forall>p \<in> dom (ls_appenders s). p < fresh \<Longrightarrow> sys_ok s' \<and> (\<forall>p \<in> dom (ls_appenders s'). p < fresh')"
proof (induction "is" arbitrary: fresh s)
  case (Cons i "is")
  show ?case
  proof (cases "define_find i old = Some i")
    case False
    then obtain f1 s1 where 1: "apply_define w d i (fresh, s) = Inr (f1, s1)"
        "apply_new w d old is (f1, s1) = Inr (fresh', s')"
      using Cons.prems(1) by (cases "apply_define w d i (fresh, s)") auto
    then show ?thesis
      using apply_appenders_ok [OF 1(1) [unfolded apply_define_prepare]] Cons.prems(2,3) Cons.IH
      by (simp add: prepare_ok prepare_dom)
  qed (use Cons in auto)
qed simp

lemma remove_old_ok: "sys_ok s \<Longrightarrow> sys_ok (remove_old new old s)"
  unfolding remove_old_def
  by (induction old arbitrary: s) (simp_all add: remove_define_def clearAppenders_ok setLevel_ok getLogger_ok)

lemma conf_changed_ok:
  "on_logger_conf_changed w d old new (fresh, s) = Inr (fresh', s') \<Longrightarrow> sys_ok s \<Longrightarrow>
   \<forall>p \<in> dom (ls_appenders s). p < fresh \<Longrightarrow> sys_ok s'"
  unfolding on_logger_conf_changed_def
  by (cases "apply_new w d old new (fresh, s)") (auto dest: apply_new_ok intro: remove_old_ok)

text \<open>What \<open>Logger::log\<close> is to write: the outputs of the logger's appenders, or of the root's when it has none.\<close>

definition logged :: "(string \<Rightarrow> bool) \<Rightarrow> (string \<Rightarrow> u64 \<Rightarrow> string) \<Rightarrow> log_level \<Rightarrow> log_event \<Rightarrow> log_sys \<Rightarrow> logger \<Rightarrow>
    (appender_kind \<times> string) list" where
  "logged w t l e s lg =
     (if l < lg_level lg then []
      else concat (map (\<lambda>p. appender_out w t l e (the (ls_appenders s p))) (lg_appenders lg)))"

definition log_target :: "log_level \<Rightarrow> log_sys \<Rightarrow> logger \<Rightarrow> logger" where
  "log_target l s lg =
     (if lg_level lg \<le> l \<and> lg_appenders lg = [] \<and> lg_root lg \<noteq> None then the (ls_loggers s ''root'') else lg)"

lemma Logger_log_own:
  assumes "sys_ok s" and "ls_loggers s name = Some lg" and "lg_appenders lg \<noteq> [] \<or> lg_root lg = None \<or> l < lg_level lg"
  shows "\<exists>s'. Logger_log (Suc n) w t l e name s = Inr s' \<and> ls_loggers s' = ls_loggers s \<and>
    ls_out s' = ls_out s @ logged w t l e s lg \<and> heap_le (ls_appenders s) (ls_appenders s')"
proof (cases "l < lg_level lg \<or> lg_appenders lg = []")
  case True
  then show ?thesis using assms(2,3) by (auto simp: logged_def not_le)
next
  case False
  have "\<forall>p \<in> set (lg_appenders lg). ready (ls_appenders s) p"
    using assms(1,2) by (auto simp: sys_ok_def logger_ok_def)
  from log_all_out [OF this, of w t l e] show ?thesis
    using assms(2) False by (auto simp: logged_def not_le intro: same_appender_heap_le)
qed

lemma Logger_log_ok:
  assumes "sys_ok s" and "ls_loggers s name = Some lg"
  shows "\<exists>s'. Logger_log (Suc (Suc n)) w t l e name s = Inr s' \<and> ls_loggers s' = ls_loggers s \<and>
    ls_out s' = ls_out s @ logged w t l e s (log_target l s lg) \<and> heap_le (ls_appenders s) (ls_appenders s')"
proof (cases "lg_appenders lg \<noteq> [] \<or> lg_root lg = None \<or> l < lg_level lg")
  case True
  then have "log_target l s lg = lg" by (auto simp: log_target_def)
  then show ?thesis using Logger_log_own [OF assms True, of "Suc n"] by simp
next
  case False
  obtain r where r: "ls_loggers s ''root'' = Some r" "lg_root r = None" using assms(1) by (auto simp: sys_ok_def)
  have "logger_ok s lg" using assms by (auto simp: sys_ok_def)
  then have "lg_root lg = Some ''root''" using False by (auto simp: logger_ok_def)
  then have "log_target l s lg = r" "Logger_log (Suc (Suc n)) w t l e name s = Logger_log (Suc n) w t l e ''root'' s"
    using False r assms(2) by (auto simp: log_target_def not_less)
  then show ?thesis using Logger_log_own [OF assms(1) r(1), of l n w t e] r(2) by simp
qed

lemmas Logger_log_2 = Logger_log_ok [where n = 0, folded numeral_2_eq_2]

lemma log_step_ok: "log_step w t s s' \<Longrightarrow> sys_ok s \<Longrightarrow> sys_ok s'"
proof (induction rule: log_step.induct)
  case (new s p a)
  then show ?case by (auto intro!: sys_ok_same [OF new(3)] heap_le_upd simp: ready_def)
next
  case (set s p a f)
  then show ?case by (auto intro!: sys_ok_same [OF set(2)] heap_le_upd simp: LogAppender_setFormatter_def)
next
  case (log l e name s s')
  obtain lg where lg: "ls_loggers s name = Some lg"
    using log(1) by (cases "ls_loggers s name") (simp_all add: numeral_2_eq_2)
  obtain s1 where "Logger_log 2 w t l e name s = Inr s1" "ls_loggers s1 = ls_loggers s"
      "heap_le (ls_appenders s) (ls_appenders s1)"
    using Logger_log_2 [OF log(2) lg] by blast
  then show ?case using log(1) by (auto intro!: sys_ok_same [OF log(2)] simp del: Logger_log.simps)
qed (auto intro: getLogger_ok setLevel_ok setFormatter_ok setFormatter_string_ok addAppender_ok delAppender_ok
    clearAppenders_ok conf_changed_ok)

lemma log_reach_ok: "log_reach w t s \<Longrightarrow> sys_ok s"
  by (induction rule: log_reach.induct) (auto intro: LoggerManager_new_ok log_step_ok)



section \<open>A changed configuration\<close>

text \<open>What a definition asks of an appender: its kind, its level and its own formatter, if it has a valid one.\<close>

definition appender_conf :: "log_appender \<Rightarrow> appender_kind \<times> log_level \<times> log_formatter option" where
  "appender_conf a = (ap_kind a, ap_level a, if ap_has_formatter a then ap_formatter a else None)"

definition define_conf :: "log_appender_define \<Rightarrow> appender_kind \<times> log_level \<times> log_formatter option" where
  "define_conf d = (if ad_type d = 1 then FileLogAppender (ad_file d) else StdoutLogAppender, ad_level d,
     let fmt = LogFormatter_new (ad_formatter d) in if ad_formatter d \<noteq> [] \<and> \<not> lf_error fmt then Some fmt else None)"

text \<open>A daemon has no appenders to the console.\<close>

definition wanted :: "bool \<Rightarrow> log_appender_define \<Rightarrow> bool" where
  "wanted daemon d \<longleftrightarrow> ad_type d = 1 \<or> \<not> daemon"

definition confs :: "(nat \<rightharpoonup> log_appender) \<Rightarrow> nat list \<Rightarrow> (appender_kind \<times> log_level \<times> log_formatter option) option list" where
  "confs h ps = map (\<lambda>p. map_option appender_conf (h p)) ps"

definition conf_le :: "(nat \<rightharpoonup> log_appender) \<Rightarrow> (nat \<rightharpoonup> log_appender) \<Rightarrow> bool" where
  "conf_le h h' \<longleftrightarrow> (\<forall>p \<in> dom h. map_option appender_conf (h' p) = map_option appender_conf (h p))"

definition configured :: "bool \<Rightarrow> log_sys \<Rightarrow> log_define \<Rightarrow> bool" where
  "configured daemon s i \<longleftrightarrow> (\<exists>lg. ls_loggers s (ld_name i) = Some lg \<and> lg_level lg = ld_level i \<and>
     confs (ls_appenders s) (lg_appenders lg) = map (\<lambda>d. Some (define_conf d)) (filter (wanted daemon) (ld_appenders i)))"

lemma conf_le_refl [simp]: "conf_le h h"
  by (simp add: conf_le_def)

lemma conf_le_trans:
  assumes "conf_le h h'" and "conf_le h' h''"
  shows "conf_le h h''"
  unfolding conf_le_def
proof
  fix p assume p: "p \<in> dom h"
  then have 1: "map_option appender_conf (h' p) = map_option appender_conf (h p)"
    using assms(1) by (simp add: conf_le_def)
  then have "p \<in> dom h'" using p by (auto simp: dom_def)
  then show "map_option appender_conf (h'' p) = map_option appender_conf (h p)"
    using assms(2) 1 by (simp add: conf_le_def)
qed

lemma conf_le_upd: "h p = None \<or> map_option appender_conf (h p) = Some (appender_conf a) \<Longrightarrow> conf_le h (h(p \<mapsto> a))"
  by (auto simp: conf_le_def)

lemma confs_mono:
  assumes "conf_le h h'" and "confs h ps = map (\<lambda>d. Some (f d)) xs"
  shows "confs h' ps = map (\<lambda>d. Some (f d)) xs"
proof -
  have "map_option appender_conf (h' p) = map_option appender_conf (h p)" if "p \<in> set ps" for p
  proof -
    have "map_option appender_conf (h p) \<in> set (confs h ps)" using that by (simp add: confs_def)
    then have "p \<in> dom h" using assms(2) by auto
    then show ?thesis using assms(1) by (simp add: conf_le_def)
  qed
  then have "confs h' ps = confs h ps" by (simp add: confs_def)
  then show ?thesis using assms(2) by simp
qed

lemma configured_mono:
  "configured d s i \<Longrightarrow> conf_le (ls_appenders s) (ls_appenders s') \<Longrightarrow>
   ls_loggers s' (ld_name i) = ls_loggers s (ld_name i) \<Longrightarrow> configured d s' i"
  by (auto simp: configured_def intro: confs_mono)

lemma inherit_conf_le: "conf_le h (fold (inherit_formatter v) ps h)"
proof (induction ps arbitrary: h)
  case (Cons p ps)
  have "conf_le h (inherit_formatter v p h)"
    by (auto simp: inherit_formatter_def appender_conf_def intro!: conf_le_upd split: option.splits)
  then show ?case using conf_le_trans [OF _ Cons.IH] by simp
qed simp

text \<open>What the calls made for one definition do to the rest of the state: other loggers and the configuration of
  the appenders there are stay as they were, and addresses from \<open>fresh\<close> on are unused.\<close>

definition touches :: "string \<Rightarrow> nat \<Rightarrow> log_sys \<Rightarrow> nat \<Rightarrow> log_sys \<Rightarrow> logger \<Rightarrow> bool" where
  "touches name fresh s fresh' s' lg \<longleftrightarrow> ls_loggers s' = (ls_loggers s)(name \<mapsto> lg) \<and>
     conf_le (ls_appenders s) (ls_appenders s') \<and> (\<forall>p \<in> dom (ls_appenders s'). p < fresh')"

lemma touches_trans:
  "touches name f s f1 s1 lg1 \<Longrightarrow> touches name f1 s1 f2 s2 lg2 \<Longrightarrow> touches name f s f2 s2 lg2"
  by (auto simp: touches_def intro: conf_le_trans)

lemma apply_appender_exact:
  assumes "ad_type x \<in> {1, 2}" and "ls_loggers s name = Some lg" and "\<forall>p \<in> dom (ls_appenders s). p < fresh"
  shows "\<exists>fresh' s' lg' ps. apply_appender w d name x (fresh, s) = Inr (fresh', s') \<and>
    touches name fresh s fresh' s' lg' \<and> lg_level lg' = lg_level lg \<and> lg_appenders lg' = lg_appenders lg @ ps \<and>
    confs (ls_appenders s') ps = map (\<lambda>d. Some (define_conf d)) (filter (wanted d) [x])"
proof (cases "wanted d x")
  case False
  then have "apply_appender w d name x (fresh, s) = Inr (fresh, s)"
    using assms(1) by (auto simp: wanted_def apply_appender_def make_appender_def)
  moreover have "touches name fresh s fresh s lg" using assms(2,3) by (auto simp: touches_def)
  ultimately show ?thesis using False by (force simp: confs_def)
next
  case True
  define a where "a = (if ad_type x = 1 then FileLogAppender_new w (ad_file x) else StdoutLogAppender_new)"
  define a2 where "a2 = (if ad_formatter x \<noteq> [] \<and> \<not> lf_error (LogFormatter_new (ad_formatter x))
      then LogAppender_setFormatter (Some (LogFormatter_new (ad_formatter x))) (a\<lparr>ap_level := ad_level x\<rparr>)
      else a\<lparr>ap_level := ad_level x\<rparr>)"
  have new: "ls_appenders s fresh = None" using assms(3) by (cases "ls_appenders s fresh") auto
  have "apply_appender w d name x (fresh, s) =
      Inr (Suc fresh, Logger_addAppender fresh name (s\<lparr>ls_appenders := (ls_appenders s)(fresh \<mapsto> a2)\<rparr>))"
    using assms(1) True by (auto simp: wanted_def apply_appender_def make_appender_def a2_def a_def Let_def)
  also have "\<dots> = Inr (Suc fresh, s\<lparr>ls_loggers := (ls_loggers s)(name \<mapsto> lg\<lparr>lg_appenders := lg_appenders lg @ [fresh]\<rparr>),
       ls_appenders := (ls_appenders s)(fresh \<mapsto>
         if ap_formatter a2 = None then a2\<lparr>ap_formatter := lg_formatter lg\<rparr> else a2)\<rparr>)" (is "_ = Inr (_, ?s)")
    using assms(2) by (simp add: Logger_addAppender_def)
  finally have r: "apply_appender w d name x (fresh, s) = Inr (Suc fresh, ?s)" .
  have "touches name fresh s (Suc fresh) ?s (lg\<lparr>lg_appenders := lg_appenders lg @ [fresh]\<rparr>)"
    using new assms(3) by (auto simp: touches_def less_Suc_eq intro!: conf_le_upd)
  moreover have "confs (ls_appenders ?s) [fresh] = map (\<lambda>d. Some (define_conf d)) (filter (wanted d) [x])"
    using True by (auto simp: confs_def appender_conf_def define_conf_def a2_def a_def FileLogAppender_new_def
        FileLogAppender_reopen_def StdoutLogAppender_new_def LogAppender_setFormatter_def Let_def)
  ultimately show ?thesis using r by force
qed

lemma apply_appenders_exact:
  assumes "\<forall>x \<in> set xs. ad_type x \<in> {1, 2}" and "ls_loggers s name = Some lg" and "\<forall>p \<in> dom (ls_appenders s). p < fresh"
  shows "\<exists>fresh' s' lg' ps. apply_appenders w d name xs (fresh, s) = Inr (fresh', s') \<and>
    touches name fresh s fresh' s' lg' \<and> lg_level lg' = lg_level lg \<and> lg_appenders lg' = lg_appenders lg @ ps \<and>
    confs (ls_appenders s') ps = map (\<lambda>d. Some (define_conf d)) (filter (wanted d) xs)"
  using assms
proof (induction xs arbitrary: fresh s lg)
  case Nil
  then have "touches name fresh s fresh s lg" by (auto simp: touches_def)
  then show ?case by (force simp: confs_def)
next
  case (Cons x xs)
  obtain f1 s1 lg1 ps where 1: "apply_appender w d name x (fresh, s) = Inr (f1, s1)" "touches name fresh s f1 s1 lg1"
      "lg_level lg1 = lg_level lg" "lg_appenders lg1 = lg_appenders lg @ ps"
      "confs (ls_appenders s1) ps = map (\<lambda>d. Some (define_conf d)) (filter (wanted d) [x])"
    using apply_appender_exact [of x s name lg fresh w d] Cons.prems by auto
  have "ls_loggers s1 name = Some lg1" "\<forall>p \<in> dom (ls_appenders s1). p < f1" using 1(2) by (auto simp: touches_def)
  then obtain f2 s2 lg2 qs where 2: "apply_appenders w d name xs (f1, s1) = Inr (f2, s2)" "touches name f1 s1 f2 s2 lg2"
      "lg_level lg2 = lg_level lg1" "lg_appenders lg2 = lg_appenders lg1 @ qs"
      "confs (ls_appenders s2) qs = map (\<lambda>d. Some (define_conf d)) (filter (wanted d) xs)"
    using Cons.IH [of s1 lg1 f1] Cons.prems(1) by auto
  have "confs (ls_appenders s2) ps = map (\<lambda>d. Some (define_conf d)) (filter (wanted d) [x])"
    by (rule confs_mono [OF _ 1(5)]) (use 2(2) in \<open>simp add: touches_def\<close>)
  then have "confs (ls_appenders s2) (ps @ qs) = map (\<lambda>d. Some (define_conf d)) (filter (wanted d) (x # xs))"
    using 2(5) by (simp add: confs_def)
  then show ?case using 1 2 touches_trans [OF 1(2) 2(2)] by force
qed

lemma update_logger_at: "ls_loggers s name = Some lg \<Longrightarrow> update_logger name f s = s\<lparr>ls_loggers := (ls_loggers s)(name \<mapsto> f lg)\<rparr>"
  by (simp add: update_logger_def)

lemma getLogger_at: "\<exists>lg. ls_loggers (LoggerManager_getLogger name s) = (ls_loggers s)(name \<mapsto> lg)"
proof (cases "ls_loggers s name")
  case (Some lg)
  then show ?thesis by (auto simp: LoggerManager_getLogger_def map_upd_triv intro!: exI [of _ lg])
qed (auto simp: LoggerManager_getLogger_def)

lemma setFormatter_string_at:
  "ls_loggers s name = Some lg \<Longrightarrow>
   (\<exists>f. ls_loggers (Logger_setFormatter_string v name s) = (ls_loggers s)(name \<mapsto> lg\<lparr>lg_formatter := f\<rparr>)) \<and>
   conf_le (ls_appenders s) (ls_appenders (Logger_setFormatter_string v name s))"
  by (auto simp: Logger_setFormatter_string_def Logger_setFormatter_def Let_def inherit_conf_le map_upd_triv
      intro!: exI [of _ "if lf_error (LogFormatter_new v) then lg_formatter lg else Some (LogFormatter_new v)"])

lemma prepare_exact:
  assumes "\<forall>p \<in> dom (ls_appenders s). p < fresh"
  shows "\<exists>lg. touches (ld_name i) fresh s fresh (prepare_define i s) lg \<and> lg_level lg = ld_level i \<and> lg_appenders lg = []"
proof -
  let ?n = "ld_name i" and ?g = "LoggerManager_getLogger (ld_name i) s"
  obtain lg where lg: "ls_loggers ?g = (ls_loggers s)(?n \<mapsto> lg)" using getLogger_at by blast
  let ?s1 = "Logger_setLevel (ld_level i) ?n ?g"
  have 1: "ls_loggers ?s1 = (ls_loggers s)(?n \<mapsto> lg\<lparr>lg_level := ld_level i\<rparr>)" "ls_appenders ?s1 = ls_appenders s"
    using lg by (simp_all add: Logger_setLevel_def update_logger_def)
  let ?s2 = "if ld_formatter i \<noteq> [] then Logger_setFormatter_string (ld_formatter i) ?n ?s1 else ?s1"
  obtain lg2 where 2: "ls_loggers ?s2 = (ls_loggers s)(?n \<mapsto> lg2)" "lg_level lg2 = ld_level i"
      "conf_le (ls_appenders s) (ls_appenders ?s2)"
  proof (cases "ld_formatter i = []")
    case False
    have "ls_loggers ?s1 ?n = Some (lg\<lparr>lg_level := ld_level i\<rparr>)" using 1 by simp
    from setFormatter_string_at [OF this, of "ld_formatter i"] False 1 show thesis by (auto intro!: that)
  qed (use 1 in \<open>auto intro!: that\<close>)
  have p: "prepare_define i s = Logger_clearAppenders ?n ?s2" by (simp add: prepare_define_def Let_def)
  have "touches ?n fresh s fresh (prepare_define i s) (lg2\<lparr>lg_appenders := []\<rparr>)"
    using 2(1,3) assms prepare_dom [of i s] unfolding p touches_def
    by (simp add: Logger_clearAppenders_def update_logger_def)
  then show ?thesis using 2(2) by force
qed

lemma apply_define_exact:
  assumes "\<forall>x \<in> set (ld_appenders i). ad_type x \<in> {1, 2}" and "\<forall>p \<in> dom (ls_appenders s). p < fresh"
  shows "\<exists>fresh' s' lg. apply_define w d i (fresh, s) = Inr (fresh', s') \<and> touches (ld_name i) fresh s fresh' s' lg \<and>
    configured d s' i"
proof -
  obtain lg where 1: "touches (ld_name i) fresh s fresh (prepare_define i s) lg" "lg_level lg = ld_level i"
      "lg_appenders lg = []"
    using prepare_exact [OF assms(2)] by blast
  have "ls_loggers (prepare_define i s) (ld_name i) = Some lg" "\<forall>p \<in> dom (ls_appenders (prepare_define i s)). p < fresh"
    using 1(1) by (auto simp: touches_def)
  from apply_appenders_exact [OF assms(1) this, of w d]
  obtain f2 s2 lg2 qs where 2: "apply_define w d i (fresh, s) = Inr (f2, s2)"
      "touches (ld_name i) fresh (prepare_define i s) f2 s2 lg2" "lg_level lg2 = lg_level lg" "lg_appenders lg2 = qs"
      "confs (ls_appenders s2) qs = map (\<lambda>d. Some (define_conf d)) (filter (wanted d) (ld_appenders i))"
    unfolding apply_define_prepare 1(3) by auto
  have "configured d s2 i" using 2 1(2) by (auto simp: configured_def touches_def)
  then show ?thesis using 2(1) touches_trans [OF 1(1) 2(2)] by blast
qed

lemma apply_new_exact:
  assumes "distinct (map ld_name is)" and "\<forall>i \<in> set is. \<forall>x \<in> set (ld_appenders i). ad_type x \<in> {1, 2}"
    and "\<forall>p \<in> dom (ls_appenders s). p < fresh"
  shows "\<exists>fresh' s'. apply_new w d old is (fresh, s) = Inr (fresh', s') \<and>
    (\<forall>i \<in> set is. define_find i old \<noteq> Some i \<longrightarrow> configured d s' i) \<and>
    (\<forall>n. n \<notin> ld_name ` {i \<in> set is. define_find i old \<noteq> Some i} \<longrightarrow> ls_loggers s' n = ls_loggers s n) \<and>
    conf_le (ls_appenders s) (ls_appenders s')"
  using assms
proof (induction "is" arbitrary: fresh s)
  case (Cons i "is")
  have rest: "distinct (map ld_name is)" "\<forall>i \<in> set is. \<forall>x \<in> set (ld_appenders i). ad_type x \<in> {1, 2}"
    and new: "ld_name i \<notin> ld_name ` set is" using Cons.prems by auto
  show ?case
  proof (cases "define_find i old = Some i")
    case True
    then have eq: "{j \<in> set (i # is). define_find j old \<noteq> Some j} = {j \<in> set is. define_find j old \<noteq> Some j}" by auto
    show ?thesis unfolding eq using True Cons.IH [OF rest Cons.prems(3)] by auto
  next
    case False
    obtain f1 s1 lg where 1: "apply_define w d i (fresh, s) = Inr (f1, s1)" "touches (ld_name i) fresh s f1 s1 lg"
        "configured d s1 i"
      using apply_define_exact [of i s fresh w d] Cons.prems(2,3) by auto
    have "\<forall>p \<in> dom (ls_appenders s1). p < f1" using 1(2) by (simp add: touches_def)
    from Cons.IH [OF rest this] obtain f2 s2 where 2: "apply_new w d old is (f1, s1) = Inr (f2, s2)"
        "\<forall>i \<in> set is. define_find i old \<noteq> Some i \<longrightarrow> configured d s2 i"
        "\<forall>n. n \<notin> ld_name ` {i \<in> set is. define_find i old \<noteq> Some i} \<longrightarrow> ls_loggers s2 n = ls_loggers s1 n"
        "conf_le (ls_appenders s1) (ls_appenders s2)"
      by blast
    have "configured d s2 i" using new 2(3) by (intro configured_mono [OF 1(3) 2(4)]) auto
    moreover have "ls_loggers s2 n = ls_loggers s n"
      if "n \<notin> ld_name ` {j \<in> set (i # is). define_find j old \<noteq> Some j}" for n
    proof -
      have "n \<noteq> ld_name i" "n \<notin> ld_name ` {j \<in> set is. define_find j old \<noteq> Some j}" using that False by auto
      then show ?thesis using 2(3) 1(2) by (simp add: touches_def)
    qed
    moreover have "conf_le (ls_appenders s) (ls_appenders s2)"
      using 1(2) conf_le_trans [OF _ 2(4)] by (simp add: touches_def)
    ultimately show ?thesis using 1(1) 2(1,2) False by auto
  qed
qed simp

lemma inj_byte_of: "inj byte_of"
  by (rule inj_on_inverseI [of _ char_of_byte]) simp

interpretation defs: weak_ordering LogDefine_less
  by unfold_locales
    (auto simp: LogDefine_less_def byte_order.lt_irrefl intro: byte_order.lt_trans dest: byte_order.incomp_trans)

lemma define_equiv: "\<not> LogDefine_less i j \<and> \<not> LogDefine_less j i \<longleftrightarrow> ld_name i = ld_name j"
  using byte_order.lt_total [of "map byte_of (ld_name i)" "map byte_of (ld_name j)"]
  by (auto simp: LogDefine_less_def byte_order.lt_irrefl inj_map_eq_map [OF inj_byte_of])

lemma define_find_same: "sorted_wrt LogDefine_less xs \<Longrightarrow> j \<in> set xs \<Longrightarrow> ld_name i = ld_name j \<Longrightarrow> define_find i xs = Some j"
  using defs.find_equiv [of xs j i] define_equiv [of i j] by (auto simp: define_find_def Let_def)

lemma define_find_SomeD: "define_find i xs = Some j \<Longrightarrow> j \<in> set xs \<and> ld_name i = ld_name j"
  using defs.find_hit [of i xs] define_equiv [of i j] by (auto simp: define_find_def Let_def split: if_splits)

lemma define_find_None: "sorted_wrt LogDefine_less xs \<Longrightarrow> define_find i xs = None \<longleftrightarrow> ld_name i \<notin> ld_name ` set xs"
proof (cases "define_find i xs")
  case None
  then show ?thesis if "sorted_wrt LogDefine_less xs" using that define_find_same [OF that] by auto
next
  case (Some j)
  then show ?thesis using define_find_SomeD by auto
qed

lemma define_find_self: "sorted_wrt LogDefine_less xs \<Longrightarrow> define_find i xs = Some i \<longleftrightarrow> i \<in> set xs"
  using define_find_same define_find_SomeD by blast

lemma sorted_names_distinct: "sorted_wrt LogDefine_less xs \<Longrightarrow> distinct (map ld_name xs)"
proof (induction xs)
  case (Cons i xs)
  have "ld_name i \<notin> ld_name ` set xs"
  proof
    assume "ld_name i \<in> ld_name ` set xs"
    then obtain j where "j \<in> set xs" "ld_name i = ld_name j" by auto
    then show False using Cons.prems define_equiv [of i j] by auto
  qed
  then show ?case using Cons by simp
qed simp

lemma remove_define_at:
  "\<exists>lg. ls_loggers (remove_define i s) = (ls_loggers s)(ld_name i \<mapsto> lg) \<and> lg_level lg = UNKNOW \<and> lg_appenders lg = []"
proof -
  obtain lg where "ls_loggers (LoggerManager_getLogger (ld_name i) s) = (ls_loggers s)(ld_name i \<mapsto> lg)"
    using getLogger_at by blast
  then show ?thesis
    by (auto simp: remove_define_def Logger_clearAppenders_def Logger_setLevel_def update_logger_def)
qed

definition retired :: "log_sys \<Rightarrow> string \<Rightarrow> bool" where
  "retired s name \<longleftrightarrow> (\<exists>lg. ls_loggers s name = Some lg \<and> lg_level lg = UNKNOW \<and> lg_appenders lg = [])"

lemma remove_old_exact:
  "(\<forall>i \<in> set old. define_find i new = None \<longrightarrow> retired (remove_old new old s) (ld_name i)) \<and>
   (\<forall>n. n \<notin> ld_name ` {i \<in> set old. define_find i new = None} \<longrightarrow>
      ls_loggers (remove_old new old s) n = ls_loggers s n) \<and>
   ls_appenders (remove_old new old s) = ls_appenders s"
  unfolding remove_old_def
proof (induction old rule: rev_induct)
  case (snoc i old)
  let ?s = "fold (\<lambda>i s. if define_find i new = None then remove_define i s else s) old s"
  obtain lg where lg: "ls_loggers (remove_define i ?s) = (ls_loggers ?s)(ld_name i \<mapsto> lg)" "lg_level lg = UNKNOW"
      "lg_appenders lg = []" using remove_define_at by blast
  have h: "ls_appenders (remove_define i ?s) = ls_appenders ?s"
    by (simp add: remove_define_def Logger_clearAppenders_def Logger_setLevel_def)
  show ?case
  proof (cases "define_find i new = None")
    case True
    then show ?thesis using snoc lg h by (auto simp: retired_def)
  next
    case False
    then have eq: "{j \<in> set (old @ [i]). define_find j new = None} = {j \<in> set old. define_find j new = None}" by auto
    show ?thesis unfolding eq using False snoc by auto
  qed
qed simp

text \<open>A change from one set of definitions to another: the listener returns, every new or changed definition
  has its logger with the level it gives and exactly the appenders it lists, in its order, with their kinds,
  levels and valid formatters (but none to the console in a daemon); a definition that is gone leaves its
  logger open to every level and without appenders; every other logger is as it was, and so is the
  configuration of every appender there was.\<close>

lemma conf_changed_spec:
  assumes "sorted_wrt LogDefine_less old_value" and "sorted_wrt LogDefine_less new_value"
    and "\<forall>i \<in> set new_value. \<forall>d \<in> set (ld_appenders i). ad_type d \<in> {1, 2}"
    and "\<forall>p \<in> dom (ls_appenders s). p < fresh"
  shows "\<exists>fresh' s'. on_logger_conf_changed writable daemon old_value new_value (fresh, s) = Inr (fresh', s') \<and>
    (\<forall>i \<in> set new_value - set old_value. configured daemon s' i) \<and>
    (\<forall>n \<in> ld_name ` set old_value - ld_name ` set new_value. retired s' n) \<and>
    (\<forall>n. n \<notin> ld_name ` (set new_value - set old_value) \<union> (ld_name ` set old_value - ld_name ` set new_value) \<longrightarrow>
       ls_loggers s' n = ls_loggers s n) \<and>
    conf_le (ls_appenders s) (ls_appenders s')"
proof -
  have new: "{i \<in> set new_value. define_find i old_value \<noteq> Some i} = set new_value - set old_value"
    by (auto simp: define_find_self [OF assms(1)])
  have gone: "ld_name ` {i \<in> set old_value. define_find i new_value = None} = ld_name ` set old_value - ld_name ` set new_value"
    by (auto simp: define_find_None [OF assms(2)])
  obtain f1 s1 where 1: "apply_new writable daemon old_value new_value (fresh, s) = Inr (f1, s1)"
      "\<forall>i \<in> set new_value. define_find i old_value \<noteq> Some i \<longrightarrow> configured daemon s1 i"
      "\<forall>n. n \<notin> ld_name ` {i \<in> set new_value. define_find i old_value \<noteq> Some i} \<longrightarrow> ls_loggers s1 n = ls_loggers s n"
      "conf_le (ls_appenders s) (ls_appenders s1)"
    using apply_new_exact [OF sorted_names_distinct [OF assms(2)] assms(3,4)] by blast
  let ?s = "remove_old new_value old_value s1"
  note 2 = remove_old_exact [of old_value new_value s1]
  have "configured daemon ?s i" if "i \<in> set new_value - set old_value" for i
  proof (rule configured_mono)
    show "configured daemon s1 i" using that 1(2) new by blast
    show "conf_le (ls_appenders s1) (ls_appenders ?s)" using 2 by simp
    show "ls_loggers ?s (ld_name i) = ls_loggers s1 (ld_name i)" using 2 that unfolding gone by auto
  qed
  moreover have "retired ?s n" if "n \<in> ld_name ` set old_value - ld_name ` set new_value" for n
    using that 2 unfolding gone [symmetric] by auto
  moreover have "ls_loggers ?s n = ls_loggers s n"
    if "n \<notin> ld_name ` (set new_value - set old_value) \<union> (ld_name ` set old_value - ld_name ` set new_value)" for n
    using that 2 1(3) unfolding new gone by auto
  moreover have "conf_le (ls_appenders s) (ls_appenders ?s)" using 1(4) 2 by simp
  ultimately show ?thesis using 1(1) by (auto simp: on_logger_conf_changed_def)
qed

end
