(* ===== verification/FileSystem.thy ===== *)
theory FileSystem
  imports StringUtil
begin

unbundle bit_operations_syntax

text \<open>
  The helpers for files (\<open>FSUtil\<close> of \<open>sylar/util.h\<close>, \<open>sylar/util.cpp\<close>). Listing and removing work on a tree of
  files, in which the entries of a directory come in the order \<open>readdir\<close> gives them in; \<open>openable\<close> says which
  directories can be opened and \<open>removable\<close> where \<open>unlink\<close> and \<open>rmdir\<close> are permitted. Creating directories works
  on an arbitrary state of the file system with the calls as arguments, of which \<open>directories\<close> states what
  mkdir(2) and access(2) document. Paths have no NUL character.
\<close>

section \<open>Files\<close>

datatype fnode = Fn_reg | Fn_link | Fn_sock | Fn_blk | Fn_chr | Fn_fifo | Fn_dir "(string \<times> fnode) list"

text \<open>The type bits of \<open>st_mode\<close>.\<close>

definition S_IFDIR :: u32 where "S_IFDIR = 0x4000"

definition st_mode :: "fnode \<Rightarrow> u32" where
  "st_mode n =
     (case n of
        Fn_reg \<Rightarrow> 0x8000 | Fn_link \<Rightarrow> 0xA000 | Fn_sock \<Rightarrow> 0xC000 | Fn_blk \<Rightarrow> 0x6000
      | Fn_chr \<Rightarrow> 0x2000 | Fn_fifo \<Rightarrow> 0x1000 | Fn_dir es \<Rightarrow> S_IFDIR)"

definition is_dot :: "string \<Rightarrow> bool" where
  "is_dot name \<longleftrightarrow> name = ''.'' \<or> name = ''..''"

section \<open>Listing\<close>

definition name_matches :: "string \<Rightarrow> string \<Rightarrow> bool" where
  "name_matches subfix filename \<longleftrightarrow>
     subfix = [] \<or> \<not> length filename < length subfix \<and> drop (length filename - length subfix) filename = subfix"

fun ListAllFile :: "(string \<Rightarrow> bool) \<Rightarrow> string \<Rightarrow> string \<Rightarrow> fnode \<Rightarrow> string list \<Rightarrow> string list" and
  list_entries :: "(string \<Rightarrow> bool) \<Rightarrow> string \<Rightarrow> string \<Rightarrow> (string \<times> fnode) list \<Rightarrow> string list \<Rightarrow> string list" where
  "ListAllFile openable subfix path (Fn_dir es) files =
     (if openable path then list_entries openable subfix path es files else files)"
| "ListAllFile openable subfix path n files = files"
| "list_entries openable subfix path [] files = files"
| "list_entries openable subfix path ((name, Fn_dir es) # rest) files =
     list_entries openable subfix path rest
       (if is_dot name then files else ListAllFile openable subfix (path @ ''/'' @ name) (Fn_dir es) files)"
| "list_entries openable subfix path ((name, Fn_reg) # rest) files =
     list_entries openable subfix path rest
       (if name_matches subfix name then files @ [path @ ''/'' @ name] else files)"
| "list_entries openable subfix path ((name, n) # rest) files = list_entries openable subfix path rest files"

section \<open>Removing\<close>

text \<open>\<open>Unlink\<close>: \<open>there\<close> is whether \<open>lstat\<close> finds the file.\<close>

definition FSUtil_Unlink :: "bool \<Rightarrow> bool \<Rightarrow> bool \<Rightarrow> bool" where
  "FSUtil_Unlink there unlink_ok exist = (if \<not> exist \<and> \<not> there then True else unlink_ok)"

text \<open>\<open>Rm\<close> of a file that is there, and its loop over the entries of a directory: the answer and what is left. A
  directory is removed only when it is empty.\<close>

fun Rm :: "(string \<Rightarrow> bool) \<Rightarrow> (string \<Rightarrow> bool) \<Rightarrow> string \<Rightarrow> fnode \<Rightarrow> bool \<times> fnode option" and
  Rm_entries :: "(string \<Rightarrow> bool) \<Rightarrow> (string \<Rightarrow> bool) \<Rightarrow> string \<Rightarrow> bool \<Rightarrow> (string \<times> fnode) list \<Rightarrow>
    bool \<times> (string \<times> fnode) list" where
  "Rm openable removable path (Fn_dir es) =
     (if \<not> openable path then (False, Some (Fn_dir es))
      else
        let (ret, left) = Rm_entries openable removable path True es
        in if left = [] \<and> removable path then (ret, None) else (False, Some (Fn_dir left)))"
| "Rm openable removable path n =
     (if st_mode n AND S_IFDIR = 0
      then (if FSUtil_Unlink True (removable path) False then (True, None) else (False, Some n))
      else (False, Some n))"
| "Rm_entries openable removable path ret [] = (ret, [])"
| "Rm_entries openable removable path ret ((name, n) # es) =
     (if is_dot name then Rm_entries openable removable path ret es
      else
        let (ret1, n1) = Rm openable removable (path @ ''/'' @ name) n;
            (ret2, left) = Rm_entries openable removable path ret1 es
        in (ret2, (case n1 of None \<Rightarrow> [] | Some m \<Rightarrow> [(name, m)]) @ left))"

definition FSUtil_Rm :: "(string \<Rightarrow> bool) \<Rightarrow> (string \<Rightarrow> bool) \<Rightarrow> string \<Rightarrow> fnode option \<Rightarrow> bool \<times> fnode option" where
  "FSUtil_Rm openable removable path n =
     (case n of None \<Rightarrow> (True, None) | Some m \<Rightarrow> Rm openable removable path m)"

text \<open>\<open>Mv\<close>, \<open>Symlink\<close> and \<open>Realpath\<close>, from the answer of \<open>Rm\<close> for the target and those of the system calls.\<close>

definition FSUtil_Mv :: "bool \<Rightarrow> int \<Rightarrow> bool" where
  "FSUtil_Mv removed rename_rc = (if \<not> removed then False else rename_rc = 0)"

definition FSUtil_Symlink :: "bool \<Rightarrow> int \<Rightarrow> bool" where
  "FSUtil_Symlink removed symlink_rc = (if \<not> removed then False else symlink_rc \<noteq> 0)"

definition FSUtil_Realpath :: "bool \<Rightarrow> string option \<Rightarrow> string \<Rightarrow> bool \<times> string" where
  "FSUtil_Realpath there resolved rpath =
     (if \<not> there then (False, rpath)
      else case resolved of None \<Rightarrow> (False, rpath) | Some p \<Rightarrow> (True, p))"

section \<open>Names\<close>

fun rfind :: "char \<Rightarrow> string \<Rightarrow> nat option" where
  "rfind c [] = None"
| "rfind c (x # xs) = (case rfind c xs of Some i \<Rightarrow> Some (Suc i) | None \<Rightarrow> if x = c then Some 0 else None)"

definition FSUtil_Dirname :: "string \<Rightarrow> string" where
  "FSUtil_Dirname filename =
     (if filename = [] then ''.''
      else case rfind (CHR ''/'') filename of
             Some pos \<Rightarrow> if pos = 0 then ''/'' else take pos filename
           | None \<Rightarrow> ''.'')"

definition FSUtil_Basename :: "string \<Rightarrow> string" where
  "FSUtil_Basename filename =
     (if filename = [] then filename
      else case rfind (CHR ''/'') filename of None \<Rightarrow> filename | Some pos \<Rightarrow> drop (pos + 1) filename)"

section \<open>Creating directories\<close>

record 'f dir_calls =
  dr_lstat :: "string \<Rightarrow> 'f \<Rightarrow> bool"
  dr_access :: "string \<Rightarrow> 'f \<Rightarrow> bool"
  dr_mkdir :: "string \<Rightarrow> 'f \<Rightarrow> bool \<times> 'f"

definition mkdir_one :: "'f dir_calls \<Rightarrow> string \<Rightarrow> 'f \<Rightarrow> bool \<times> 'f" where
  "mkdir_one d dirname f = (if dr_access d dirname f then (True, f) else dr_mkdir d dirname f)"

text \<open>The loop puts an end mark at every slash but one at the start, from left to right.\<close>

definition slash_prefixes :: "string \<Rightarrow> string list" where
  "slash_prefixes path = map (\<lambda>i. take i path) (filter (\<lambda>i. path ! i = CHR ''/'') [1..<length path])"

fun mkdir_all :: "'f dir_calls \<Rightarrow> string list \<Rightarrow> 'f \<Rightarrow> bool \<times> 'f" where
  "mkdir_all d [] f = (True, f)"
| "mkdir_all d (p # ps) f = (let (b, f1) = mkdir_one d p f in if b then mkdir_all d ps f1 else (False, f1))"

text \<open>\<open>strchr(path + 1, '/')\<close> on an empty string starts past its end.\<close>

definition FSUtil_Mkdir :: "'f dir_calls \<Rightarrow> string \<Rightarrow> 'f \<Rightarrow> (bool \<times> 'f) result" where
  "FSUtil_Mkdir d dirname f =
     (if dr_lstat d dirname f then Inr (True, f)
      else if dirname = [] then Inl (Undefined ''path + 1'')
      else Inr (mkdir_all d (slash_prefixes dirname @ [dirname]) f))"

definition FSUtil_OpenForRead :: "(string \<Rightarrow> 'f \<Rightarrow> bool) \<Rightarrow> string \<Rightarrow> 'f \<Rightarrow> bool" where
  "FSUtil_OpenForRead can_open filename f = can_open filename f"

definition FSUtil_OpenForWrite :: "'f dir_calls \<Rightarrow> (string \<Rightarrow> 'f \<Rightarrow> bool) \<Rightarrow> string \<Rightarrow> 'f \<Rightarrow> (bool \<times> 'f) result" where
  "FSUtil_OpenForWrite d can_open filename f =
     (if can_open filename f then Inr (True, f)
      else rbind (FSUtil_Mkdir d (FSUtil_Dirname filename) f) (\<lambda>(b, f1). Inr (can_open filename f1, f1)))"

section \<open>Pid files\<close>

text \<open>\<open>atoi\<close>: \<open>strtol\<close>, which stops at the bounds of \<open>long\<close>, narrowed to \<open>int\<close>.\<close>

definition strtol :: "string \<Rightarrow> int" where
  "strtol s =
     (let t = dropWhile isspace s;
          neg = (t \<noteq> [] \<and> hd t = CHR ''-'');
          u = (if t \<noteq> [] \<and> (hd t = CHR ''-'' \<or> hd t = CHR ''+'') then tl t else t);
          v = int (value_of_digits (takeWhile is_digit u));
          w = (if neg then - v else v)
      in max (- (2 ^ 63)) (min (2 ^ 63 - 1) w))"

definition atoi :: "string \<Rightarrow> int" where
  "atoi s = sint (word_of_int (strtol s) :: u32)"

text \<open>\<open>line\<close> is the first line of the file, \<open>None\<close> when it cannot be read; \<open>kill\<close> is \<open>kill(pid, 0)\<close>.\<close>

definition FSUtil_IsRunningPidfile :: "bool \<Rightarrow> string option \<Rightarrow> (int \<Rightarrow> int) \<Rightarrow> bool" where
  "FSUtil_IsRunningPidfile there line kill =
     (if \<not> there then False
      else case line of
             None \<Rightarrow> False
           | Some l \<Rightarrow>
               if l = [] then False
               else let pid = atoi l in if pid \<le> 1 then False else if kill pid \<noteq> 0 then False else True)"

section \<open>Properties\<close>

text \<open>What has to be the case for a file to be removed with everything below it: sockets and block devices have
  the bit of \<open>S_IFDIR\<close> in their type and are taken for directories that cannot be opened.\<close>

fun deletable :: "(string \<Rightarrow> bool) \<Rightarrow> (string \<Rightarrow> bool) \<Rightarrow> string \<Rightarrow> fnode \<Rightarrow> bool" where
  "deletable openable removable path (Fn_dir es) \<longleftrightarrow> openable path \<and> removable path \<and>
     (\<forall>(name, n) \<in> set es. \<not> is_dot name \<longrightarrow> deletable openable removable (path @ ''/'' @ name) n)"
| "deletable openable removable path Fn_sock = False"
| "deletable openable removable path Fn_blk = False"
| "deletable openable removable path n = removable path"

lemma Rm_exact:
  "(fst (Rm openable removable path n) \<longleftrightarrow> deletable openable removable path n) \<and>
   (snd (Rm openable removable path n) = None \<longleftrightarrow> deletable openable removable path n)"
  "(snd (Rm_entries openable removable path ret es) = [] \<longleftrightarrow>
     (\<forall>(name, n) \<in> set es. \<not> is_dot name \<longrightarrow> deletable openable removable (path @ ''/'' @ name) n)) \<and>
   (snd (Rm_entries openable removable path ret es) = [] \<and> ret \<longrightarrow> fst (Rm_entries openable removable path ret es))"
proof (induction openable removable path n and openable removable path ret es rule: Rm_Rm_entries.induct)
  case (1 openable removable path es)
  then show ?case by (auto simp: case_prod_unfold Let_def)
next
  case (4 openable removable path ret name n es)
  show ?case
  proof (cases "is_dot name")
    case True
    then show ?thesis using 4(1) by (cases ret) auto
  next
    case False
    obtain r1 n1 where r: "Rm openable removable (path @ ''/'' @ name) n = (r1, n1)" by fastforce
    obtain r2 left where e: "Rm_entries openable removable path r1 es = (r2, left)" by fastforce
    have "Rm_entries openable removable path ret ((name, n) # es) =
        (r2, (case n1 of None \<Rightarrow> [] | Some m \<Rightarrow> [(name, m)]) @ left)"
      using False r e by simp
    then show ?thesis using 4(2) [OF False] 4(3) [OF False r [symmetric] refl] False r e by (auto split: option.splits)
  qed
qed (simp_all add: st_mode_def S_IFDIR_def FSUtil_Unlink_def)


lemma Rm_socket_fails: "Rm openable removable path Fn_sock = (False, Some Fn_sock)"
  by (simp add: st_mode_def S_IFDIR_def)

lemma Symlink_inverted: "FSUtil_Symlink True 0 = False \<and> FSUtil_Symlink True (-1) = True"
  by (simp add: FSUtil_Symlink_def)

text \<open>The regular files below a directory that can be reached through directories that can be opened.\<close>

inductive listed :: "(string \<Rightarrow> bool) \<Rightarrow> string \<Rightarrow> string \<Rightarrow> fnode \<Rightarrow> string \<Rightarrow> bool" for openable subfix where
  here: "openable path \<Longrightarrow> (name, Fn_reg) \<in> set es \<Longrightarrow> name_matches subfix name \<Longrightarrow>
    listed openable subfix path (Fn_dir es) (path @ ''/'' @ name)"
| below: "openable path \<Longrightarrow> (name, Fn_dir ds) \<in> set es \<Longrightarrow> \<not> is_dot name \<Longrightarrow>
    listed openable subfix (path @ ''/'' @ name) (Fn_dir ds) p \<Longrightarrow> listed openable subfix path (Fn_dir es) p"

inductive_simps listed_dir: "listed openable subfix path (Fn_dir es) p"

inductive_cases listed_other [elim!]:
  "listed openable subfix path Fn_reg p" "listed openable subfix path Fn_link p" "listed openable subfix path Fn_sock p"
  "listed openable subfix path Fn_blk p" "listed openable subfix path Fn_chr p" "listed openable subfix path Fn_fifo p"

lemma listed_none [simp]:
  "\<not> listed openable subfix path Fn_reg p" "\<not> listed openable subfix path Fn_link p"
  "\<not> listed openable subfix path Fn_sock p" "\<not> listed openable subfix path Fn_blk p"
  "\<not> listed openable subfix path Fn_chr p" "\<not> listed openable subfix path Fn_fifo p"
  by auto

definition entry_listed :: "(string \<Rightarrow> bool) \<Rightarrow> string \<Rightarrow> string \<Rightarrow> (string \<times> fnode) list \<Rightarrow> string set" where
  "entry_listed openable subfix path es =
     {path @ ''/'' @ name | name. (name, Fn_reg) \<in> set es \<and> name_matches subfix name} \<union>
     {p. \<exists>name ds. (name, Fn_dir ds) \<in> set es \<and> \<not> is_dot name \<and> listed openable subfix (path @ ''/'' @ name) (Fn_dir ds) p}"

lemma listed_entries:
  "{p. listed openable subfix path (Fn_dir es) p} = (if openable path then entry_listed openable subfix path es else {})"
  by (rule set_eqI, unfold mem_Collect_eq, subst listed_dir) (auto simp: entry_listed_def)

lemma entry_listed_simps:
  "entry_listed openable subfix path [] = {}"
  "entry_listed openable subfix path ((name, Fn_dir ds) # es) =
     (if is_dot name then {} else {p. listed openable subfix (path @ ''/'' @ name) (Fn_dir ds) p}) \<union>
     entry_listed openable subfix path es"
  "entry_listed openable subfix path ((name, Fn_reg) # es) =
     (if name_matches subfix name then {path @ ''/'' @ name} else {}) \<union> entry_listed openable subfix path es"
  "n \<in> {Fn_link, Fn_sock, Fn_blk, Fn_chr, Fn_fifo} \<Longrightarrow>
     entry_listed openable subfix path ((name, n) # es) = entry_listed openable subfix path es"
  by (auto simp: entry_listed_def)

text \<open>A list that extends another one by the elements of a set.\<close>

definition extends :: "string list \<Rightarrow> string list \<Rightarrow> string set \<Rightarrow> bool" where
  "extends files files' A \<longleftrightarrow> (\<exists>found. files' = files @ found \<and> set found = A)"

lemma extends_simps [simp]:
  "extends files files {}" "extends files (files @ [x]) {x}"
  by (simp_all add: extends_def)

lemma extends_trans: "extends xs ys A \<Longrightarrow> extends ys zs B \<Longrightarrow> extends xs zs (A \<union> B)"
  by (auto simp: extends_def)

lemma ListAllFile_extends:
  "extends files (ListAllFile openable subfix path n files) {p. listed openable subfix path n p}"
  "extends files (list_entries openable subfix path es files) (entry_listed openable subfix path es)"
proof (induction openable subfix path n files and openable subfix path es files rule: ListAllFile_list_entries.induct)
  case (1 openable subfix path es files)
  then show ?case by (simp add: listed_entries)
next
  case (4 openable subfix path name es rest files)
  then show ?case
    using extends_trans [of files "ListAllFile openable subfix (path @ ''/'' @ name) (Fn_dir es) files"]
    by (cases "is_dot name") (simp_all add: entry_listed_simps)
next
  case (5 openable subfix path name rest files)
  then show ?case
    using extends_trans [of files "files @ [path @ ''/'' @ name]" "{path @ ''/'' @ name}"]
    by (cases "name_matches subfix name") (simp_all add: entry_listed_simps)
qed (auto simp: entry_listed_simps)

text \<open>Listing a directory adds to the given list exactly the regular files below it whose names end as
  asked for, at any depth, through directories that can be opened.\<close>

theorem ListAllFile_exact:
  "\<exists>found. ListAllFile openable subfix path n files = files @ found \<and>
    set found = {p. listed openable subfix path n p}"
  using ListAllFile_extends(1) [of files openable subfix path n] unfolding extends_def .

text \<open>The last slash of a name.\<close>

lemma rfind_None: "rfind c s = None \<longleftrightarrow> c \<notin> set s"
  by (induction s) (auto split: option.splits)

lemma rfind_Some:
  "rfind c s = Some i \<Longrightarrow> i < length s \<and> s = take i s @ c # drop (Suc i) s \<and> c \<notin> set (drop (Suc i) s)"
proof (induction s arbitrary: i)
  case (Cons x xs)
  then show ?case by (cases "rfind c xs") (auto simp: rfind_None split: if_splits)
qed simp

text \<open>\<open>Dirname\<close> and \<open>Basename\<close> take a name apart at its last slash and lose nothing: joined again they are the name.\<close>

lemma dirname_basename:
  assumes "filename \<noteq> []"
  shows "CHR ''/'' \<notin> set (FSUtil_Basename filename) \<and> FSUtil_Dirname filename \<noteq> [] \<and>
    (if CHR ''/'' \<in> set filename
     then filename = (if hd filename = CHR ''/'' \<and> CHR ''/'' \<notin> set (tl filename) then [] else FSUtil_Dirname filename) @
       ''/'' @ FSUtil_Basename filename
     else FSUtil_Dirname filename = ''.'' \<and> FSUtil_Basename filename = filename)"
proof (cases "rfind (CHR ''/'') filename")
  case None
  moreover have "CHR ''/'' \<notin> set filename" using None by (simp add: rfind_None)
  ultimately show ?thesis using assms by (simp add: FSUtil_Basename_def FSUtil_Dirname_def)
next
  case (Some i)
  note r = rfind_Some [OF Some]
  have mem: "CHR ''/'' \<in> set filename" using Some rfind_None [of "CHR ''/''" filename] by auto
  show ?thesis
  proof (cases i)
    case 0
    then have "filename = CHR ''/'' # tl filename" "CHR ''/'' \<notin> set (tl filename)" using r assms by (cases filename, auto)+
    then show ?thesis using assms Some 0 mem
      by (cases filename) (auto simp: FSUtil_Basename_def FSUtil_Dirname_def)
  next
    case (Suc k)
    have "CHR ''/'' \<in> set (tl filename)"
    proof -
      have "tl filename = take k (tl filename) @ CHR ''/'' # drop (Suc i) filename" using r Suc by (cases filename) auto
      then show ?thesis by (metis in_set_conv_decomp)
    qed
    then show ?thesis using assms Some r mem Suc
      by (auto simp: FSUtil_Basename_def FSUtil_Dirname_def)
  qed
qed

text \<open>What \<open>mkdir\<close> and \<open>access\<close> promise: a directory that was made is there, nothing that was there disappears, and
  a call that fails changes nothing.\<close>

locale directories =
  fixes d :: "'f dir_calls"
  assumes made: "dr_mkdir d p f = (True, f') \<Longrightarrow> dr_access d p f'"
    and kept: "dr_mkdir d p f = (b, f') \<Longrightarrow> dr_access d q f \<Longrightarrow> dr_access d q f'"
    and failed: "dr_mkdir d p f = (False, f') \<Longrightarrow> f' = f"
begin

lemma mkdir_one_spec:
  assumes "mkdir_one d p f = (b, f')"
  shows "(b \<longrightarrow> dr_access d p f') \<and> (\<not> b \<longrightarrow> f' = f \<and> \<not> dr_access d p f) \<and> (dr_access d q f \<longrightarrow> dr_access d q f')"
  using assms made kept failed by (auto simp: mkdir_one_def split: if_splits)

lemma mkdir_all_spec:
  "mkdir_all d ps f = (b, f') \<Longrightarrow>
   (b \<longrightarrow> (\<forall>p \<in> set ps. dr_access d p f')) \<and> (\<forall>q. dr_access d q f \<longrightarrow> dr_access d q f') \<and>
   (\<not> b \<longrightarrow> (\<exists>qs p rs. ps = qs @ p # rs \<and> (\<forall>q \<in> set qs. dr_access d q f') \<and> \<not> dr_access d p f'))"
proof (induction ps arbitrary: f)
  case (Cons p ps)
  obtain b1 f1 where 1: "mkdir_one d p f = (b1, f1)" by fastforce
  note one = mkdir_one_spec [OF 1]
  show ?case
  proof (cases b1)
    case True
    then have "mkdir_all d ps f1 = (b, f')" using Cons.prems 1 by simp
    note ih = Cons.IH [OF this]
    have p: "dr_access d p f'" using one True ih by blast
    have "\<exists>qs r rs. p # ps = qs @ r # rs \<and> (\<forall>q \<in> set qs. dr_access d q f') \<and> \<not> dr_access d r f'" if nb: "\<not> b"
    proof -
      obtain qs r rs where "ps = qs @ r # rs" "\<forall>q \<in> set qs. dr_access d q f'" "\<not> dr_access d r f'" using ih nb by blast
      then show ?thesis using p by (intro exI [of _ "p # qs"]) auto
    qed
    then show ?thesis using ih one p by auto
  next
    case False
    then have "b = False" "f' = f" using Cons.prems 1 one by auto
    moreover have "\<not> dr_access d p f" using one False by blast
    then have "\<exists>qs r rs. p # ps = qs @ r # rs \<and> (\<forall>q \<in> set qs. dr_access d q f) \<and> \<not> dr_access d r f"
      by (intro exI [of _ "[]"] exI [of _ p] exI [of _ ps]) simp
    ultimately show ?thesis by blast
  qed
qed simp

lemma Mkdir_spec:
  assumes "FSUtil_Mkdir d dirname f = Inr (b, f')"
  shows "(b \<longrightarrow> dr_lstat d dirname f \<or> (\<forall>p \<in> set (slash_prefixes dirname @ [dirname]). dr_access d p f')) \<and>
    (\<forall>q. dr_access d q f \<longrightarrow> dr_access d q f') \<and>
    (\<not> b \<longrightarrow> (\<exists>qs p rs. slash_prefixes dirname @ [dirname] = qs @ p # rs \<and>
       (\<forall>q \<in> set qs. dr_access d q f') \<and> \<not> dr_access d p f'))"
  using assms mkdir_all_spec [of "slash_prefixes dirname @ [dirname]" f b f']
  by (auto simp: FSUtil_Mkdir_def split: if_splits)

end

text \<open>A file system of directories below a root, a path being the list of its components.\<close>

fun components :: "string \<Rightarrow> string list" where
  "components [] = []"
| "components (c # cs) =
     (if c = CHR ''/'' then components cs
      else case components cs of
             [] \<Rightarrow> [c # takeWhile (\<lambda>x. x \<noteq> CHR ''/'') cs]
           | w # ws \<Rightarrow> if cs \<noteq> [] \<and> hd cs \<noteq> CHR ''/'' then (c # w) # ws else [c] # w # ws)"

definition tree_calls :: "string list set dir_calls" where
  "tree_calls = \<lparr>dr_lstat = (\<lambda>p f. p \<noteq> [] \<and> components p \<in> insert [] f), dr_access = (\<lambda>p f. p \<noteq> [] \<and> components p \<in> insert [] f),
     dr_mkdir = (\<lambda>p f. if p \<noteq> [] \<and> components p \<notin> insert [] f \<and> butlast (components p) \<in> insert [] f
       then (True, insert (components p) f) else (False, f))\<rparr>"

interpretation tree: directories tree_calls
  by unfold_locales (auto simp: tree_calls_def split: if_splits)

text \<open>\<open>Mkdir\<close> makes the directories on the way to a path from left to right: when it answers true the path was
  there before or every directory on the way is there now; when it answers false there is one that is not,
  all before it are, and in either case nothing that was there is gone.\<close>

theorem Mkdir_makes_path:
  assumes "directories d" and "FSUtil_Mkdir d dirname f = Inr (b, f')"
  shows "(b \<longrightarrow> dr_lstat d dirname f \<or> (\<forall>p \<in> set (slash_prefixes dirname @ [dirname]). dr_access d p f')) \<and>
    (\<forall>q. dr_access d q f \<longrightarrow> dr_access d q f') \<and>
    (\<not> b \<longrightarrow> (\<exists>qs p rs. slash_prefixes dirname @ [dirname] = qs @ p # rs \<and>
       (\<forall>q \<in> set qs. dr_access d q f') \<and> \<not> dr_access d p f'))"
  by (rule directories.Mkdir_spec [OF assms])

theorem Mkdir_makes_path_witness:
  "\<exists>f'. FSUtil_Mkdir tree_calls ''/a/bc/d'' {[''a'']} = Inr (True, f') \<and>
    dr_access tree_calls ''/a/bc'' f' \<and> dr_access tree_calls ''/a/bc/d'' f'"
proof -
  have p: "slash_prefixes ''/a/bc/d'' = [''/a'', ''/a/bc'']" by code_simp
  have r: "FSUtil_Mkdir tree_calls ''/a/bc/d'' {[''a'']} = Inr (True, {[''a'', ''bc'', ''d''], [''a'', ''bc''], [''a'']})"
    unfolding FSUtil_Mkdir_def p by (simp add: mkdir_one_def tree_calls_def)
  have n: "\<not> dr_lstat tree_calls ''/a/bc/d'' {[''a'']}" by (simp add: tree_calls_def)
  from Mkdir_makes_path [OF tree.directories_axioms r] n show ?thesis unfolding p r by simp
qed

text \<open>Opening a file for writing never calls \<open>Mkdir\<close> with an empty path.\<close>

lemma OpenForWrite_returns: "\<exists>r. FSUtil_OpenForWrite d can_open filename f = Inr r"
proof -
  have "FSUtil_Dirname filename \<noteq> []" by (cases "filename = []") (use dirname_basename in \<open>auto simp: FSUtil_Dirname_def\<close>)
  then show ?thesis by (auto simp: FSUtil_OpenForWrite_def FSUtil_Mkdir_def case_prod_unfold)
qed

lemma Mkdir_empty_undefined: "\<not> dr_lstat d [] f \<Longrightarrow> FSUtil_Mkdir d [] f = Inl (Undefined ''path + 1'')"
  by (simp add: FSUtil_Mkdir_def)

end
