(* ===== verification/Env.thy ===== *)
theory Env
  imports FileSystem
begin

text \<open>
  The environment of the process (\<open>sylar/env.h\<close>, \<open>sylar/env.cpp\<close>): the arguments of the command line, the help
  texts, environment variables and paths. \<open>readlink\<close> of the link to the executable is an argument, \<open>None\<close> when it
  fails. Locks and log messages are left out.
\<close>

section \<open>State and operations\<close>

record env =
  en_args :: "string \<rightharpoonup> string"
  en_helps :: "(string \<times> string) list"
  en_program :: string
  en_exe :: string
  en_cwd :: string

definition Env_add :: "string \<Rightarrow> string \<Rightarrow> env \<Rightarrow> env" where
  "Env_add key val e = e\<lparr>en_args := (en_args e)(key \<mapsto> val)\<rparr>"

definition Env_has :: "string \<Rightarrow> env \<Rightarrow> bool" where
  "Env_has key e \<longleftrightarrow> en_args e key \<noteq> None"

definition Env_del :: "string \<Rightarrow> env \<Rightarrow> env" where
  "Env_del key e = e\<lparr>en_args := (en_args e)(key := None)\<rparr>"

definition Env_get :: "string \<Rightarrow> string \<Rightarrow> env \<Rightarrow> string" where
  "Env_get key default_value e = (case en_args e key of Some v \<Rightarrow> v | None \<Rightarrow> default_value)"

text \<open>The loop over the arguments after the first: \<open>now_key\<close> is the option that waits for its value.\<close>

fun arg_loop :: "string option \<Rightarrow> string list \<Rightarrow> env \<Rightarrow> bool \<times> env" where
  "arg_loop now_key [] e = (True, case now_key of None \<Rightarrow> e | Some k \<Rightarrow> Env_add k [] e)"
| "arg_loop now_key (a # argv) e =
     (if a \<noteq> [] \<and> hd a = CHR ''-'' then
        if length a > 1
        then arg_loop (Some (tl a)) argv (case now_key of None \<Rightarrow> e | Some k \<Rightarrow> Env_add k [] e)
        else (False, e)
      else
        case now_key of
          Some k \<Rightarrow> arg_loop None argv (Env_add k a e)
        | None \<Rightarrow> (False, e))"

definition exe_dir :: "string \<Rightarrow> string" where
  "exe_dir path = (case rfind (CHR ''/'') path of None \<Rightarrow> path | Some pos \<Rightarrow> take pos path) @ ''/''"

definition Env_init :: "string option \<Rightarrow> string list \<Rightarrow> env \<Rightarrow> (bool \<times> env) result" where
  "Env_init exe argv e =
     (case exe of
        None \<Rightarrow> Inr (False, e)
      | Some path \<Rightarrow>
          let e1 = e\<lparr>en_exe := path, en_cwd := exe_dir path\<rparr>
          in case argv of
               [] \<Rightarrow> Inl (Undefined ''argv[0]'')
             | program # rest \<Rightarrow> Inr (arg_loop None rest (e1\<lparr>en_program := program\<rparr>)))"

definition Env_removeHelp :: "string \<Rightarrow> env \<Rightarrow> env" where
  "Env_removeHelp key e = e\<lparr>en_helps := filter (\<lambda>(k, d). k \<noteq> key) (en_helps e)\<rparr>"

definition Env_addHelp :: "string \<Rightarrow> string \<Rightarrow> env \<Rightarrow> env" where
  "Env_addHelp key desc e =
     (let e1 = Env_removeHelp key e in e1\<lparr>en_helps := en_helps e1 @ [(key, desc)]\<rparr>)"

definition Env_printHelp :: "env \<Rightarrow> string" where
  "Env_printHelp e =
     ''Usage: '' @ en_program e @ '' [options]'' @ [CHR 0x0A] @
     concat (map (\<lambda>(k, d). ''    -'' @ k @ '' : '' @ d @ [CHR 0x0A]) (en_helps e))"

text \<open>The variables of the process: \<open>setenv\<close> rejects names that are empty or have an equals sign. Both calls take
  C strings, which end at the first zero byte.\<close>

definition c_str :: "string \<Rightarrow> string" where
  "c_str s = takeWhile (\<lambda>c. c \<noteq> CHR 0x00) s"

definition Env_setEnv :: "string \<Rightarrow> string \<Rightarrow> (string \<rightharpoonup> string) \<Rightarrow> bool \<times> (string \<rightharpoonup> string)" where
  "Env_setEnv key val vars =
     (let name = c_str key in
      if name = [] \<or> CHR ''='' \<in> set name then (False, vars) else (True, vars(name \<mapsto> c_str val)))"

definition Env_getEnv :: "string \<Rightarrow> string \<Rightarrow> (string \<rightharpoonup> string) \<Rightarrow> string" where
  "Env_getEnv key default_value vars = (case vars (c_str key) of None \<Rightarrow> default_value | Some v \<Rightarrow> v)"

definition Env_getAbsolutePath :: "string \<Rightarrow> env \<Rightarrow> string" where
  "Env_getAbsolutePath path e =
     (if path = [] then ''/'' else if hd path = CHR ''/'' then path else en_cwd e @ path)"

text \<open>\<open>work_path\<close> is the variable \<open>server.work_path\<close>, \<open>None\<close> when it is not registered or has another type.\<close>

definition Env_getAbsoluteWorkPath :: "string option \<Rightarrow> string \<Rightarrow> env \<Rightarrow> string result" where
  "Env_getAbsoluteWorkPath work_path path e =
     (if path = [] then Inr ''/''
      else if hd path = CHR ''/'' then Inr path
      else case work_path of
             None \<Rightarrow> Inl (Undefined ''g_server_work_path->getValue()'')
           | Some w \<Rightarrow> Inr (w @ ''/'' @ path))"

definition Env_getConfigPath :: "env \<Rightarrow> string" where
  "Env_getConfigPath e = Env_getAbsolutePath (Env_get ''c'' ''conf'' e) e"

section \<open>Help texts, variables and paths\<close>

lemma addHelp_distinct:
  assumes "distinct (map fst (en_helps e))"
  shows "distinct (map fst (en_helps (Env_addHelp key desc e)))"
    and "map_of (en_helps (Env_addHelp key desc e)) = (map_of (en_helps e))(key \<mapsto> desc)"
proof -
  let ?hs = "filter (\<lambda>(k, d). k \<noteq> key) (en_helps e)"
  have helps: "en_helps (Env_addHelp key desc e) = ?hs @ [(key, desc)]"
    by (simp add: Env_addHelp_def Env_removeHelp_def)
  have "distinct (map fst ?hs)" by (simp add: assms distinct_map_filter)
  then show "distinct (map fst (en_helps (Env_addHelp key desc e)))" unfolding helps by auto
  have "map_of (filter (\<lambda>(k, d). k \<noteq> key) hs) = (map_of hs)(key := None)" for hs :: "(string \<times> string) list"
    by (induction hs) (auto simp: fun_eq_iff)
  from this [of "en_helps e"]
  show "map_of (en_helps (Env_addHelp key desc e)) = (map_of (en_helps e))(key \<mapsto> desc)"
    unfolding helps by (auto simp: fun_eq_iff map_add_def split: option.splits)
qed

lemma setEnv_getEnv:
  assumes "Env_setEnv key val vars = (b, vars')"
  shows "b \<Longrightarrow> Env_getEnv key d vars' = c_str val"
    and "\<not> b \<Longrightarrow> vars' = vars"
    and "c_str key' \<noteq> c_str key \<Longrightarrow> Env_getEnv key' d vars' = Env_getEnv key' d vars"
  using assms by (auto simp: Env_setEnv_def Env_getEnv_def Let_def split: if_splits)

lemma getAbsolutePath_absolute:
  assumes "en_cwd e \<noteq> []" "hd (en_cwd e) = CHR ''/''"
  shows "Env_getAbsolutePath path e \<noteq> [] \<and> hd (Env_getAbsolutePath path e) = CHR ''/''"
  using assms by (auto simp: Env_getAbsolutePath_def)

lemma getAbsoluteWorkPath_undefined:
  "(\<exists>msg. Env_getAbsoluteWorkPath work_path path e = Inl (Undefined msg)) \<longleftrightarrow>
     path \<noteq> [] \<and> hd path \<noteq> CHR ''/'' \<and> work_path = None"
  by (auto simp: Env_getAbsoluteWorkPath_def split: option.splits)

section \<open>The command line\<close>

text \<open>A command line as a list of options, each with or without a value, and what it stands for.\<close>

definition option_args :: "string \<times> string option \<Rightarrow> string list" where
  "option_args opt = (CHR ''-'' # fst opt) # (case snd opt of None \<Rightarrow> [] | Some v \<Rightarrow> [v])"

definition option_ok :: "string \<times> string option \<Rightarrow> bool" where
  "option_ok opt \<longleftrightarrow> fst opt \<noteq> [] \<and> (\<forall>v. snd opt = Some v \<longrightarrow> \<not> (v \<noteq> [] \<and> hd v = CHR ''-''))"

definition option_value :: "string \<times> string option \<Rightarrow> string" where
  "option_value opt = (case snd opt of None \<Rightarrow> [] | Some v \<Rightarrow> v)"

definition add_option :: "string \<times> string option \<Rightarrow> env \<Rightarrow> env" where
  "add_option opt = Env_add (fst opt) (option_value opt)"

definition pending :: "string option \<Rightarrow> string list" where
  "pending now_key = (case now_key of None \<Rightarrow> [] | Some k \<Rightarrow> [CHR ''-'' # k])"

lemma options:
  "option_args (k, None) = [CHR ''-'' # k]" "option_args (k, Some v) = [CHR ''-'' # k, v]"
  "option_ok (k, None) \<longleftrightarrow> k \<noteq> []" "option_ok (k, Some v) \<longleftrightarrow> k \<noteq> [] \<and> \<not> (v \<noteq> [] \<and> hd v = CHR ''-'')"
  "add_option (k, None) = Env_add k []" "add_option (k, Some v) = Env_add k v"
  by (simp_all add: option_args_def option_ok_def add_option_def option_value_def)

lemma arg_loop_render:
  "list_all option_ok opts \<Longrightarrow> arg_loop None (concat (map option_args opts)) e = (True, fold add_option opts e)"
proof (induction opts arbitrary: e)
  case (Cons opt opts)
  obtain k v where opt: "opt = (k, v)" by fastforce
  have k: "k \<noteq> []" using Cons.prems opt by (simp add: option_ok_def)
  have ih: "arg_loop None (concat (map option_args opts)) e' = (True, fold add_option opts e')" for e'
    using Cons by simp
  show ?case
  proof (cases v)
    case (Some x)
    have "option_args opt = [CHR ''-'' # k, x]" "add_option opt = Env_add k x"
      by (simp_all add: opt Some options)
    moreover have "\<not> (x \<noteq> [] \<and> hd x = CHR ''-'')" using Cons.prems opt Some by (simp add: option_ok_def)
    ultimately show ?thesis using k ih by auto
  next
    case None
    have "option_args opt = [CHR ''-'' # k]" "add_option opt = Env_add k []"
      by (simp_all add: opt None options)
    moreover have "arg_loop (Some k) (concat (map option_args opts)) e =
        arg_loop None (concat (map option_args opts)) (Env_add k [] e)"
      using Cons.prems by (cases opts) (auto simp: option_args_def option_ok_def)
    ultimately show ?thesis using k ih by simp
  qed
qed simp

lemma arg_loop_parse:
  assumes "arg_loop now_key argv e = (True, e')" "now_key \<noteq> Some []"
  shows "\<exists>opts. list_all option_ok opts \<and> pending now_key @ argv = concat (map option_args opts) \<and> e' = fold add_option opts e"
  using assms
proof (induction now_key argv e rule: arg_loop.induct)
  case (1 now_key e)
  show ?case
  proof (cases now_key)
    case (Some k)
    with 1 show ?thesis
      by (intro exI [of _ "[(k, None)]"])
        (auto simp: pending_def options)
  qed (use 1 in \<open>auto simp: pending_def intro!: exI [of _ "[]"]\<close>)
next
  case (2 now_key a argv e)
  show ?case
  proof (cases "a \<noteq> [] \<and> hd a = CHR ''-''")
    case True
    have "length a > 1"
    proof (rule ccontr)
      assume "\<not> length a > 1"
      with True 2(3) show False by (simp only: arg_loop.simps if_True if_False simp_thms prod.inject)
    qed
    then have a: "a = CHR ''-'' # tl a" "length a > 1" "tl a \<noteq> []"
      using True by (cases a; simp)+
    have "arg_loop (Some (tl a)) argv (case now_key of None \<Rightarrow> e | Some k \<Rightarrow> Env_add k [] e) = (True, e')"
      using 2(3) True a(2) by (simp only: arg_loop.simps if_True simp_thms)
    from 2(1) [OF True a(2) this] a(3) have "\<exists>opts. list_all option_ok opts \<and> (CHR ''-'' # tl a) # argv = concat (map option_args opts) \<and>
        e' = fold add_option opts (case now_key of None \<Rightarrow> e | Some k \<Rightarrow> Env_add k [] e)"
      by (simp add: pending_def)
    then obtain opts where opts: "list_all option_ok opts" "a # argv = concat (map option_args opts)"
        "e' = fold add_option opts (case now_key of None \<Rightarrow> e | Some k \<Rightarrow> Env_add k [] e)"
      unfolding a(1) [symmetric] by blast
    show ?thesis
    proof (cases now_key)
      case (Some k)
      with 2(4) opts show ?thesis
        by (intro exI [of _ "(k, None) # opts"])
          (auto simp: pending_def options)
    qed (use opts in \<open>auto simp: pending_def\<close>)
  next
    case False
    then obtain k where k: "now_key = Some k" "arg_loop None argv (Env_add k a e) = (True, e')"
      using 2(3) by (auto split: option.splits if_splits)
    then obtain opts where "list_all option_ok opts" "argv = concat (map option_args opts)"
        "e' = fold add_option opts (Env_add k a e)"
      using 2(2) [OF False] by (auto simp: pending_def)
    with False k(1) 2(4) show ?thesis
      by (intro exI [of _ "(k, Some a) # opts"])
        (auto simp: pending_def options)
  qed
qed


end
