(* ===== verification/Json.thy ===== *)
theory Json
  imports Config
begin

text \<open>
  The helpers on JSON values (\<open>sylar/util/json_util.cpp\<close>) and the conversions between YAML and JSON documents
  (\<open>YamlToJson\<close> and \<open>JsonToYaml\<close> of \<open>sylar/util.cpp\<close>). A \<open>Json::Value\<close> is a datatype whose numbers have a type of their
  own: the tests and conversions of numbers (\<open>isInt\<close>, \<open>asInt\<close> and so on) are arguments, and so is \<open>asString\<close> of
  what is not a string. The members of an object are ordered by name, as in its \<open>std::map\<close>. An operation
  that does not suit the type of a value throws, which is \<open>None\<close>.
\<close>

section \<open>Values\<close>

datatype 'n json = JNull | JBool bool | JNumber 'n | JString string
  | JArray "'n json list" | JObject "(string \<times> 'n json) list"

definition name_less :: "string \<Rightarrow> string \<Rightarrow> bool" where
  "name_less a b \<longleftrightarrow> bytes_less (map byte_of a) (map byte_of b)"

fun obj_set :: "string \<Rightarrow> 'v \<Rightarrow> (string \<times> 'v) list \<Rightarrow> (string \<times> 'v) list" where
  "obj_set k v [] = [(k, v)]"
| "obj_set k v ((k', v') # kvs) =
     (if k = k' then (k, v) # kvs
      else if name_less k k' then (k, v) # (k', v') # kvs
      else (k', v') # obj_set k v kvs)"

text \<open>\<open>jnode.append(v)\<close> and \<open>jnode[k] = v\<close>: a null value becomes an array or an object.\<close>

definition json_append :: "'n json \<Rightarrow> 'n json \<Rightarrow> 'n json option" where
  "json_append v j =
     (case j of JNull \<Rightarrow> Some (JArray [v]) | JArray vs \<Rightarrow> Some (JArray (vs @ [v])) | _ \<Rightarrow> None)"

definition json_set :: "string \<Rightarrow> 'n json \<Rightarrow> 'n json \<Rightarrow> 'n json option" where
  "json_set k v j =
     (case j of JNull \<Rightarrow> Some (JObject [(k, v)]) | JObject kvs \<Rightarrow> Some (JObject (obj_set k v kvs)) | _ \<Rightarrow> None)"

text \<open>\<open>ynode.push_back(n)\<close> and \<open>ynode[k] = n\<close> with a string as key. The entries of a map keep their order.\<close>

fun entry_set :: "string \<Rightarrow> 'v \<Rightarrow> (string \<times> 'v) list \<Rightarrow> (string \<times> 'v) list" where
  "entry_set k v [] = [(k, v)]"
| "entry_set k v ((k', v') # kvs) = (if k = k' then (k, v) # kvs else (k', v') # entry_set k v kvs)"

definition yaml_push_back :: "yaml \<Rightarrow> yaml \<Rightarrow> yaml option" where
  "yaml_push_back n y = (case y of YNull \<Rightarrow> Some (YSeq [n]) | YSeq ns \<Rightarrow> Some (YSeq (ns @ [n])) | _ \<Rightarrow> None)"

definition yaml_set :: "string \<Rightarrow> yaml \<Rightarrow> yaml \<Rightarrow> yaml option" where
  "yaml_set k n y = (case y of YNull \<Rightarrow> Some (YMap [(k, n)]) | YMap kvs \<Rightarrow> Some (YMap (entry_set k n kvs)) | _ \<Rightarrow> None)"

section \<open>Conversion of documents\<close>

text \<open>The second argument is the node the result is written to; it is left as the statements before the
  failure made it.\<close>

fun YamlToJson :: "yaml \<Rightarrow> 'n json \<Rightarrow> bool \<times> 'n json"
  and YamlToJson_seq :: "yaml list \<Rightarrow> 'n json \<Rightarrow> bool \<times> 'n json"
  and YamlToJson_map :: "(string \<times> yaml) list \<Rightarrow> 'n json \<Rightarrow> bool \<times> 'n json" where
  "YamlToJson YNull j = (True, j)"
| "YamlToJson (YScalar s) j = (True, JString s)"
| "YamlToJson (YSeq ns) j = YamlToJson_seq ns j"
| "YamlToJson (YMap kvs) j = YamlToJson_map kvs j"
| "YamlToJson_seq [] j = (True, j)"
| "YamlToJson_seq (n # ns) j =
     (case YamlToJson n JNull of
        (False, v) \<Rightarrow> (False, j)
      | (True, v) \<Rightarrow> (case json_append v j of None \<Rightarrow> (False, j) | Some j' \<Rightarrow> YamlToJson_seq ns j'))"
| "YamlToJson_map [] j = (True, j)"
| "YamlToJson_map ((k, n) # kvs) j =
     (case YamlToJson n JNull of
        (False, v) \<Rightarrow> (False, j)
      | (True, v) \<Rightarrow> (case json_set k v j of None \<Rightarrow> (False, j) | Some j' \<Rightarrow> YamlToJson_map kvs j'))"

definition json_asString :: "('n json \<Rightarrow> string) \<Rightarrow> 'n json \<Rightarrow> string" where
  "json_asString as_string j = (case j of JString s \<Rightarrow> s | _ \<Rightarrow> as_string j)"

fun JsonToYaml :: "('n json \<Rightarrow> string) \<Rightarrow> 'n json \<Rightarrow> yaml \<Rightarrow> bool \<times> yaml"
  and JsonToYaml_seq :: "('n json \<Rightarrow> string) \<Rightarrow> 'n json list \<Rightarrow> yaml \<Rightarrow> bool \<times> yaml"
  and JsonToYaml_map :: "('n json \<Rightarrow> string) \<Rightarrow> (string \<times> 'n json) list \<Rightarrow> yaml \<Rightarrow> bool \<times> yaml" where
  "JsonToYaml as_string (JArray vs) y = JsonToYaml_seq as_string vs y"
| "JsonToYaml as_string (JObject kvs) y = JsonToYaml_map as_string kvs y"
| "JsonToYaml as_string JNull y = (True, YScalar (json_asString as_string JNull))"
| "JsonToYaml as_string (JBool b) y = (True, YScalar (json_asString as_string (JBool b)))"
| "JsonToYaml as_string (JNumber n) y = (True, YScalar (json_asString as_string (JNumber n)))"
| "JsonToYaml as_string (JString s) y = (True, YScalar (json_asString as_string (JString s)))"
| "JsonToYaml_seq as_string [] y = (True, y)"
| "JsonToYaml_seq as_string (v # vs) y =
     (case JsonToYaml as_string v YNull of
        (False, n) \<Rightarrow> (False, y)
      | (True, n) \<Rightarrow> (case yaml_push_back n y of None \<Rightarrow> (False, y) | Some y' \<Rightarrow> JsonToYaml_seq as_string vs y'))"
| "JsonToYaml_map as_string [] y = (True, y)"
| "JsonToYaml_map as_string ((k, v) # kvs) y =
     (case JsonToYaml as_string v YNull of
        (False, n) \<Rightarrow> (False, y)
      | (True, n) \<Rightarrow> (case yaml_set k n y of None \<Rightarrow> (False, y) | Some y' \<Rightarrow> JsonToYaml_map as_string kvs y'))"

section \<open>Documents that survive both conversions\<close>

text \<open>No null and no empty container, and the keys of every map in order.\<close>

fun plain :: "yaml \<Rightarrow> bool" where
  "plain YNull = False"
| "plain (YScalar s) = True"
| "plain (YSeq ns) = (ns \<noteq> [] \<and> list_all plain ns)"
| "plain (YMap kvs) = (kvs \<noteq> [] \<and> sorted_wrt name_less (map fst kvs) \<and> list_all (\<lambda>kv. plain (snd kv)) kvs)"

lemma name_less_irrefl [simp]: "\<not> name_less k k"
  by (simp add: name_less_def byte_order.lt_irrefl)

lemma obj_set_last: "(\<And>k'. k' \<in> fst ` set kvs \<Longrightarrow> name_less k' k) \<Longrightarrow> obj_set k v kvs = kvs @ [(k, v)]"
proof (induction kvs)
  case (Cons kv kvs)
  obtain k' v' where [simp]: "kv = (k', v')" by fastforce
  have "name_less k' k" using Cons.prems by simp
  then have "\<not> name_less k k'" "k \<noteq> k'"
    using byte_order.lt_asym by (auto simp: name_less_def)
  then show ?case using Cons by simp
qed simp

lemma entry_set_last: "k \<notin> fst ` set kvs \<Longrightarrow> entry_set k v kvs = kvs @ [(k, v)]"
  by (induction kvs) auto

definition converts :: "('n json \<Rightarrow> string) \<Rightarrow> yaml \<Rightarrow> 'n json \<Rightarrow> bool" where
  "converts as_string n j \<longleftrightarrow> YamlToJson n JNull = (True, j) \<and> JsonToYaml as_string j YNull = (True, n)"

lemma seq_converts:
  assumes "list_all2 (converts as_string) ns js"
  shows "YamlToJson_seq ns (JArray vs) = (True, JArray (vs @ js))"
    and "JsonToYaml_seq as_string js (YSeq ms) = (True, YSeq (ms @ ns))"
  using assms
  by (induction ns js arbitrary: vs ms rule: list_all2_induct)
    (auto simp: converts_def json_append_def yaml_push_back_def)

lemma map_converts:
  assumes "list_all2 (\<lambda>kn kj. fst kn = fst kj \<and> converts as_string (snd kn) (snd kj)) kvs os"
    and "sorted_wrt name_less (map fst (ps @ kvs))" and "map fst ps = map fst qs"
  shows "YamlToJson_map kvs (JObject qs) = (True, JObject (qs @ os)) \<and>
    JsonToYaml_map as_string os (YMap ps) = (True, YMap (ps @ kvs))"
  using assms
proof (induction kvs os arbitrary: ps qs rule: list_all2_induct)
  case (Cons kn kvs kj os)
  obtain k n j where kn [simp]: "kn = (k, n)" "kj = (k, j)" using Cons(1) by (cases kn; cases kj) auto
  have below: "name_less k' k" if "k' \<in> fst ` set ps" for k'
    using Cons.prems(1) that by (auto simp: sorted_wrt_append)
  then have "k \<notin> fst ` set ps" using name_less_irrefl by blast
  then have "entry_set k n ps = ps @ [(k, n)]" by (rule entry_set_last)
  moreover have "fst ` set ps = fst ` set qs" using Cons.prems(2) by (metis set_map)
  then have "obj_set k j qs = qs @ [(k, j)]" using below by (intro obj_set_last) auto
  ultimately show ?case
    using Cons(1) Cons.IH [of "ps @ [(k, n)]" "qs @ [(k, j)]"] Cons.prems
    by (simp add: converts_def json_set_def yaml_set_def)
qed simp

text \<open>The first element turns the null node into a container.\<close>

lemma seq_node_converts:
  assumes "list_all2 (converts as_string) ns js" "ns \<noteq> []"
  shows "converts as_string (YSeq ns) (JArray js)"
proof -
  obtain n ns' j js' where "ns = n # ns'" "js = j # js'" "converts as_string n j" "list_all2 (converts as_string) ns' js'"
    using assms by (cases ns; cases js) auto
  then show ?thesis
    using seq_converts(1) [of as_string ns' js' "[j]"] seq_converts(2) [of as_string ns' js' "[n]"]
    by (simp add: converts_def json_append_def yaml_push_back_def)
qed

lemma map_node_converts:
  assumes "list_all2 (\<lambda>kn kj. fst kn = fst kj \<and> converts as_string (snd kn) (snd kj)) kvs os" "kvs \<noteq> []"
    and "sorted_wrt name_less (map fst kvs)"
  shows "converts as_string (YMap kvs) (JObject os)"
proof -
  obtain k n kvs' j os' where "kvs = (k, n) # kvs'" "os = (k, j) # os'" "converts as_string n j"
      "list_all2 (\<lambda>kn kj. fst kn = fst kj \<and> converts as_string (snd kn) (snd kj)) kvs' os'"
    using assms(1,2) by (cases kvs; cases os) (auto simp: prod_eq_iff)
  then show ?thesis
    using map_converts [of as_string kvs' os' "[(k, n)]" "[(k, j)]"] assms(3)
    by (simp add: converts_def json_set_def yaml_set_def)
qed

lemma list_all2_choice: "(\<And>x. x \<in> set xs \<Longrightarrow> \<exists>y. R x y) \<Longrightarrow> \<exists>ys. list_all2 R xs ys"
proof (induction xs)
  case (Cons x xs)
  obtain y where "R x y" using Cons.prems [of x] by auto
  moreover obtain ys where "list_all2 R xs ys" using Cons.IH Cons.prems by auto
  ultimately show ?case by (intro exI [of _ "y # ys"]) simp
qed auto

lemma plain_converts: "plain y \<Longrightarrow> \<exists>j. converts as_string y j"
proof (induction y)
  case (YScalar s)
  show ?case by (intro exI [of _ "JString s"]) (simp add: converts_def json_asString_def)
next
  case (YSeq ns)
  have "\<exists>j. converts as_string n j" if "n \<in> set ns" for n
    using YSeq that by (simp add: list_all_iff)
  then obtain js where "list_all2 (converts as_string) ns js" using list_all2_choice [of ns] by blast
  then show ?case using seq_node_converts YSeq.prems by auto
next
  case (YMap kvs)
  have "\<exists>kj. fst kn = fst kj \<and> converts as_string (snd kn) (snd kj)" if "kn \<in> set kvs" for kn
  proof -
    have "plain (snd kn)" using YMap.prems that by (simp add: list_all_iff)
    from YMap.IH [OF that _ this] obtain j where "converts as_string (snd kn) j"
      by (auto simp: snds.simps)
    then show ?thesis by (intro exI [of _ "(fst kn, j)"]) simp
  qed
  then obtain os where "list_all2 (\<lambda>kn kj. fst kn = fst kj \<and> converts as_string (snd kn) (snd kj)) kvs os"
    using list_all2_choice [of kvs "\<lambda>kn kj. fst kn = fst kj \<and> converts as_string (snd kn) (snd kj)"] by blast
  then show ?case using map_node_converts YMap.prems by auto
qed simp

text \<open>C38. A document without nulls and empty containers and with the keys of its maps in order goes to JSON
  and back without change.\<close>

theorem yaml_json_round_trip:
  assumes "plain y"
  shows "\<exists>j. YamlToJson y JNull = (True, j) \<and> JsonToYaml as_string j YNull = (True, y)"
  using plain_converts [OF assms, of as_string] by (simp add: converts_def)

theorem yaml_json_round_trip_witness:
  "\<exists>j :: int json. YamlToJson (YMap [(''a'', YSeq [YScalar ''1'']), (''b'', YScalar ''x'')]) JNull = (True, j) \<and>
     JsonToYaml (\<lambda>j. []) j YNull = (True, YMap [(''a'', YSeq [YScalar ''1'']), (''b'', YScalar ''x'')])"
  by (rule yaml_json_round_trip) (simp add: name_less_def byte_of_def)

text \<open>Without a limit on the document: the conversion from a fresh node never fails, but nulls and empty
  containers come back as the text of the null value.\<close>

lemma YamlToJson_total:
  fixes j j' j'' :: "'n json"
  shows "j = JNull \<Longrightarrow> fst (YamlToJson y j)"
    and "j' = JNull \<or> (\<exists>vs. j' = JArray vs) \<Longrightarrow> fst (YamlToJson_seq ns j')"
    and "j'' = JNull \<or> (\<exists>os. j'' = JObject os) \<Longrightarrow> fst (YamlToJson_map kvs j'')"
  by (induction y j and ns j' and kvs j'' rule: YamlToJson_YamlToJson_seq_YamlToJson_map.induct)
    (auto simp: json_append_def json_set_def split: prod.splits bool.splits)

lemma empty_containers_lost:
  "YamlToJson (YSeq []) j = (True, j)" "YamlToJson (YMap []) j = (True, j)"
  "JsonToYaml as_string JNull y = (True, YScalar (as_string JNull))"
  "JsonToYaml as_string (JObject []) y = (True, y)"
  by (simp_all add: json_asString_def)

section \<open>Escapes\<close>

definition escaped :: "char \<Rightarrow> bool" where
  "escaped c \<longleftrightarrow> c \<in> {CHR 0x0C, CHR 0x09, CHR 0x0D, CHR 0x0A, CHR 0x08, CHR 0x22, CHR 0x5C}"

fun NeedEscape :: "string \<Rightarrow> bool" where
  "NeedEscape [] = False"
| "NeedEscape (c # v) = (if escaped c then True else NeedEscape v)"

definition escape_char :: "char \<Rightarrow> string" where
  "escape_char c =
     (if c = CHR 0x0C then [CHR 0x5C, CHR ''f'']
      else if c = CHR 0x09 then [CHR 0x5C, CHR ''t'']
      else if c = CHR 0x0D then [CHR 0x5C, CHR ''r'']
      else if c = CHR 0x0A then [CHR 0x5C, CHR ''n'']
      else if c = CHR 0x08 then [CHR 0x5C, CHR ''b'']
      else if c = CHR 0x22 then [CHR 0x5C, CHR 0x22]
      else if c = CHR 0x5C then [CHR 0x5C, CHR 0x5C]
      else [c])"

definition escape_size :: "string \<Rightarrow> nat" where
  "escape_size v = foldl (\<lambda>n c. if escaped c then n + 2 else n + 1) 0 v"

text \<open>\<open>resize\<close> fills the result with as many zero bytes, and the characters are appended after them.\<close>

definition Escape :: "string \<Rightarrow> string" where
  "Escape v =
     (if escape_size v = length v then v
      else foldl (\<lambda>rt c. rt @ escape_char c) (replicate (escape_size v) (CHR 0x00)) v)"

fun unescape :: "string \<Rightarrow> string" where
  "unescape (c # d # s) =
     (if c = CHR 0x5C then
        (if d = CHR ''f'' then CHR 0x0C else if d = CHR ''t'' then CHR 0x09 else if d = CHR ''r'' then CHR 0x0D
         else if d = CHR ''n'' then CHR 0x0A else if d = CHR ''b'' then CHR 0x08 else d) # unescape s
      else c # unescape (d # s))"
| "unescape s = s"

lemma length_escape_char: "length (escape_char c) = (if escaped c then 2 else 1)"
  by (simp add: escaped_def escape_char_def)

lemma escape_char_other: "\<not> escaped c \<Longrightarrow> escape_char c = [c]"
  by (simp add: escaped_def escape_char_def)

lemma unescape_plain: "c \<noteq> CHR 0x5C \<Longrightarrow> unescape (c # s) = c # unescape s"
  by (cases s) auto

lemma unescape_escape_char: "unescape (escape_char c @ s) = c # unescape s"
  by (cases "escaped c") (auto simp: escaped_def escape_char_def unescape_plain)

lemma unescape_escape: "unescape (concat (map escape_char v)) = v"
  by (induction v) (simp_all add: unescape_escape_char)

lemma escape_size_eq: "escape_size v = length (concat (map escape_char v))"
proof -
  have "foldl (\<lambda>n c. if escaped c then n + 2 else n + 1) n v = n + length (concat (map escape_char v))" for n
    by (induction v arbitrary: n) (simp_all add: length_escape_char)
  then show ?thesis by (simp add: escape_size_def)
qed

lemma foldl_append: "foldl (\<lambda>rt c. rt @ f c) rt v = rt @ concat (map f v)"
  by (induction v arbitrary: rt) auto

lemma escape_none: "\<not> NeedEscape v \<Longrightarrow> concat (map escape_char v) = v"
  by (induction v) (auto simp: escape_char_other split: if_splits)

lemma escape_length: "length v \<le> length (concat (map escape_char v))"
  by (induction v) (simp_all add: length_escape_char)

lemma escape_longer: "NeedEscape v \<Longrightarrow> length v < length (concat (map escape_char v))"
proof (induction v)
  case (Cons c v)
  then show ?case using escape_length [of v] by (simp add: length_escape_char split: if_splits)
qed simp

text \<open>\<open>Escape\<close> returns a string with nothing to escape as it is, and otherwise the escaped text, which reads back as
  the string, behind as many zero bytes as it is long.\<close>

theorem Escape_exact:
  "\<exists>s. unescape s = v \<and> Escape v = (if NeedEscape v then replicate (length s) (CHR 0x00) @ s else s)"
proof (intro exI conjI)
  show "unescape (concat (map escape_char v)) = v" by (rule unescape_escape)
  show "Escape v = (if NeedEscape v
      then replicate (length (concat (map escape_char v))) (CHR 0x00) @ concat (map escape_char v)
      else concat (map escape_char v))"
    using escape_none [of v] escape_longer [of v]
    by (auto simp: Escape_def escape_size_eq foldl_append)
qed

section \<open>Members\<close>

text \<open>The accessors take an object; a null value has no members.\<close>

definition json_member :: "'n json \<Rightarrow> string \<Rightarrow> 'n json option" where
  "json_member json name = (case json of JObject kvs \<Rightarrow> map_of kvs name | _ \<Rightarrow> None)"

definition GetString :: "'n json \<Rightarrow> string \<Rightarrow> string \<Rightarrow> string" where
  "GetString json name default_value =
     (case json_member json name of
        None \<Rightarrow> default_value
      | Some v \<Rightarrow> (case v of JString s \<Rightarrow> s | _ \<Rightarrow> default_value))"

definition GetDouble :: "('n json \<Rightarrow> bool) \<Rightarrow> ('n json \<Rightarrow> 'd) \<Rightarrow> (string \<Rightarrow> 'd) \<Rightarrow> 'n json \<Rightarrow> string \<Rightarrow> 'd \<Rightarrow> 'd" where
  "GetDouble isDouble asDouble Atof json name default_value =
     (case json_member json name of
        None \<Rightarrow> default_value
      | Some v \<Rightarrow> if isDouble v then asDouble v
          else (case v of JString s \<Rightarrow> Atof s | _ \<Rightarrow> default_value))"

definition GetInt32 :: "('n json \<Rightarrow> bool) \<Rightarrow> ('n json \<Rightarrow> 32 word) \<Rightarrow> 'n json \<Rightarrow> string \<Rightarrow> 32 word \<Rightarrow> 32 word" where
  "GetInt32 isInt asInt json name default_value =
     (case json_member json name of
        None \<Rightarrow> default_value
      | Some v \<Rightarrow> if isInt v then asInt v
          else (case v of JString s \<Rightarrow> word_of_int (Atoi s) | _ \<Rightarrow> default_value))"

definition GetUint32 :: "('n json \<Rightarrow> bool) \<Rightarrow> ('n json \<Rightarrow> u32) \<Rightarrow> 'n json \<Rightarrow> string \<Rightarrow> u32 \<Rightarrow> u32" where
  "GetUint32 isUInt asUInt json name default_value =
     (case json_member json name of
        None \<Rightarrow> default_value
      | Some v \<Rightarrow> if isUInt v then asUInt v
          else (case v of JString s \<Rightarrow> word_of_int (Atoi s) | _ \<Rightarrow> default_value))"

definition GetInt64 :: "('n json \<Rightarrow> bool) \<Rightarrow> ('n json \<Rightarrow> 64 word) \<Rightarrow> 'n json \<Rightarrow> string \<Rightarrow> 64 word \<Rightarrow> 64 word" where
  "GetInt64 isInt64 asInt64 json name default_value =
     (case json_member json name of
        None \<Rightarrow> default_value
      | Some v \<Rightarrow> if isInt64 v then asInt64 v
          else (case v of JString s \<Rightarrow> word_of_int (Atoi s) | _ \<Rightarrow> default_value))"

definition GetUint64 :: "('n json \<Rightarrow> bool) \<Rightarrow> ('n json \<Rightarrow> u64) \<Rightarrow> 'n json \<Rightarrow> string \<Rightarrow> u64 \<Rightarrow> u64" where
  "GetUint64 isUInt64 asUInt64 json name default_value =
     (case json_member json name of
        None \<Rightarrow> default_value
      | Some v \<Rightarrow> if isUInt64 v then asUInt64 v
          else (case v of JString s \<Rightarrow> word_of_int (Atoi s) | _ \<Rightarrow> default_value))"

text \<open>A number written as a string keeps its low 32 bits only in the 32-bit accessors.\<close>

lemma GetInt32_wraps:
  assumes "json_member json name = Some (JString (show_int i))" "\<not> isInt (JString (show_int i))"
    and "Atoi (show_int i) = i"
  shows "sint (GetInt32 isInt asInt json name d) = signed_take_bit 31 i"
  using assms by (simp add: GetInt32_def sint_sbintrunc')

section \<open>Text\<close>

text \<open>\<open>Json::Reader::parse\<close>, which may leave part of a value when it fails, and \<open>Json::FastWriter::write\<close>.\<close>

definition JsonUtil_FromString :: "(string \<Rightarrow> 'n json \<Rightarrow> bool \<times> 'n json) \<Rightarrow> 'n json \<Rightarrow> string \<Rightarrow> bool \<times> 'n json" where
  "JsonUtil_FromString parse json v = parse v json"

definition JsonUtil_ToString :: "('n json \<Rightarrow> string) \<Rightarrow> 'n json \<Rightarrow> string" where
  "JsonUtil_ToString write json = write json"

end
