(* ===== verification/PbJson.thy ===== *)
theory PbJson
  imports Json
begin

text \<open>
  Protocol buffer messages as JSON (\<open>PBToJsonString\<close> and its two serialisers in \<open>sylar/util.cpp\<close>). A message is what
  the reflection interface shows of it: its fields in the order of the descriptor, each with a name and its
  values, and the unknown fields with their numbers. \<open>parse\<close> is \<open>ParseFromString\<close> on a set of unknown fields. The bytes of an
  unknown field are parsed in turn as such a set, to any depth: the serialiser has a depth as its first argument
  and is \<open>None\<close> when it is used up. Floating point numbers have a type of their own.
\<close>

section \<open>Messages\<close>

datatype uf_value =
    TYPE_VARINT u64
  | TYPE_FIXED32 u32
  | TYPE_FIXED64 u64
  | TYPE_LENGTH_DELIMITED string
  | TYPE_GROUP

type_synonym unknown_fields = "(int \<times> uf_value) list"

datatype 'd pb_num = NumInt int | NumReal 'd

datatype 'd pb_value =
    PbInt32 "32 word" | PbUInt32 u32 | PbInt64 "64 word" | PbUInt64 u64 | PbFloat 'd | PbDouble 'd | PbBool bool
  | PbEnum int | PbString string | PbMsg "'d pb_message"
and 'd pb_field = Singular string "'d pb_value option" | Repeated string "'d pb_value list"
and 'd pb_message = PbMessage "'d pb_field list" unknown_fields

type_synonym 'd pb_json = "'d pb_num json"

section \<open>Writing to a JSON value\<close>

text \<open>Results that may also run out of depth.\<close>

definition ebind :: "'a result option \<Rightarrow> ('a \<Rightarrow> 'b result option) \<Rightarrow> 'b result option" where
  "ebind m f = (case m of None \<Rightarrow> None | Some (Inl err) \<Rightarrow> Some (Inl err) | Some (Inr a) \<Rightarrow> f a)"

lemma ebind_simps [simp]:
  "ebind None f = None" "ebind (Some (Inl err)) f = Some (Inl err)" "ebind (Some (Inr a)) f = f a"
  by (simp_all add: ebind_def)

lemma ebind_cong [fundef_cong]:
  "m = m' \<Longrightarrow> (\<And>a. m' = Some (Inr a) \<Longrightarrow> f a = f' a) \<Longrightarrow> ebind m f = ebind m' f'"
  by (auto simp: ebind_def split: option.splits sum.splits)

definition json_put :: "string \<Rightarrow> 'd pb_json \<Rightarrow> 'd pb_json \<Rightarrow> 'd pb_json result" where
  "json_put k v j = (case json_set k v j of None \<Rightarrow> Inl (Thrown ''Json::LogicError'') | Some j' \<Rightarrow> Inr j')"

text \<open>\<open>jnode[k]\<close>, which is null when it is new.\<close>

definition json_at :: "string \<Rightarrow> 'd pb_json \<Rightarrow> 'd pb_json result" where
  "json_at k j =
     (case j of
        JNull \<Rightarrow> Inr JNull
      | JObject kvs \<Rightarrow> Inr (case map_of kvs k of None \<Rightarrow> JNull | Some v \<Rightarrow> v)
      | _ \<Rightarrow> Inl (Thrown ''Json::LogicError''))"

definition json_append_at :: "string \<Rightarrow> 'd pb_json \<Rightarrow> 'd pb_json \<Rightarrow> 'd pb_json result" where
  "json_append_at k v j =
     rbind (json_at k j) (\<lambda>m.
       case json_append v m of None \<Rightarrow> Inl (Thrown ''Json::LogicError'') | Some m' \<Rightarrow> json_put k m' j)"

fun json_append_all :: "string \<Rightarrow> 'd pb_json list \<Rightarrow> 'd pb_json \<Rightarrow> 'd pb_json result" where
  "json_append_all k [] j = Inr j"
| "json_append_all k (v # vs) j = rbind (json_append_at k v j) (json_append_all k vs)"

section \<open>Unknown fields\<close>

text \<open>\<open>kvs[number].push_back(v)\<close> on the \<open>std::map\<close> from numbers to values.\<close>

fun kvs_push :: "int \<Rightarrow> 'v \<Rightarrow> (int \<times> 'v list) list \<Rightarrow> (int \<times> 'v list) list" where
  "kvs_push n v [] = [(n, [v])]"
| "kvs_push n v ((m, vs) # kvs) =
     (if n = m then (m, vs @ [v]) # kvs
      else if n < m then (n, [v]) # (m, vs) # kvs
      else (m, vs) # kvs_push n v kvs)"

fun store_kvs :: "(int \<times> 'd pb_json list) list \<Rightarrow> 'd pb_json \<Rightarrow> 'd pb_json result" where
  "store_kvs [] j = Inr j"
| "store_kvs ((n, vs) # kvs) j =
     rbind (if length vs > 1 then json_append_all (show_int n) vs j else json_put (show_int n) (vs ! 0) j)
       (store_kvs kvs)"

function serialize_unknowfieldset :: "nat \<Rightarrow> (string \<Rightarrow> unknown_fields option) \<Rightarrow> unknown_fields \<Rightarrow> 'd pb_json \<Rightarrow>
    'd pb_json result option"
  and uf_kvs :: "nat \<Rightarrow> (string \<Rightarrow> unknown_fields option) \<Rightarrow> unknown_fields \<Rightarrow> (int \<times> 'd pb_json list) list \<Rightarrow>
    (int \<times> 'd pb_json list) list result option" where
  "serialize_unknowfieldset 0 parse ufs jnode = None"
| "serialize_unknowfieldset (Suc depth) parse ufs jnode =
     ebind (uf_kvs depth parse ufs []) (\<lambda>kvs. Some (store_kvs kvs jnode))"
| "uf_kvs depth parse [] kvs = Some (Inr kvs)"
| "uf_kvs depth parse ((n, uf) # ufs) kvs =
     (case uf of
        TYPE_VARINT x \<Rightarrow> uf_kvs depth parse ufs (kvs_push n (JNumber (NumInt (sint x))) kvs)
      | TYPE_FIXED32 x \<Rightarrow> uf_kvs depth parse ufs (kvs_push n (JNumber (NumInt (uint x))) kvs)
      | TYPE_FIXED64 x \<Rightarrow> uf_kvs depth parse ufs (kvs_push n (JNumber (NumInt (uint x))) kvs)
      | TYPE_LENGTH_DELIMITED v \<Rightarrow>
          (case (if v = [] then None else parse v) of
             Some tmp \<Rightarrow> ebind (serialize_unknowfieldset depth parse tmp JNull) (\<lambda>vv. uf_kvs depth parse ufs (kvs_push n vv kvs))
           | None \<Rightarrow> uf_kvs depth parse ufs (kvs_push n (JString v) kvs))
      | TYPE_GROUP \<Rightarrow> uf_kvs depth parse ufs kvs)"
  by pat_completeness auto

termination
  by (relation "measures [\<lambda>x. case x of Inl (depth, _) \<Rightarrow> 2 * depth | Inr (depth, _) \<Rightarrow> 2 * depth + 1,
      \<lambda>x. case x of Inl _ \<Rightarrow> 0 | Inr (_, _, ufs, _) \<Rightarrow> length ufs]") auto

section \<open>Known fields\<close>

fun scalar_json :: "'d pb_value \<Rightarrow> 'd pb_json" where
  "scalar_json (PbInt32 x) = JNumber (NumInt (sint x))"
| "scalar_json (PbUInt32 x) = JNumber (NumInt (uint x))"
| "scalar_json (PbInt64 x) = JNumber (NumInt (sint x))"
| "scalar_json (PbUInt64 x) = JNumber (NumInt (uint x))"
| "scalar_json (PbFloat x) = JNumber (NumReal x)"
| "scalar_json (PbDouble x) = JNumber (NumReal x)"
| "scalar_json (PbBool b) = JBool b"
| "scalar_json (PbEnum n) = JNumber (NumInt n)"
| "scalar_json (PbString s) = JString s"
| "scalar_json (PbMsg m) = JNull"

text \<open>A value that is a message of its own is written to the given node. The elements of a repeated field are
  written to a fresh one each and appended, a single message goes to the member itself.\<close>

fun serialize_message :: "nat \<Rightarrow> (string \<Rightarrow> unknown_fields option) \<Rightarrow> 'd pb_message \<Rightarrow> 'd pb_json \<Rightarrow> 'd pb_json result option"
  and serialize_fields :: "nat \<Rightarrow> (string \<Rightarrow> unknown_fields option) \<Rightarrow> 'd pb_field list \<Rightarrow> 'd pb_json \<Rightarrow> 'd pb_json result option"
  and serialize_repeated :: "nat \<Rightarrow> (string \<Rightarrow> unknown_fields option) \<Rightarrow> string \<Rightarrow> 'd pb_value list \<Rightarrow> 'd pb_json \<Rightarrow>
    'd pb_json result option"
  and serialize_value :: "nat \<Rightarrow> (string \<Rightarrow> unknown_fields option) \<Rightarrow> 'd pb_value \<Rightarrow> 'd pb_json \<Rightarrow> 'd pb_json result option" where
  "serialize_message depth parse (PbMessage fs ufs) jnode =
     ebind (serialize_fields depth parse fs jnode) (serialize_unknowfieldset depth parse ufs)"
| "serialize_fields depth parse [] jnode = Some (Inr jnode)"
| "serialize_fields depth parse (Repeated name vs # fs) jnode =
     ebind (serialize_repeated depth parse name vs jnode) (serialize_fields depth parse fs)"
| "serialize_fields depth parse (Singular name None # fs) jnode = serialize_fields depth parse fs jnode"
| "serialize_fields depth parse (Singular name (Some v) # fs) jnode =
     ebind (Some (json_at name jnode)) (\<lambda>m.
     ebind (serialize_value depth parse v m) (\<lambda>m'.
     ebind (Some (json_put name m' jnode)) (serialize_fields depth parse fs)))"
| "serialize_repeated depth parse name [] jnode = Some (Inr jnode)"
| "serialize_repeated depth parse name (v # vs) jnode =
     ebind (serialize_value depth parse v JNull) (\<lambda>vv.
     ebind (Some (json_append_at name vv jnode)) (serialize_repeated depth parse name vs))"
| "serialize_value depth parse (PbMsg m) jnode = serialize_message depth parse m jnode"
| "serialize_value depth parse v jnode = Some (Inr (scalar_json v))"

definition PBToJsonString :: "('d pb_json \<Rightarrow> string) \<Rightarrow> nat \<Rightarrow> (string \<Rightarrow> unknown_fields option) \<Rightarrow> 'd pb_message \<Rightarrow>
    string result option" where
  "PBToJsonString write depth parse message =
     ebind (serialize_message depth parse message JNull) (\<lambda>jnode. Some (Inr (write jnode)))"

section \<open>Members of the result\<close>

definition is_object :: "'d pb_json \<Rightarrow> bool" where
  "is_object j \<longleftrightarrow> (case j of JNull \<Rightarrow> True | JObject kvs \<Rightarrow> True | _ \<Rightarrow> False)"

lemma is_object_simps [simp]: "is_object JNull" "is_object (JObject kvs)"
  by (simp_all add: is_object_def)

lemma is_objectE: "is_object j \<Longrightarrow> (j = JNull \<Longrightarrow> P) \<Longrightarrow> (\<And>kvs. j = JObject kvs \<Longrightarrow> P) \<Longrightarrow> P"
  by (cases j) (auto simp: is_object_def)

lemma map_of_obj_set [simp]: "map_of (obj_set k v kvs) = (map_of kvs)(k \<mapsto> v)"
  by (induction k v kvs rule: obj_set.induct) (auto simp: fun_eq_iff)

lemma json_put_member:
  assumes "is_object j"
  shows "\<exists>j'. json_put k v j = Inr j' \<and> is_object j' \<and> json_member j' = (json_member j)(k \<mapsto> v)"
  using assms by (elim is_objectE) (auto simp: json_put_def json_set_def json_member_def fun_eq_iff)

lemma json_at_member: "is_object j \<Longrightarrow> json_at k j = Inr (case json_member j k of None \<Rightarrow> JNull | Some v \<Rightarrow> v)"
  by (elim is_objectE) (auto simp: json_at_def json_member_def)

lemma json_append_at_member:
  assumes "is_object j" "json_member j k = None \<and> vs = [] \<or> json_member j k = Some (JArray vs)"
  shows "\<exists>j'. json_append_at k v j = Inr j' \<and> is_object j' \<and> json_member j' = (json_member j)(k \<mapsto> JArray (vs @ [v]))"
  using assms json_put_member [OF assms(1), of k "JArray (vs @ [v])"]
  by (auto simp: json_append_at_def json_at_member json_append_def)

lemma json_append_all_member:
  assumes "is_object j" "json_member j k = None \<and> ws = [] \<or> json_member j k = Some (JArray ws)" "ws @ vs \<noteq> []"
  shows "\<exists>j'. json_append_all k vs j = Inr j' \<and> is_object j' \<and> json_member j' = (json_member j)(k \<mapsto> JArray (ws @ vs))"
  using assms
proof (induction vs arbitrary: j ws)
  case (Cons v vs)
  obtain j1 where j1: "json_append_at k v j = Inr j1" "is_object j1" "json_member j1 = (json_member j)(k \<mapsto> JArray (ws @ [v]))"
    using json_append_at_member [OF Cons.prems(1,2), of v] by blast
  then show ?case using Cons.IH [OF j1(2), of "ws @ [v]"] by (auto simp: fun_eq_iff)
qed auto

text \<open>What a member holds: the value itself, or an array when there are several.\<close>

definition pack :: "'d pb_json list \<Rightarrow> 'd pb_json" where
  "pack vs = (if length vs > 1 then JArray vs else vs ! 0)"

lemma show_int_inject [simp]: "show_int m = show_int n \<longleftrightarrow> m = n"
proof -
  have "CHR ''-'' \<notin> set (show_nat k)" for k
    using show_nat_digits [of "CHR ''-''" k] by (auto simp: is_digit_def)
  then have "show_nat k \<noteq> CHR ''-'' # cs" for k cs by (metis list.set_intros(1))
  then have "show_nat k \<noteq> CHR ''-'' # cs" "CHR ''-'' # cs \<noteq> show_nat k" for k cs by metis+
  then show ?thesis by (auto simp: show_int_def)
qed

lemma store_kvs_member:
  assumes "is_object j" "sorted_wrt (<) (map fst kvs)" "\<forall>(n, vs) \<in> set kvs. vs \<noteq> [] \<and> json_member j (show_int n) = None"
  shows "\<exists>j'. store_kvs kvs j = Inr j' \<and> is_object j' \<and>
    (\<forall>n vs. map_of kvs n = Some vs \<longrightarrow> json_member j' (show_int n) = Some (pack vs)) \<and>
    (\<forall>k. k \<notin> show_int ` fst ` set kvs \<longrightarrow> json_member j' k = json_member j k)"
  using assms
proof (induction kvs arbitrary: j)
  case (Cons nvs kvs)
  obtain n vs where nvs [simp]: "nvs = (n, vs)" by fastforce
  have vs: "vs \<noteq> []" "json_member j (show_int n) = None" using Cons.prems by auto
  have "\<exists>j'. (if length vs > 1 then json_append_all (show_int n) vs j else json_put (show_int n) (vs ! 0) j) = Inr j' \<and>
      is_object j' \<and> json_member j' = (json_member j)(show_int n \<mapsto> pack vs)"
    using json_append_all_member [of j "show_int n" "[]" vs] json_put_member [of j "show_int n" "vs ! 0"] Cons.prems(1) vs
    by (auto simp: pack_def)
  then obtain j1 where j1: "(if length vs > 1 then json_append_all (show_int n) vs j else json_put (show_int n) (vs ! 0) j) = Inr j1"
      "is_object j1" "json_member j1 = (json_member j)(show_int n \<mapsto> pack vs)" by blast
  have n: "n \<notin> fst ` set kvs" using Cons.prems(2) by auto
  have "\<forall>(m, ws) \<in> set kvs. ws \<noteq> [] \<and> json_member j1 (show_int m) = None"
    using Cons.prems(2,3) j1(3) by fastforce
  then obtain j' where j': "store_kvs kvs j1 = Inr j'" "is_object j'"
      "\<And>n vs. map_of kvs n = Some vs \<Longrightarrow> json_member j' (show_int n) = Some (pack vs)"
      "\<And>k. k \<notin> show_int ` fst ` set kvs \<Longrightarrow> json_member j' k = json_member j1 k"
    using Cons.IH [OF j1(2)] Cons.prems(2) by auto
  have shown: "show_int n \<notin> show_int ` fst ` set kvs" using n by force
  have "store_kvs (nvs # kvs) j = Inr j'" using j1(1) j'(1) by simp
  moreover have "json_member j' (show_int m) = Some (pack ws)" if "map_of (nvs # kvs) m = Some ws" for m ws
    using that j'(3) [of m ws] j'(4) [OF shown] j1(3) by (auto split: if_splits)
  moreover have "json_member j' k = json_member j k" if "k \<notin> show_int ` fst ` set (nvs # kvs)" for k
    using that j'(4) [of k] j1(3) by auto
  ultimately show ?case using j'(2) by blast
qed simp

text \<open>The map of the unknown fields: the values of a number in the order of the fields.\<close>

definition kvs_ok :: "(int \<times> 'v list) list \<Rightarrow> bool" where
  "kvs_ok kvs \<longleftrightarrow> sorted_wrt (<) (map fst kvs) \<and> (\<forall>(n, vs) \<in> set kvs. vs \<noteq> [])"

definition vals :: "(int \<times> 'v list) list \<Rightarrow> int \<Rightarrow> 'v list" where
  "vals kvs n = (case map_of kvs n of None \<Rightarrow> [] | Some vs \<Rightarrow> vs)"

lemma fst_kvs_push: "fst ` set (kvs_push n v kvs) = insert n (fst ` set kvs)"
  by (induction n v kvs rule: kvs_push.induct) auto

lemma kvs_push_ok: "kvs_ok kvs \<Longrightarrow> kvs_ok (kvs_push n v kvs)"
proof (induction n v kvs rule: kvs_push.induct)
  case (2 n v m vs kvs)
  then show ?case
    using fst_kvs_push [of n v kvs] by (fastforce simp: kvs_ok_def)
qed (simp add: kvs_ok_def)

lemma kvs_push_vals: "kvs_ok kvs \<Longrightarrow> vals (kvs_push n v kvs) m = (if m = n then vals kvs n @ [v] else vals kvs m)"
proof (induction n v kvs rule: kvs_push.induct)
  case (2 n v k vs kvs)
  have "map_of kvs n = None" if "n < k"
  proof -
    have "\<forall>x \<in> fst ` set kvs. k < x" using 2(2) by (auto simp: kvs_ok_def)
    then show ?thesis using that by (auto simp: map_of_eq_None_iff)
  qed
  moreover have "kvs_ok kvs" using 2(2) by (auto simp: kvs_ok_def)
  ultimately show ?case using 2(1) by (auto simp: vals_def)
qed (simp add: vals_def)

text \<open>The JSON value of one unknown field.\<close>

definition uf_holds :: "nat \<Rightarrow> (string \<Rightarrow> unknown_fields option) \<Rightarrow> uf_value \<Rightarrow> 'd pb_json \<Rightarrow> bool" where
  "uf_holds depth parse uf v \<longleftrightarrow>
     (case uf of
        TYPE_VARINT x \<Rightarrow> v = JNumber (NumInt (sint x))
      | TYPE_FIXED32 x \<Rightarrow> v = JNumber (NumInt (uint x))
      | TYPE_FIXED64 x \<Rightarrow> v = JNumber (NumInt (uint x))
      | TYPE_LENGTH_DELIMITED s \<Rightarrow>
          (case (if s = [] then None else parse s) of
             Some tmp \<Rightarrow> serialize_unknowfieldset depth parse tmp JNull = Some (Inr v)
           | None \<Rightarrow> v = JString s)
      | TYPE_GROUP \<Rightarrow> False)"

definition ufs_of :: "int \<Rightarrow> unknown_fields \<Rightarrow> uf_value list" where
  "ufs_of n ufs = map snd (filter (\<lambda>(m, uf). m = n \<and> uf \<noteq> TYPE_GROUP) ufs)"

text \<open>The fields of a set that was parsed from a string are shorter than the string: their tags and lengths take
  bytes of it.\<close>

definition parse_law :: "(string \<Rightarrow> unknown_fields option) \<Rightarrow> bool" where
  "parse_law parse \<longleftrightarrow>
     (\<forall>s ufs n t. parse s = Some ufs \<and> (n, TYPE_LENGTH_DELIMITED t) \<in> set ufs \<longrightarrow> length t < length s)"

definition shorter :: "nat \<Rightarrow> unknown_fields \<Rightarrow> bool" where
  "shorter depth ufs \<longleftrightarrow> (\<forall>n t. (n, TYPE_LENGTH_DELIMITED t) \<in> set ufs \<longrightarrow> length t < depth)"

text \<open>One round of the loop over the fields.\<close>

lemma uf_kvs_step:
  assumes "uf_holds depth parse uf v"
  shows "uf_kvs depth parse ((n, uf) # ufs) kvs = uf_kvs depth parse ufs (kvs_push n v kvs)"
  using assms by (cases uf) (auto simp: uf_holds_def split: option.splits if_splits)

lemma uf_kvs_exact:
  fixes kvs :: "(int \<times> 'd pb_json list) list"
  assumes "\<And>n uf. (n, uf) \<in> set ufs \<Longrightarrow> uf \<noteq> TYPE_GROUP \<Longrightarrow> \<exists>v :: 'd pb_json. uf_holds depth parse uf v" "kvs_ok kvs"
  shows "\<exists>kvs'. uf_kvs depth parse ufs kvs = Some (Inr kvs') \<and> kvs_ok kvs' \<and>
    (\<forall>n. \<exists>ws. vals kvs' n = vals kvs n @ ws \<and> list_all2 (uf_holds depth parse) (ufs_of n ufs) ws)"
  using assms
proof (induction ufs arbitrary: kvs)
  case (Cons nuf ufs)
  obtain n uf where nuf [simp]: "nuf = (n, uf)" by fastforce
  show ?case
  proof (cases "uf = TYPE_GROUP")
    case True
    then show ?thesis using Cons.IH [OF Cons.prems(1) Cons.prems(2)] by (simp add: ufs_of_def)
  next
    case False
    then obtain v :: "'d pb_json" where v: "uf_holds depth parse uf v" using Cons.prems(1) [of n uf] by auto
    obtain kvs' where kvs': "uf_kvs depth parse ufs (kvs_push n v kvs) = Some (Inr kvs')" "kvs_ok kvs'"
        "\<And>m. \<exists>ws. vals kvs' m = vals (kvs_push n v kvs) m @ ws \<and> list_all2 (uf_holds depth parse) (ufs_of m ufs) ws"
      using Cons.IH [OF Cons.prems(1) kvs_push_ok [OF Cons.prems(2)]] by fastforce
    have "\<exists>ws. vals kvs' m = vals kvs m @ ws \<and> list_all2 (uf_holds depth parse) (ufs_of m (nuf # ufs)) ws" for m
    proof -
      obtain ws where ws: "vals kvs' m = vals (kvs_push n v kvs) m @ ws" "list_all2 (uf_holds depth parse) (ufs_of m ufs) ws"
        using kvs'(3) by blast
      show ?thesis
        using ws v False kvs_push_vals [OF Cons.prems(2), of n v m]
        by (intro exI [of _ "if m = n then v # ws else ws"]) (auto simp: ufs_of_def)
    qed
    then show ?thesis using kvs'(1,2) uf_kvs_step [OF v] by auto
  qed
qed (auto simp: ufs_of_def)

lemma map_of_vals: "kvs_ok kvs \<Longrightarrow> map_of kvs n = (if vals kvs n = [] then None else Some (vals kvs n))"
  by (auto simp: vals_def kvs_ok_def split: option.splits dest: map_of_SomeD)

text \<open>The members the unknown fields make.\<close>

definition unknown_members :: "nat \<Rightarrow> (string \<Rightarrow> unknown_fields option) \<Rightarrow> unknown_fields \<Rightarrow> 'd pb_json \<Rightarrow> 'd pb_json \<Rightarrow> bool" where
  "unknown_members depth parse ufs j j' \<longleftrightarrow>
     (\<forall>n. \<exists>ws. list_all2 (uf_holds depth parse) (ufs_of n ufs) ws \<and>
        json_member j' (show_int n) = (if ws = [] then json_member j (show_int n) else Some (pack ws))) \<and>
     (\<forall>k. k \<notin> range show_int \<longrightarrow> json_member j' k = json_member j k)"

lemma unknown_store:
  fixes j :: "'d pb_json"
  assumes "\<And>n uf. (n, uf) \<in> set ufs \<Longrightarrow> uf \<noteq> TYPE_GROUP \<Longrightarrow> \<exists>v :: 'd pb_json. uf_holds depth parse uf v"
    and j: "is_object j" "\<And>n. json_member j (show_int n) = None"
  shows "\<exists>j'. serialize_unknowfieldset (Suc depth) parse ufs j = Some (Inr j') \<and> is_object j' \<and> unknown_members depth parse ufs j j'"
proof -
  obtain kvs :: "(int \<times> 'd pb_json list) list" where kvs: "uf_kvs depth parse ufs [] = Some (Inr kvs)" "kvs_ok kvs"
      "\<And>n. list_all2 (uf_holds depth parse) (ufs_of n ufs) (vals kvs n)"
    using uf_kvs_exact [of ufs depth parse "[]", OF assms(1)] by (force simp: kvs_ok_def vals_def)
  obtain j' where j': "store_kvs kvs j = Inr j'" "is_object j'"
      "\<And>n vs. map_of kvs n = Some vs \<Longrightarrow> json_member j' (show_int n) = Some (pack vs)"
      "\<And>k. k \<notin> show_int ` fst ` set kvs \<Longrightarrow> json_member j' k = json_member j k"
    using store_kvs_member [OF j(1), of kvs] j(2) kvs(2) by (auto simp: kvs_ok_def)
  have member: "json_member j' (show_int n) = (if vals kvs n = [] then json_member j (show_int n) else Some (pack (vals kvs n)))" for n
  proof (cases "vals kvs n = []")
    case True
    then have "n \<notin> fst ` set kvs" using map_of_vals [OF kvs(2), of n] by (simp add: map_of_eq_None_iff)
    then have "show_int n \<notin> show_int ` fst ` set kvs" by force
    then show ?thesis using True j'(4) by simp
  qed (use j'(3) map_of_vals [OF kvs(2), of n] in simp)
  have "unknown_members depth parse ufs j j'"
    unfolding unknown_members_def
  proof (intro conjI allI impI)
    show "\<exists>ws. list_all2 (uf_holds depth parse) (ufs_of n ufs) ws \<and>
        json_member j' (show_int n) = (if ws = [] then json_member j (show_int n) else Some (pack ws))" for n
      using kvs(3) member by blast
    show "json_member j' k = json_member j k" if "k \<notin> range show_int" for k
      using that j'(4) by blast
  qed
  then show ?thesis using kvs(1) j'(1,2) by auto
qed

lemma shorter_holds:
  assumes "parse_law parse" "shorter depth ufs" "(n, uf) \<in> set ufs" "uf \<noteq> TYPE_GROUP"
  shows "\<exists>v :: 'd pb_json. uf_holds depth parse uf v"
  using assms(2-4)
proof (induction depth arbitrary: n uf ufs)
  case 0
  then show ?case by (cases uf) (auto simp: uf_holds_def shorter_def)
next
  case (Suc depth)
  have "\<exists>v :: 'd pb_json. serialize_unknowfieldset (Suc depth) parse tmp JNull = Some (Inr v)"
    if uf: "uf = TYPE_LENGTH_DELIMITED t" and t: "parse t = Some tmp" for t tmp
  proof -
    have "shorter depth tmp"
      unfolding shorter_def
    proof (intro allI impI)
      fix m r assume "(m, TYPE_LENGTH_DELIMITED r) \<in> set tmp"
      then have "length r < length t" using assms(1) t by (auto simp: parse_law_def)
      moreover have "length t < Suc depth" using Suc.prems(1,2) uf by (auto simp: shorter_def)
      ultimately show "length r < depth" by simp
    qed
    then have holds: "\<exists>v :: 'd pb_json. uf_holds depth parse u v" if "(m, u) \<in> set tmp" "u \<noteq> TYPE_GROUP" for m u
      using Suc.IH that by blast
    have "\<exists>j' :: 'd pb_json. serialize_unknowfieldset (Suc depth) parse tmp JNull = Some (Inr j') \<and> is_object j' \<and>
        unknown_members depth parse tmp JNull j'"
      by (rule unknown_store [OF holds]) (simp_all add: json_member_def)
    then show ?thesis by blast
  qed
  note nested = this
  show ?case
  proof (cases uf)
    case (TYPE_LENGTH_DELIMITED t)
    then show ?thesis
      using nested [of t] by (cases "parse t") (auto simp: uf_holds_def simp del: serialize_unknowfieldset.simps)
  qed (use Suc.prems(3) in \<open>auto simp: uf_holds_def\<close>)
qed

lemma unknown_exact:
  assumes "parse_law parse" "shorter depth ufs" "is_object j" "\<And>n. json_member j (show_int n) = None"
  shows "\<exists>j'. serialize_unknowfieldset (Suc depth) parse ufs j = Some (Inr j') \<and> is_object j' \<and> unknown_members depth parse ufs j j'"
  by (rule unknown_store [OF shorter_holds [OF assms(1,2)] assms(3,4)])

section \<open>Messages as objects\<close>

fun field_name :: "'d pb_field \<Rightarrow> string" where
  "field_name (Singular name v) = name"
| "field_name (Repeated name vs) = name"

text \<open>Names of fields are identifiers, so none is a number.\<close>

definition name_ok :: "string \<Rightarrow> bool" where
  "name_ok name \<longleftrightarrow> name \<noteq> [] \<and> \<not> is_digit (hd name) \<and> hd name \<noteq> CHR ''-''"

fun value_ok :: "nat \<Rightarrow> 'd pb_value \<Rightarrow> bool"
  and field_ok :: "nat \<Rightarrow> 'd pb_field \<Rightarrow> bool"
  and message_ok :: "nat \<Rightarrow> 'd pb_message \<Rightarrow> bool" where
  "value_ok depth (PbMsg m) = message_ok depth m"
| "value_ok depth v = True"
| "field_ok depth (Singular name v) = (name_ok name \<and> pred_option (value_ok depth) v)"
| "field_ok depth (Repeated name vs) = (name_ok name \<and> list_all (value_ok depth) vs)"
| "message_ok depth (PbMessage fs ufs) =
     (distinct (map field_name fs) \<and> list_all (field_ok depth) fs \<and> shorter depth ufs)"

definition value_holds :: "nat \<Rightarrow> (string \<Rightarrow> unknown_fields option) \<Rightarrow> 'd pb_value \<Rightarrow> 'd pb_json \<Rightarrow> bool" where
  "value_holds depth parse v vv \<longleftrightarrow> serialize_value (Suc depth) parse v JNull = Some (Inr vv)"

text \<open>The member a field makes: none when it is not set, an array when it is repeated.\<close>

fun field_holds :: "nat \<Rightarrow> (string \<Rightarrow> unknown_fields option) \<Rightarrow> 'd pb_field \<Rightarrow> 'd pb_json option \<Rightarrow> bool" where
  "field_holds depth parse (Singular name None) member = (member = None)"
| "field_holds depth parse (Singular name (Some v)) member = (\<exists>vv. member = Some vv \<and> value_holds depth parse v vv)"
| "field_holds depth parse (Repeated name vs) member =
     (if vs = [] then member = None else \<exists>ws. member = Some (JArray ws) \<and> list_all2 (value_holds depth parse) vs ws)"

lemma name_ok_number: "name_ok name \<Longrightarrow> name \<notin> range show_int"
proof
  assume ok: "name_ok name" and "name \<in> range show_int"
  then obtain n where n: "name = show_int n" by blast
  have "is_digit (hd (show_nat k))" for k
    using show_nat_digits [of "hd (show_nat k)" k] by simp
  then show False using ok n by (auto simp: name_ok_def show_int_def split: if_splits)
qed

lemma repeated_step:
  assumes "list_all2 (value_holds depth parse) vs ws" "is_object j"
    and "json_member j name = None \<and> us = [] \<or> json_member j name = Some (JArray us)"
  shows "\<exists>j'. serialize_repeated (Suc depth) parse name vs j = Some (Inr j') \<and> is_object j' \<and>
    json_member j' = (if vs = [] then json_member j else (json_member j)(name \<mapsto> JArray (us @ ws)))"
  using assms
proof (induction vs ws arbitrary: j us rule: list_all2_induct)
  case (Cons v vs w ws)
  obtain j1 where j1: "json_append_at name w j = Inr j1" "is_object j1" "json_member j1 = (json_member j)(name \<mapsto> JArray (us @ [w]))"
    using json_append_at_member [OF Cons.prems, of w] by blast
  then obtain j' where "serialize_repeated (Suc depth) parse name vs j1 = Some (Inr j')" "is_object j'"
      "json_member j' = (if vs = [] then json_member j1 else (json_member j1)(name \<mapsto> JArray ((us @ [w]) @ ws)))"
    using Cons.IH [of j1 "us @ [w]"] by auto
  moreover have "ws = []" if "vs = []" using Cons(2) that by simp
  ultimately show ?case using Cons(1) j1 by (auto simp: value_holds_def fun_eq_iff)
qed auto

lemma field_step:
  assumes "field_holds depth parse f member" "is_object j" "json_member j (field_name f) = None"
  shows "\<exists>j1. serialize_fields (Suc depth) parse (f # fs) j = serialize_fields (Suc depth) parse fs j1 \<and>
    is_object j1 \<and> json_member j1 = (json_member j)(field_name f := member)"
proof (cases f)
  case (Singular name ov)
  show ?thesis
  proof (cases ov)
    case None
    then show ?thesis using assms Singular by (intro exI [of _ j]) (auto simp: fun_eq_iff)
  next
    case (Some v)
    then obtain vv where vv: "member = Some vv" "value_holds depth parse v vv" using assms(1) Singular by auto
    then show ?thesis
      using assms(2,3) Singular Some json_put_member [OF assms(2), of name vv] json_at_member [OF assms(2), of name]
      by (auto simp: value_holds_def)
  qed
next
  case (Repeated name vs)
  show ?thesis
  proof (cases "vs = []")
    case True
    then show ?thesis using assms Repeated by (intro exI [of _ j]) (auto simp: fun_eq_iff)
  next
    case False
    then obtain ws where ws: "member = Some (JArray ws)" "list_all2 (value_holds depth parse) vs ws"
      using assms(1) Repeated by auto
    then show ?thesis
      using repeated_step [OF ws(2) assms(2), of name "[]"] assms(3) Repeated False by auto
  qed
qed

lemma fields_step:
  assumes "\<And>f. f \<in> set fs \<Longrightarrow> \<exists>member. field_holds depth parse f member" "distinct (map field_name fs)" "is_object j"
    and "\<And>f. f \<in> set fs \<Longrightarrow> json_member j (field_name f) = None"
  shows "\<exists>j'. serialize_fields (Suc depth) parse fs j = Some (Inr j') \<and> is_object j' \<and>
    (\<forall>f \<in> set fs. field_holds depth parse f (json_member j' (field_name f))) \<and>
    (\<forall>k. k \<notin> field_name ` set fs \<longrightarrow> json_member j' k = json_member j k)"
  using assms
proof (induction fs arbitrary: j)
  case (Cons f fs)
  obtain member where member: "field_holds depth parse f member" using Cons.prems(1) [of f] by auto
  obtain j1 where j1: "serialize_fields (Suc depth) parse (f # fs) j = serialize_fields (Suc depth) parse fs j1"
      "is_object j1" "json_member j1 = (json_member j)(field_name f := member)"
    using field_step [OF member Cons.prems(3), of fs] Cons.prems(4) [of f] by auto
  have "json_member j1 (field_name g) = None" if "g \<in> set fs" for g
  proof -
    have "field_name g \<noteq> field_name f"
    proof
      assume eq: "field_name g = field_name f"
      have "field_name g \<in> field_name ` set fs" using that by (rule imageI)
      then show False using Cons.prems(2) unfolding eq by simp
    qed
    then show ?thesis using that Cons.prems(4) [of g] j1(3) by simp
  qed
  then obtain j' where j': "serialize_fields (Suc depth) parse fs j1 = Some (Inr j')" "is_object j'"
      "\<And>g. g \<in> set fs \<Longrightarrow> field_holds depth parse g (json_member j' (field_name g))"
      "\<And>k. k \<notin> field_name ` set fs \<Longrightarrow> json_member j' k = json_member j1 k"
    using Cons.IH [OF _ _ j1(2)] Cons.prems(1,2) by auto
  have "json_member j' (field_name f) = member" using j'(4) [of "field_name f"] j1(3) Cons.prems(2) by simp
  then have "\<forall>g \<in> set (f # fs). field_holds depth parse g (json_member j' (field_name g))"
    using member j'(3) by auto
  moreover have "json_member j' k = json_member j k" if "k \<notin> field_name ` set (f # fs)" for k
    using that j'(4) [of k] j1(3) by auto
  ultimately show ?case using j1(1) j'(1,2) by auto
qed simp

lemma message_step:
  assumes "parse_law parse" "\<And>f. f \<in> set fs \<Longrightarrow> \<exists>member. field_holds depth parse f member"
    and "message_ok depth (PbMessage fs ufs)"
  shows "\<exists>j. serialize_message (Suc depth) parse (PbMessage fs ufs) JNull = Some (Inr j) \<and>
    (\<forall>f \<in> set fs. field_holds depth parse f (json_member j (field_name f))) \<and>
    (\<forall>n. \<exists>ws. list_all2 (uf_holds depth parse) (ufs_of n ufs) ws \<and>
       json_member j (show_int n) = (if ws = [] then None else Some (pack ws))) \<and>
    (\<forall>k. k \<notin> field_name ` set fs \<union> range show_int \<longrightarrow> json_member j k = None)"
proof -
  have names: "name_ok (field_name f)" if "f \<in> set fs" for f
    using assms(3) that by (auto simp: list_all_iff elim!: field_ok.elims)
  have number: "show_int n \<notin> field_name ` set fs" for n
  proof
    assume "show_int n \<in> field_name ` set fs"
    then obtain f where f: "f \<in> set fs" "field_name f = show_int n" by force
    from name_ok_number [OF names [OF f(1)]] f(2) show False by simp
  qed
  obtain j1 where j1: "serialize_fields (Suc depth) parse fs JNull = Some (Inr j1)" "is_object j1"
      "\<And>f. f \<in> set fs \<Longrightarrow> field_holds depth parse f (json_member j1 (field_name f))"
      "\<And>k. k \<notin> field_name ` set fs \<Longrightarrow> json_member j1 k = None"
    using fields_step [of fs depth parse JNull] assms(2,3) by (auto simp: json_member_def)
  have "shorter depth ufs" using assms(3) by simp
  then obtain j where j: "serialize_unknowfieldset (Suc depth) parse ufs j1 = Some (Inr j)" "unknown_members depth parse ufs j1 j"
    using unknown_exact [OF assms(1) _ j1(2)] j1(4) [OF number] by blast
  have "json_member j (field_name f) = json_member j1 (field_name f)" if "f \<in> set fs" for f
    using j(2) name_ok_number [OF names [OF that]] by (simp add: unknown_members_def)
  moreover have "\<exists>ws. list_all2 (uf_holds depth parse) (ufs_of n ufs) ws \<and>
      json_member j (show_int n) = (if ws = [] then None else Some (pack ws))" for n
    using j(2) [unfolded unknown_members_def, THEN conjunct1, THEN spec, of n] unfolding j1(4) [OF number [of n]] .
  moreover have "json_member j k = None" if "k \<notin> field_name ` set fs \<union> range show_int" for k
    using j(2) j1(4) [of k] that by (simp add: unknown_members_def)
  ultimately show ?thesis using j1(1,3) j(1) by (auto simp del: serialize_unknowfieldset.simps)
qed

lemma message_total:
  fixes v :: "'d pb_value" and f :: "'d pb_field" and m :: "'d pb_message"
  assumes "parse_law parse"
  shows "value_ok depth v \<Longrightarrow> \<exists>vv. value_holds depth parse v vv"
    and "field_ok depth f \<Longrightarrow> \<exists>member. field_holds depth parse f member"
    and "message_ok depth m \<Longrightarrow> \<exists>vv. value_holds depth parse (PbMsg m) vv"
proof (induction v and f and m rule: pb_value.induct pb_field.induct pb_message.induct)
  case (Singular name ov)
  then show ?case by (cases ov) auto
next
  case (Repeated name vs)
  have "\<exists>ws. list_all2 (value_holds depth parse) vs ws"
    using Repeated by (intro list_all2_choice) (auto simp: list_all_iff)
  then show ?case by auto
next
  case (PbMessage fs ufs)
  have "\<exists>member. field_holds depth parse f member" if "f \<in> set fs" for f
    using PbMessage that by (auto simp: list_all_iff)
  from message_step [OF assms this PbMessage.prems] show ?case
    by (auto simp: value_holds_def simp del: serialize_message.simps)
qed (auto simp: value_holds_def)

text \<open>C39. A message whose unknown fields are shorter than the depth is serialised, whatever the bytes in them parse to:
  every field that is set makes the member of its name, an array when the field is repeated; the unknown fields
  of a number make the member of that number, with their values in order, an array when there are several;
  and there are no other members.\<close>

theorem message_members:
  assumes "parse_law parse" and "message_ok depth (PbMessage fs ufs)"
  shows "\<exists>j. serialize_message (Suc depth) parse (PbMessage fs ufs) JNull = Some (Inr j) \<and>
    (\<forall>f \<in> set fs. field_holds depth parse f (json_member j (field_name f))) \<and>
    (\<forall>n. \<exists>ws. list_all2 (uf_holds depth parse) (ufs_of n ufs) ws \<and>
       json_member j (show_int n) = (if ws = [] then None else Some (pack ws))) \<and>
    (\<forall>k. k \<notin> field_name ` set fs \<union> range show_int \<longrightarrow> json_member j k = None)"
proof (rule message_step [OF assms(1) _ assms(2)])
  show "\<exists>member. field_holds depth parse f member" if "f \<in> set fs" for f
    using message_total(2) [OF assms(1)] assms(2) that by (auto simp: list_all_iff)
qed

text \<open>Two unknown fields with the number 9, of which one is a message itself.\<close>

definition sample_parse :: "string \<Rightarrow> unknown_fields option" where
  "sample_parse s = (if s = ''ab'' then Some [(1, TYPE_VARINT 5)] else None)"

definition sample_fields :: "nat pb_field list" where
  "sample_fields = [Singular ''id'' (Some (PbInt32 7)), Repeated ''tags'' [PbString ''x''], Singular ''note'' None]"

theorem message_members_witness:
  "\<exists>j. serialize_message 4 sample_parse (PbMessage sample_fields [(9, TYPE_LENGTH_DELIMITED ''ab''), (9, TYPE_VARINT 1)]) JNull =
       Some (Inr j) \<and>
     json_member j ''id'' = Some (JNumber (NumInt 7)) \<and> json_member j ''tags'' = Some (JArray [JString ''x'']) \<and>
     json_member j ''note'' = None"
proof -
  have "parse_law sample_parse" by (auto simp: parse_law_def sample_parse_def)
  moreover have "message_ok 3 (PbMessage sample_fields [(9, TYPE_LENGTH_DELIMITED ''ab''), (9, TYPE_VARINT 1)])"
    by (simp add: sample_fields_def name_ok_def is_digit_def less_eq_char_def shorter_def)
  ultimately obtain j where j: "serialize_message (Suc 3) sample_parse
        (PbMessage sample_fields [(9, TYPE_LENGTH_DELIMITED ''ab''), (9, TYPE_VARINT 1)]) JNull = Some (Inr j)"
      "\<forall>f \<in> set sample_fields. field_holds 3 sample_parse f (json_member j (field_name f))"
    using message_members by blast
  have "Suc 3 = (4 :: nat)" by simp
  then show ?thesis
    using j(1) j(2) [unfolded sample_fields_def] by (auto simp: value_holds_def list_all2_Cons1 simp del: serialize_message.simps)
qed

lemma PBToJsonString_total:
  assumes "parse_law parse" "message_ok depth m"
  shows "\<exists>text. PBToJsonString write (Suc depth) parse m = Some (Inr text)"
  using message_total(3) [OF assms] by (auto simp: PBToJsonString_def value_holds_def)

text \<open>Unknown groups have no case in the switch.\<close>

lemma groups_dropped: "uf_kvs depth parse (ufs @ [(n, TYPE_GROUP)]) kvs = uf_kvs depth parse ufs kvs"
proof (induction ufs arbitrary: kvs)
  case (Cons nuf ufs)
  obtain m uf where "nuf = (m, uf)" by fastforce
  then show ?case using Cons by (simp split: uf_value.splits option.splits)
qed simp

end
