(* ===== verification/Mutex.thy ===== *)
theory Mutex
  imports Prelude "HOL-Library.Multiset"
begin

text \<open>
  Locks and semaphores (\<open>sylar/mutex.h\<close>, \<open>sylar/mutex.cpp\<close>). A lock is a value; an operation that takes it is a
  function of the calling thread and the lock with the result \<open>None\<close> while the thread has to wait, and an
  operation that gives it back is \<open>Undefined\<close> where POSIX says so. The scoped locks of \<open>mutex.h\<close> are functions over
  those operations and the flag \<open>locked_\<close>. Threads that use a lock through scoped locks are a step relation, one
  call per step, in any order; a thread has at most one scoped lock of the lock at a time.
\<close>

section \<open>The locks\<close>

text \<open>\<open>pthread_mutex_t\<close> of the default kind: its owner. A thread that takes it twice waits for ever.\<close>

type_synonym mutex = "nat option"

definition Mutex_new :: mutex where
  "Mutex_new = None"

definition Mutex_lock :: "nat \<Rightarrow> mutex \<Rightarrow> mutex option" where
  "Mutex_lock t m = (if m = None then Some (Some t) else None)"

definition Mutex_unlock :: "nat \<Rightarrow> mutex \<Rightarrow> mutex result" where
  "Mutex_unlock t m = (if m = Some t then Inr None else Inl (Undefined ''pthread_mutex_unlock''))"

definition NullMutex_lock :: "nat \<Rightarrow> unit \<Rightarrow> unit option" where
  "NullMutex_lock t m = Some m"

definition NullMutex_unlock :: "nat \<Rightarrow> unit \<Rightarrow> unit result" where
  "NullMutex_unlock t m = Inr m"

text \<open>\<open>pthread_spinlock_t\<close>.\<close>

type_synonym spinlock = "nat option"

definition Spinlock_new :: spinlock where
  "Spinlock_new = None"

definition Spinlock_lock :: "nat \<Rightarrow> spinlock \<Rightarrow> spinlock option" where
  "Spinlock_lock t m = (if m = None then Some (Some t) else None)"

definition Spinlock_unlock :: "nat \<Rightarrow> spinlock \<Rightarrow> spinlock result" where
  "Spinlock_unlock t m = (if m = Some t then Inr None else Inl (Undefined ''pthread_spin_unlock''))"

text \<open>
  \<open>std::atomic_flag\<close>. \<open>lock\<close> repeats the test until the flag was clear; a round that finds it set leaves it set, so
  a thread that has to go round again is one that waits. Every thread may clear the flag.
\<close>

definition test_and_set :: "bool \<Rightarrow> bool \<times> bool" where
  "test_and_set flag = (flag, True)"

definition CASLock_new :: bool where
  "CASLock_new = False"

definition CASLock_lock :: "nat \<Rightarrow> bool \<Rightarrow> bool option" where
  "CASLock_lock t flag = (case test_and_set flag of (was_set, flag') \<Rightarrow> if was_set then None else Some flag')"

definition CASLock_unlock :: "nat \<Rightarrow> bool \<Rightarrow> bool result" where
  "CASLock_unlock t flag = Inr False"

text \<open>\<open>pthread_rwlock_t\<close>: the threads that read, as often as they took the lock, and the thread that writes.\<close>

record rwlock =
  rw_readers :: "nat multiset"
  rw_writer :: "nat option"

definition RWMutex_new :: rwlock where
  "RWMutex_new = \<lparr>rw_readers = {#}, rw_writer = None\<rparr>"

definition RWMutex_rdlock :: "nat \<Rightarrow> rwlock \<Rightarrow> rwlock option" where
  "RWMutex_rdlock t m = (if rw_writer m = None then Some (m\<lparr>rw_readers := add_mset t (rw_readers m)\<rparr>) else None)"

definition RWMutex_wrlock :: "nat \<Rightarrow> rwlock \<Rightarrow> rwlock option" where
  "RWMutex_wrlock t m =
     (if rw_writer m = None \<and> rw_readers m = {#} then Some (m\<lparr>rw_writer := Some t\<rparr>) else None)"

definition RWMutex_unlock :: "nat \<Rightarrow> rwlock \<Rightarrow> rwlock result" where
  "RWMutex_unlock t m =
     (if rw_writer m = Some t then Inr (m\<lparr>rw_writer := None\<rparr>)
      else if t \<in># rw_readers m then Inr (m\<lparr>rw_readers := rw_readers m - {#t#}\<rparr>)
      else Inl (Undefined ''pthread_rwlock_unlock''))"

section \<open>Scoped locks\<close>

text \<open>\<open>acquire\<close> is \<open>lock\<close>, \<open>rdlock\<close> or \<open>wrlock\<close> of the class \<open>T\<close> of the template and \<open>release\<close> its \<open>unlock\<close>.\<close>

definition ScopedLockImpl_new :: "(nat \<Rightarrow> 'm \<Rightarrow> 'm option) \<Rightarrow> nat \<Rightarrow> 'm \<Rightarrow> ('m \<times> bool) option" where
  "ScopedLockImpl_new acquire t m = map_option (\<lambda>m'. (m', True)) (acquire t m)"

definition ScopedLockImpl_lock :: "(nat \<Rightarrow> 'm \<Rightarrow> 'm option) \<Rightarrow> nat \<Rightarrow> 'm \<times> bool \<Rightarrow> ('m \<times> bool) option" where
  "ScopedLockImpl_lock acquire t s =
     (case s of (m, locked) \<Rightarrow>
        if \<not> locked then map_option (\<lambda>m'. (m', True)) (acquire t m) else Some (m, locked))"

definition ScopedLockImpl_unlock :: "(nat \<Rightarrow> 'm \<Rightarrow> 'm result) \<Rightarrow> nat \<Rightarrow> 'm \<times> bool \<Rightarrow> ('m \<times> bool) result" where
  "ScopedLockImpl_unlock release t s =
     (case s of (m, locked) \<Rightarrow>
        if locked then rbind (release t m) (\<lambda>m'. Inr (m', False)) else Inr (m, locked))"

definition ScopedLockImpl_delete :: "(nat \<Rightarrow> 'm \<Rightarrow> 'm result) \<Rightarrow> nat \<Rightarrow> 'm \<times> bool \<Rightarrow> 'm result" where
  "ScopedLockImpl_delete release t s = rbind (ScopedLockImpl_unlock release t s) (\<lambda>(m, locked). Inr m)"

text \<open>The read lock tests \<open>locked_\<close> the other way round in \<open>lock\<close>.\<close>

definition ReadScopedLockImpl_new :: "(nat \<Rightarrow> 'm \<Rightarrow> 'm option) \<Rightarrow> nat \<Rightarrow> 'm \<Rightarrow> ('m \<times> bool) option" where
  "ReadScopedLockImpl_new rdlock t m = map_option (\<lambda>m'. (m', True)) (rdlock t m)"

definition ReadScopedLockImpl_lock :: "(nat \<Rightarrow> 'm \<Rightarrow> 'm option) \<Rightarrow> nat \<Rightarrow> 'm \<times> bool \<Rightarrow> ('m \<times> bool) option" where
  "ReadScopedLockImpl_lock rdlock t s =
     (case s of (m, locked) \<Rightarrow>
        if locked then map_option (\<lambda>m'. (m', True)) (rdlock t m) else Some (m, locked))"

definition ReadScopedLockImpl_unlock :: "(nat \<Rightarrow> 'm \<Rightarrow> 'm result) \<Rightarrow> nat \<Rightarrow> 'm \<times> bool \<Rightarrow> ('m \<times> bool) result" where
  "ReadScopedLockImpl_unlock release t s =
     (case s of (m, locked) \<Rightarrow>
        if locked then rbind (release t m) (\<lambda>m'. Inr (m', False)) else Inr (m, locked))"

definition ReadScopedLockImpl_delete :: "(nat \<Rightarrow> 'm \<Rightarrow> 'm result) \<Rightarrow> nat \<Rightarrow> 'm \<times> bool \<Rightarrow> 'm result" where
  "ReadScopedLockImpl_delete release t s = rbind (ReadScopedLockImpl_unlock release t s) (\<lambda>(m, locked). Inr m)"

definition WriteScopedLockImpl_new :: "(nat \<Rightarrow> 'm \<Rightarrow> 'm option) \<Rightarrow> nat \<Rightarrow> 'm \<Rightarrow> ('m \<times> bool) option" where
  "WriteScopedLockImpl_new wrlock t m = map_option (\<lambda>m'. (m', True)) (wrlock t m)"

definition WriteScopedLockImpl_lock :: "(nat \<Rightarrow> 'm \<Rightarrow> 'm option) \<Rightarrow> nat \<Rightarrow> 'm \<times> bool \<Rightarrow> ('m \<times> bool) option" where
  "WriteScopedLockImpl_lock wrlock t s =
     (case s of (m, locked) \<Rightarrow>
        if \<not> locked then map_option (\<lambda>m'. (m', True)) (wrlock t m) else Some (m, locked))"

definition WriteScopedLockImpl_unlock :: "(nat \<Rightarrow> 'm \<Rightarrow> 'm result) \<Rightarrow> nat \<Rightarrow> 'm \<times> bool \<Rightarrow> ('m \<times> bool) result" where
  "WriteScopedLockImpl_unlock release t s =
     (case s of (m, locked) \<Rightarrow>
        if locked then rbind (release t m) (\<lambda>m'. Inr (m', False)) else Inr (m, locked))"

definition WriteScopedLockImpl_delete :: "(nat \<Rightarrow> 'm \<Rightarrow> 'm result) \<Rightarrow> nat \<Rightarrow> 'm \<times> bool \<Rightarrow> 'm result" where
  "WriteScopedLockImpl_delete release t s = rbind (WriteScopedLockImpl_unlock release t s) (\<lambda>(m, locked). Inr m)"

section \<open>Semaphores\<close>

text \<open>A \<open>sem_t\<close> is its value, at most \<open>SEM_VALUE_MAX\<close>. \<open>wait\<close> is \<open>None\<close> while the thread has to wait; a signal
  handler that runs in the meantime makes \<open>sem_wait\<close> fail.\<close>

definition SEM_VALUE_MAX :: nat where
  "SEM_VALUE_MAX = 2147483647"

definition Semaphore_new :: "u32 \<Rightarrow> nat result" where
  "Semaphore_new cnt = (if unat cnt > SEM_VALUE_MAX then Inl (Thrown ''sem_init error'') else Inr (unat cnt))"

definition Semaphore_wait :: "bool \<Rightarrow> nat \<Rightarrow> nat result option" where
  "Semaphore_wait interrupted n =
     (if n > 0 then Some (Inr (n - 1)) else if interrupted then Some (Inl (Thrown ''sem_wait error'')) else None)"

definition Semaphore_notify :: "nat \<Rightarrow> nat result" where
  "Semaphore_notify n = (if n = SEM_VALUE_MAX then Inl (Thrown ''sem_post error'') else Inr (n + 1))"

lemma notify_then_wait:
  assumes "n < SEM_VALUE_MAX"
  shows "rbind (Semaphore_notify n) (\<lambda>n'. case Semaphore_wait interrupted n' of Some r \<Rightarrow> r | None \<Rightarrow> Inl (Thrown [])) = Inr n"
  using assms by (simp add: Semaphore_notify_def Semaphore_wait_def)

section \<open>Threads that share a lock\<close>

text \<open>The state: the lock, and for every thread the flag \<open>locked_\<close> of its scoped lock when it has one.\<close>

inductive scope_step :: "(nat \<Rightarrow> 'm \<Rightarrow> 'm option) \<Rightarrow> (nat \<Rightarrow> 'm \<Rightarrow> 'm result) \<Rightarrow>
    'm \<times> (nat \<Rightarrow> bool option) \<Rightarrow> 'm \<times> (nat \<Rightarrow> bool option) \<Rightarrow> bool"
  for acquire release where
  construct: "sc t = None \<Longrightarrow> ScopedLockImpl_new acquire t m = Some (m', l) \<Longrightarrow>
     scope_step acquire release (m, sc) (m', sc(t \<mapsto> l))"
| relock: "sc t = Some l \<Longrightarrow> ScopedLockImpl_lock acquire t (m, l) = Some (m', l') \<Longrightarrow>
     scope_step acquire release (m, sc) (m', sc(t \<mapsto> l'))"
| unlock: "sc t = Some l \<Longrightarrow> ScopedLockImpl_unlock release t (m, l) = Inr (m', l') \<Longrightarrow>
     scope_step acquire release (m, sc) (m', sc(t \<mapsto> l'))"
| destroy: "sc t = Some l \<Longrightarrow> ScopedLockImpl_delete release t (m, l) = Inr m' \<Longrightarrow>
     scope_step acquire release (m, sc) (m', sc(t := None))"

text \<open>What a lock of this kind promises: no two threads are in it, no call to give it back is undefined, and
  it can be taken whenever no thread is in it.\<close>

definition excludes :: "'m \<Rightarrow> (nat \<Rightarrow> 'm \<Rightarrow> 'm option) \<Rightarrow> (nat \<Rightarrow> 'm \<Rightarrow> 'm result) \<Rightarrow> bool" where
  "excludes m0 acquire release \<longleftrightarrow>
     (\<forall>m sc. (scope_step acquire release)\<^sup>*\<^sup>* (m0, \<lambda>t. None) (m, sc) \<longrightarrow>
        (\<forall>t t'. sc t = Some True \<and> sc t' = Some True \<longrightarrow> t = t') \<and>
        (\<forall>t l. sc t = Some l \<longrightarrow> (\<exists>m'. ScopedLockImpl_delete release t (m, l) = Inr m')) \<and>
        ((\<forall>t. sc t \<noteq> Some True) \<longrightarrow> (\<forall>t. \<exists>m'. acquire t m = Some m')))"

text \<open>The interface: a lock with an owner. \<open>owned h m\<close> relates a lock to the thread that has it.\<close>

locale exclusive_lock =
  fixes m0 :: 'm and acquire :: "nat \<Rightarrow> 'm \<Rightarrow> 'm option" and release :: "nat \<Rightarrow> 'm \<Rightarrow> 'm result"
    and owned :: "nat option \<Rightarrow> 'm \<Rightarrow> bool"
  assumes owned_new: "owned None m0"
    and acquire_owned: "owned h m \<Longrightarrow> acquire t m = Some m' \<Longrightarrow> h = None \<and> owned (Some t) m'"
    and acquire_free: "owned None m \<Longrightarrow> \<exists>m'. acquire t m = Some m'"
    and release_owned: "owned (Some t) m \<Longrightarrow> \<exists>m'. release t m = Inr m' \<and> owned None m'"
begin

definition consistent :: "'m \<times> (nat \<Rightarrow> bool option) \<Rightarrow> bool" where
  "consistent s \<longleftrightarrow> (\<exists>h. owned h (fst s) \<and> (\<forall>t. snd s t = Some True \<longleftrightarrow> h = Some t))"

lemma consistentI: "owned h m \<Longrightarrow> (\<And>t. sc t = Some True \<longleftrightarrow> h = Some t) \<Longrightarrow> consistent (m, sc)"
  by (auto simp: consistent_def)

lemma step_consistent: "scope_step acquire release s s' \<Longrightarrow> consistent s \<Longrightarrow> consistent s'"
proof (induction rule: scope_step.induct)
  case (construct sc t m m' l)
  then obtain h where h: "owned h m" "\<And>t. sc t = Some True \<longleftrightarrow> h = Some t" by (auto simp: consistent_def)
  have "acquire t m = Some m'" "l" using construct by (auto simp: ScopedLockImpl_new_def)
  then show ?case using acquire_owned [OF h(1)] h(2) by (intro consistentI [of "Some t"]) auto
next
  case (relock sc t l m m' l')
  then obtain h where h: "owned h m" "\<And>t. sc t = Some True \<longleftrightarrow> h = Some t" by (auto simp: consistent_def)
  show ?case
  proof (cases l)
    case True
    then show ?thesis using relock h h(2) [of t] by (intro consistentI [of h]) (auto simp: ScopedLockImpl_lock_def)
  next
    case False
    then have "acquire t m = Some m'" "l'" using relock by (auto simp: ScopedLockImpl_lock_def)
    then show ?thesis using acquire_owned [OF h(1)] h(2) by (intro consistentI [of "Some t"]) auto
  qed
next
  case (unlock sc t l m m' l')
  then obtain h where h: "owned h m" "\<And>t. sc t = Some True \<longleftrightarrow> h = Some t" by (auto simp: consistent_def)
  show ?case
  proof (cases l)
    case False
    then show ?thesis using unlock h h(2) [of t] by (intro consistentI [of h]) (auto simp: ScopedLockImpl_unlock_def)
  next
    case True
    then have "owned (Some t) m" "release t m = Inr m'" "\<not> l'"
      using unlock h by (auto simp: ScopedLockImpl_unlock_def rbind_eq_Inr)
    then show ?thesis using release_owned [of t m] h True unlock by (intro consistentI [of None]) auto
  qed
next
  case (destroy sc t l m m')
  then obtain h where h: "owned h m" "\<And>t. sc t = Some True \<longleftrightarrow> h = Some t" by (auto simp: consistent_def)
  show ?case
  proof (cases l)
    case False
    then show ?thesis using destroy h h(2) [of t]
      by (intro consistentI [of h]) (auto simp: ScopedLockImpl_delete_def ScopedLockImpl_unlock_def)
  next
    case True
    then have "owned (Some t) m" "release t m = Inr m'"
      using destroy h by (auto simp: ScopedLockImpl_delete_def ScopedLockImpl_unlock_def rbind_eq_Inr)
    then show ?thesis using release_owned [of t m] h True destroy by (intro consistentI [of None]) auto
  qed
qed

lemma reachable_consistent:
  "(scope_step acquire release)\<^sup>*\<^sup>* (m0, \<lambda>t. None) s \<Longrightarrow> consistent s"
proof (induction rule: rtranclp_induct)
  case base
  show ?case using owned_new by (intro consistentI [of None]) auto
qed (rule step_consistent)

lemma lock_excludes: "excludes m0 acquire release"
  unfolding excludes_def
proof (intro allI impI)
  fix m sc
  assume "(scope_step acquire release)\<^sup>*\<^sup>* (m0, \<lambda>t. None) (m, sc)"
  then obtain h where h: "owned h m" "\<And>t. sc t = Some True \<longleftrightarrow> h = Some t"
    using reachable_consistent [of "(m, sc)"] by (auto simp: consistent_def)
  have "\<exists>m'. ScopedLockImpl_delete release t (m, l) = Inr m'" if "sc t = Some l" for t l
    using that h release_owned [of t m]
    by (cases l) (auto simp: ScopedLockImpl_delete_def ScopedLockImpl_unlock_def)
  moreover have "\<exists>m'. acquire t m = Some m'" if "\<forall>t. sc t \<noteq> Some True" for t
    using that h acquire_free [of m t] by (cases h) auto
  ultimately show "(\<forall>t t'. sc t = Some True \<and> sc t' = Some True \<longrightarrow> t = t') \<and>
      (\<forall>t l. sc t = Some l \<longrightarrow> (\<exists>m'. ScopedLockImpl_delete release t (m, l) = Inr m')) \<and>
      ((\<forall>t. sc t \<noteq> Some True) \<longrightarrow> (\<forall>t. \<exists>m'. acquire t m = Some m'))"
    using h(2) by auto
qed

end

interpretation pmutex: exclusive_lock Mutex_new Mutex_lock Mutex_unlock "\<lambda>h m. m = h"
  by unfold_locales (auto simp: Mutex_new_def Mutex_lock_def Mutex_unlock_def split: if_splits)

interpretation spin: exclusive_lock Spinlock_new Spinlock_lock Spinlock_unlock "\<lambda>h m. m = h"
  by unfold_locales (auto simp: Spinlock_new_def Spinlock_lock_def Spinlock_unlock_def split: if_splits)

interpretation cas: exclusive_lock CASLock_new CASLock_lock CASLock_unlock "\<lambda>h flag. flag \<longleftrightarrow> h \<noteq> None"
  by unfold_locales (auto simp: CASLock_new_def CASLock_lock_def CASLock_unlock_def test_and_set_def split: if_splits)

text \<open>C23. However threads construct, relock, unlock and destroy scoped locks of one \<open>Mutex\<close>, \<open>Spinlock\<close> or
  \<open>CASLock\<close>: no two of them have it locked at once, no destructor unlocks a lock its thread does not have, and
  when no scoped lock is locked the lock is free to take.\<close>

theorem scoped_locks_exclude:
  "excludes Mutex_new Mutex_lock Mutex_unlock \<and> excludes Spinlock_new Spinlock_lock Spinlock_unlock \<and>
   excludes CASLock_new CASLock_lock CASLock_unlock"
  using pmutex.lock_excludes spin.lock_excludes cas.lock_excludes by simp

section \<open>Readers and writers\<close>

text \<open>A scoped lock of an \<open>RWMutex\<close> is for reading or for writing.\<close>

datatype scope = Reading bool | Writing bool

inductive rw_step :: "rwlock \<times> (nat \<Rightarrow> scope option) \<Rightarrow> rwlock \<times> (nat \<Rightarrow> scope option) \<Rightarrow> bool" where
  rd_construct: "sc t = None \<Longrightarrow> ReadScopedLockImpl_new RWMutex_rdlock t m = Some (m', l) \<Longrightarrow>
     rw_step (m, sc) (m', sc(t \<mapsto> Reading l))"
| rd_lock: "sc t = Some (Reading l) \<Longrightarrow> ReadScopedLockImpl_lock RWMutex_rdlock t (m, l) = Some (m', l') \<Longrightarrow>
     rw_step (m, sc) (m', sc(t \<mapsto> Reading l'))"
| rd_unlock: "sc t = Some (Reading l) \<Longrightarrow> ReadScopedLockImpl_unlock RWMutex_unlock t (m, l) = Inr (m', l') \<Longrightarrow>
     rw_step (m, sc) (m', sc(t \<mapsto> Reading l'))"
| rd_destroy: "sc t = Some (Reading l) \<Longrightarrow> ReadScopedLockImpl_delete RWMutex_unlock t (m, l) = Inr m' \<Longrightarrow>
     rw_step (m, sc) (m', sc(t := None))"
| wr_construct: "sc t = None \<Longrightarrow> WriteScopedLockImpl_new RWMutex_wrlock t m = Some (m', l) \<Longrightarrow>
     rw_step (m, sc) (m', sc(t \<mapsto> Writing l))"
| wr_lock: "sc t = Some (Writing l) \<Longrightarrow> WriteScopedLockImpl_lock RWMutex_wrlock t (m, l) = Some (m', l') \<Longrightarrow>
     rw_step (m, sc) (m', sc(t \<mapsto> Writing l'))"
| wr_unlock: "sc t = Some (Writing l) \<Longrightarrow> WriteScopedLockImpl_unlock RWMutex_unlock t (m, l) = Inr (m', l') \<Longrightarrow>
     rw_step (m, sc) (m', sc(t \<mapsto> Writing l'))"
| wr_destroy: "sc t = Some (Writing l) \<Longrightarrow> WriteScopedLockImpl_delete RWMutex_unlock t (m, l) = Inr m' \<Longrightarrow>
     rw_step (m, sc) (m', sc(t := None))"

definition rw_inv :: "rwlock \<times> (nat \<Rightarrow> scope option) \<Rightarrow> bool" where
  "rw_inv s \<longleftrightarrow>
     (\<forall>t. snd s t = Some (Writing True) \<longleftrightarrow> rw_writer (fst s) = Some t) \<and>
     (\<forall>t. snd s t = Some (Reading True) \<longrightarrow> t \<in># rw_readers (fst s)) \<and>
     (rw_writer (fst s) \<noteq> None \<longrightarrow> rw_readers (fst s) = {#})"

lemmas rw_defs = ReadScopedLockImpl_new_def ReadScopedLockImpl_lock_def ReadScopedLockImpl_unlock_def
  ReadScopedLockImpl_delete_def WriteScopedLockImpl_new_def WriteScopedLockImpl_lock_def
  WriteScopedLockImpl_unlock_def WriteScopedLockImpl_delete_def RWMutex_rdlock_def RWMutex_wrlock_def
  RWMutex_unlock_def

lemma in_diff_other: "t' \<in># M \<Longrightarrow> t' \<noteq> t \<Longrightarrow> t' \<in># M - {#t#}"
  by (simp add: in_diff_count)

lemma rw_step_inv: "rw_step s s' \<Longrightarrow> rw_inv s \<Longrightarrow> rw_inv s'"
  by (induction rule: rw_step.induct) 
    (auto simp: rw_inv_def rw_defs in_diff_other split: if_splits,
      (metis option.inject scope.inject(2) scope.distinct(1))+)

lemma rw_reachable_inv: "rw_step\<^sup>*\<^sup>* (RWMutex_new, \<lambda>t. None) s \<Longrightarrow> rw_inv s"
proof (induction rule: rtranclp_induct)
  case base
  show ?case by (simp add: rw_inv_def RWMutex_new_def)
qed (rule rw_step_inv)

text \<open>C25. However threads use scoped read and write locks of one \<open>RWMutex\<close>: while one has it locked for writing no
  other has it locked at all, and no destructor gives back what its thread does not have.\<close>

theorem readers_writers:
  assumes "rw_step\<^sup>*\<^sup>* (RWMutex_new, \<lambda>t. None) (m, sc)"
  shows "(\<forall>t t'. sc t = Some (Writing True) \<and> t' \<noteq> t \<longrightarrow> sc t' \<noteq> Some (Writing True) \<and> sc t' \<noteq> Some (Reading True)) \<and>
    (\<forall>t l. sc t = Some (Reading l) \<longrightarrow> (\<exists>m'. ReadScopedLockImpl_delete RWMutex_unlock t (m, l) = Inr m')) \<and>
    (\<forall>t l. sc t = Some (Writing l) \<longrightarrow> (\<exists>m'. WriteScopedLockImpl_delete RWMutex_unlock t (m, l) = Inr m'))"
proof -
  from rw_reachable_inv [OF assms]
  have inv: "\<And>t. sc t = Some (Writing True) \<longleftrightarrow> rw_writer m = Some t"
      "\<And>t. sc t = Some (Reading True) \<Longrightarrow> t \<in># rw_readers m" "rw_writer m \<noteq> None \<Longrightarrow> rw_readers m = {#}"
    by (auto simp: rw_inv_def)
  have "sc t' \<noteq> Some (Reading True)" if "sc t = Some (Writing True)" for t t'
    using that inv(2) [of t'] inv(1) [of t] inv(3) by auto
  moreover have "\<exists>m'. ReadScopedLockImpl_delete RWMutex_unlock t (m, l) = Inr m'" if "sc t = Some (Reading l)" for t l
    using that inv(2) [of t] by (cases l) (auto simp: rw_defs)
  moreover have "\<exists>m'. WriteScopedLockImpl_delete RWMutex_unlock t (m, l) = Inr m'" if "sc t = Some (Writing l)" for t l
    using that inv(1) [of t] by (cases l) (auto simp: rw_defs)
  ultimately show ?thesis using inv(1) by auto
qed

theorem readers_writers_witness:
  "\<exists>m. rw_step\<^sup>*\<^sup>* (RWMutex_new, \<lambda>t. None) (m, [1 \<mapsto> Writing True]) \<and>
     (\<exists>m'. WriteScopedLockImpl_delete RWMutex_unlock 1 (m, True) = Inr m')"
proof -
  have "rw_step (RWMutex_new, \<lambda>t. None) (RWMutex_new\<lparr>rw_writer := Some 1\<rparr>, [1 \<mapsto> Writing True])"
    by (rule wr_construct) (simp_all add: rw_defs RWMutex_new_def)
  then have "rw_step\<^sup>*\<^sup>* (RWMutex_new, \<lambda>t. None) (RWMutex_new\<lparr>rw_writer := Some 1\<rparr>, [1 \<mapsto> Writing True])" by blast
  from readers_writers [OF this] this show ?thesis by force
qed

text \<open>\<open>lock\<close> of a read lock that is locked takes it again, and the destructor gives it back once: nobody can
  write afterwards, at any time. After \<open>unlock\<close> it does nothing.\<close>

definition leaked :: "nat \<Rightarrow> rwlock \<times> (nat \<Rightarrow> scope option) \<Rightarrow> bool" where
  "leaked t s \<longleftrightarrow> rw_writer (fst s) = None \<and>
     count (rw_readers (fst s)) t > (if snd s t = Some (Reading True) then 1 else 0)"

lemma leaked_no_write: "leaked t (m, sc) \<Longrightarrow> RWMutex_wrlock t' m = None"
  by (auto simp: leaked_def RWMutex_wrlock_def)

lemma leaked_step:
  assumes "rw_step s s'" "rw_inv s" "leaked t s"
  shows "leaked t s'"
  using assms
proof (induction rule: rw_step.induct)
  case (wr_unlock sc t' l m m' l')
  have "sc t' \<noteq> Some (Writing True)" using wr_unlock by (auto simp: leaked_def rw_inv_def)
  then show ?case using wr_unlock by (auto simp: leaked_def rw_defs split: if_splits)
next
  case (wr_destroy sc t' l m m')
  have "sc t' \<noteq> Some (Writing True)" using wr_destroy by (auto simp: leaked_def rw_inv_def)
  then show ?case using wr_destroy by (auto simp: leaked_def rw_defs split: if_splits)
qed (auto simp: leaked_def rw_defs simp flip: count_greater_zero_iff split: if_splits)

lemma leaked_for_ever:
  assumes "rw_step\<^sup>*\<^sup>* s s'" "rw_inv s" "leaked t s"
  shows "rw_inv s' \<and> leaked t s'"
  using assms by (induction rule: rtranclp_induct) (blast intro: leaked_step rw_step_inv)+

lemma relock_leaks: "\<exists>m. rw_step\<^sup>*\<^sup>* (RWMutex_new, \<lambda>t. None) (m, \<lambda>t. None) \<and> leaked 0 (m, \<lambda>t. None)"
proof -
  let ?m = "\<lambda>n. RWMutex_new\<lparr>rw_readers := replicate_mset n 0\<rparr>"
  let ?r = "(\<lambda>t. None)(0 \<mapsto> Reading True)"
  have "rw_step (RWMutex_new, \<lambda>t. None) (?m 1, ?r)"
    by (rule rd_construct) (simp_all add: rw_defs RWMutex_new_def)
  moreover have "rw_step (?m 1, ?r) (?m 2, ?r (0 \<mapsto> Reading True))"
    by (rule rd_lock [of _ _ True]) (simp_all add: rw_defs RWMutex_new_def numeral_2_eq_2)
  moreover have "rw_step (?m 2, ?r) (?m 1, ?r (0 := None))"
    by (rule rd_destroy [of _ _ True]) (simp_all add: rw_defs RWMutex_new_def numeral_2_eq_2)
  ultimately have "rw_step\<^sup>*\<^sup>* (RWMutex_new, \<lambda>t. None) (?m 1, \<lambda>t. None)"
    by (auto intro: rtranclp.rtrancl_into_rtrancl)
  then show ?thesis by (auto simp: leaked_def RWMutex_new_def)
qed

lemma read_relock_after_unlock: "ReadScopedLockImpl_lock rdlock t (m, False) = Some (m, False)"
  by (simp add: ReadScopedLockImpl_lock_def)

section \<open>Sections under a lock\<close>

text \<open>
  The components use their locks in one way: a scoped lock is constructed, statements read and write the shared
  data, and the scoped lock is destroyed at the end of the block. A section is the list of its statements, each a
  function on the data; threads run sections from a set \<open>sections\<close> in any order, one statement per step.
\<close>

datatype 'd phase = Outside | Inside bool "('d \<Rightarrow> 'd) list"

inductive section_step :: "(nat \<Rightarrow> 'm \<Rightarrow> 'm option) \<Rightarrow> (nat \<Rightarrow> 'm \<Rightarrow> 'm result) \<Rightarrow> ('d \<Rightarrow> 'd) list set \<Rightarrow>
    'm \<times> 'd \<times> (nat \<Rightarrow> 'd phase) \<Rightarrow> 'm \<times> 'd \<times> (nat \<Rightarrow> 'd phase) \<Rightarrow> bool"
  for acquire release sections where
  enter: "ph t = Outside \<Longrightarrow> body \<in> sections \<Longrightarrow> ScopedLockImpl_new acquire t m = Some (m', l) \<Longrightarrow>
     section_step acquire release sections (m, d, ph) (m', d, ph(t := Inside l body))"
| statement: "ph t = Inside l (f # fs) \<Longrightarrow>
     section_step acquire release sections (m, d, ph) (m, f d, ph(t := Inside l fs))"
| leave: "ph t = Inside l [] \<Longrightarrow> ScopedLockImpl_delete release t (m, l) = Inr m' \<Longrightarrow>
     section_step acquire release sections (m, d, ph) (m', d, ph(t := Outside))"

definition run_section :: "('d \<Rightarrow> 'd) list \<Rightarrow> 'd \<Rightarrow> 'd" where
  "run_section body d = fold (\<lambda>f. f) body d"

definition atomic_step :: "('d \<Rightarrow> 'd) list set \<Rightarrow> 'd \<Rightarrow> 'd \<Rightarrow> bool" where
  "atomic_step sections d d' \<longleftrightarrow> (\<exists>body \<in> sections. d' = run_section body d)"

text \<open>The refinement: the data is what sections run as a whole make of it, except that one thread may be inside a
  section of which some statements are done.\<close>

definition atomic_view :: "('d \<Rightarrow> 'd) list set \<Rightarrow> 'd \<Rightarrow> 'd \<times> (nat \<Rightarrow> 'd phase) \<Rightarrow> bool" where
  "atomic_view sections d0 s \<longleftrightarrow>
     (\<exists>c. (atomic_step sections)\<^sup>*\<^sup>* d0 c \<and>
        ((\<forall>t. snd s t = Outside) \<and> fst s = c \<or>
         (\<exists>t gone rest. snd s t = Inside True rest \<and> (\<forall>t'. t' \<noteq> t \<longrightarrow> snd s t' = Outside) \<and>
            gone @ rest \<in> sections \<and> fst s = run_section gone c)))"

definition sections_atomic :: "'m \<Rightarrow> (nat \<Rightarrow> 'm \<Rightarrow> 'm option) \<Rightarrow> (nat \<Rightarrow> 'm \<Rightarrow> 'm result) \<Rightarrow> ('d \<Rightarrow> 'd) list set \<Rightarrow> 'd \<Rightarrow> bool" where
  "sections_atomic m0 acquire release sections d0 \<longleftrightarrow>
     (\<forall>m d ph. (section_step acquire release sections)\<^sup>*\<^sup>* (m0, d0, \<lambda>t. Outside) (m, d, ph) \<longrightarrow>
        atomic_view sections d0 (d, ph))"

context exclusive_lock
begin

definition section_inv :: "('d \<Rightarrow> 'd) list set \<Rightarrow> 'd \<Rightarrow> 'm \<times> 'd \<times> (nat \<Rightarrow> 'd phase) \<Rightarrow> bool" where
  "section_inv sections d0 s \<longleftrightarrow>
     (case s of (m, d, ph) \<Rightarrow>
        \<exists>h c. owned h m \<and> (atomic_step sections)\<^sup>*\<^sup>* d0 c \<and>
          (case h of
             None \<Rightarrow> (\<forall>t. ph t = Outside) \<and> d = c
           | Some t \<Rightarrow> (\<forall>t'. t' \<noteq> t \<longrightarrow> ph t' = Outside) \<and>
               (\<exists>gone rest. ph t = Inside True rest \<and> gone @ rest \<in> sections \<and> d = run_section gone c)))"

lemma section_inv_free:
  "owned None m \<Longrightarrow> (atomic_step sections)\<^sup>*\<^sup>* d0 d \<Longrightarrow> (\<And>t. ph t = Outside) \<Longrightarrow> section_inv sections d0 (m, d, ph)"
  unfolding section_inv_def by (auto intro!: exI [of _ None] exI [of _ d])

lemma section_inv_held:
  assumes "owned (Some t) m" "(atomic_step sections)\<^sup>*\<^sup>* d0 c" "\<And>t'. t' \<noteq> t \<Longrightarrow> ph t' = Outside"
    "ph t = Inside True rest" "gone @ rest \<in> sections" "d = run_section gone c"
  shows "section_inv sections d0 (m, d, ph)"
proof -
  have "\<exists>gone rest. ph t = Inside True rest \<and> gone @ rest \<in> sections \<and> d = run_section gone c"
    using assms(4-6) by blast
  then show ?thesis unfolding section_inv_def using assms(1-3) by (auto intro!: exI [of _ "Some t"] exI [of _ c])
qed

lemma section_inv_cases:
  assumes "section_inv sections d0 (m, d, ph)"
  obtains (free) "owned None m" "(atomic_step sections)\<^sup>*\<^sup>* d0 d" "\<And>t. ph t = Outside"
  | (held) t c gone rest where "owned (Some t) m" "(atomic_step sections)\<^sup>*\<^sup>* d0 c" "\<And>t'. t' \<noteq> t \<Longrightarrow> ph t' = Outside"
      "ph t = Inside True rest" "gone @ rest \<in> sections" "d = run_section gone c"
proof -
  obtain h c where h: "owned h m" "(atomic_step sections)\<^sup>*\<^sup>* d0 c"
      "case h of None \<Rightarrow> (\<forall>t. ph t = Outside) \<and> d = c
         | Some t \<Rightarrow> (\<forall>t'. t' \<noteq> t \<longrightarrow> ph t' = Outside) \<and>
             (\<exists>gone rest. ph t = Inside True rest \<and> gone @ rest \<in> sections \<and> d = run_section gone c)"
    using assms unfolding section_inv_def by blast
  show thesis
  proof (cases h)
    case None
    then show thesis using free h by simp
  next
    case (Some t)
    then obtain gone rest where "ph t = Inside True rest" "gone @ rest \<in> sections" "d = run_section gone c"
      using h(3) by auto
    then show thesis using held [of t c rest gone] h Some by auto
  qed
qed

lemma section_step_inv:
  "section_step acquire release sections s s' \<Longrightarrow> section_inv sections d0 s \<Longrightarrow> section_inv sections d0 s'"
proof (induction rule: section_step.induct)
  case (enter ph t body m m' l d)
  then have l: "acquire t m = Some m'" "l" by (auto simp: ScopedLockImpl_new_def)
  from enter(4) show ?case
  proof (cases rule: section_inv_cases)
    case free
    have "owned (Some t) m'" using acquire_owned [OF free(1) l(1)] by simp
    then show ?thesis
      using free(2,3) enter(2) l(2)
      by (intro section_inv_held [where gone = "[]" and rest = body and c = d]) (auto simp: run_section_def)
  next
    case (held t' c gone rest)
    then show ?thesis using acquire_owned [OF held(1) l(1)] by simp
  qed
next
  case (statement ph t l f fs m d)
  from statement(2) show ?case
  proof (cases rule: section_inv_cases)
    case free
    then show ?thesis using statement(1) by simp
  next
    case (held t' c gone rest)
    have t: "t' = t" using held(3) [of t] statement(1) by (cases "t' = t") auto
    then have "l" "rest = f # fs" using held(4) statement(1) by auto
    then show ?thesis
      using held t
      by (intro section_inv_held [where gone = "gone @ [f]" and rest = fs and c = c and t = t]) (auto simp: run_section_def)
  qed
next
  case (leave ph t l m m' d)
  from leave(3) show ?case
  proof (cases rule: section_inv_cases)
    case free
    then show ?thesis using leave(1) by simp
  next
    case (held t' c gone rest)
    have t: "t' = t" using held(3) [of t] leave(1) by (cases "t' = t") auto
    then have r: "l" "rest = []" using held(4) leave(1) by auto
    then have "release t m = Inr m'"
      using leave(2) by (auto simp: ScopedLockImpl_delete_def ScopedLockImpl_unlock_def rbind_eq_Inr)
    then have "owned None m'" using release_owned [of t m] held(1) t by auto
    moreover have "atomic_step sections c d" using held(5,6) r(2) by (auto simp: atomic_step_def)
    then have "(atomic_step sections)\<^sup>*\<^sup>* d0 d" using held(2) by simp
    ultimately show ?thesis using held(3) t by (intro section_inv_free) auto
  qed
qed

lemma lock_sections_atomic: "sections_atomic m0 acquire release sections d0"
  unfolding sections_atomic_def
proof (intro allI impI)
  fix m d ph
  assume "(section_step acquire release sections)\<^sup>*\<^sup>* (m0, d0, \<lambda>t. Outside) (m, d, ph)"
  then have "section_inv sections d0 (m, d, ph)"
  proof (induction rule: rtranclp_induct)
    case base
    show ?case using owned_new by (intro section_inv_free) auto
  qed (rule section_step_inv)
  then show "atomic_view sections d0 (d, ph)"
    by (cases rule: section_inv_cases) (auto simp: atomic_view_def; blast)+
qed

end

text \<open>C24. Sections under a scoped lock are atomic, whichever of the three locks it is and however the threads
  interleave: at every moment the shared data is what sections run one after the other make of it, but for the
  statements of the one section a thread may be in.\<close>

theorem sections_are_atomic:
  "sections_atomic Mutex_new Mutex_lock Mutex_unlock sections d0 \<and>
   sections_atomic Spinlock_new Spinlock_lock Spinlock_unlock sections d0 \<and>
   sections_atomic CASLock_new CASLock_lock CASLock_unlock sections d0"
  by (intro conjI pmutex.lock_sections_atomic spin.lock_sections_atomic cas.lock_sections_atomic)

end
