(* ===== verification/Thread.thy ===== *)
theory Thread
  imports Mutex
begin

text \<open>
  Threads (\<open>sylar/thread.h\<close>, \<open>sylar/thread.cpp\<close>). The constructor creates the thread and waits on the semaphore of
  the object until the new thread has copied what it needs; both run at once, so the handshake is a step relation
  with one statement of the constructor or of \<open>Thread::run\<close> per step. What \<open>pthread_create\<close> and \<open>pthread_join\<close>
  return is an argument; the body of the callback is not part of this model, only that it is called.
\<close>

section \<open>The object and its operations\<close>

record thread_obj =
  th_id :: int
  th_thread :: nat
  th_cb :: "closure option"
  th_name :: string
  th_sem :: nat

text \<open>The variables \<open>t_thread\<close> (as the object of the running thread) and \<open>t_thread_name\<close>.\<close>

definition Thread_SetName :: "string \<Rightarrow> thread_obj option \<times> string \<Rightarrow> thread_obj option \<times> string" where
  "Thread_SetName name st =
     (case st of (t_thread, t_thread_name) \<Rightarrow>
        if name = [] then (t_thread, t_thread_name)
        else (map_option (\<lambda>ob. ob\<lparr>th_name := name\<rparr>) t_thread, name))"

definition Thread_join :: "int \<Rightarrow> thread_obj \<Rightarrow> thread_obj result" where
  "Thread_join rt ob =
     (if th_thread ob \<noteq> 0
      then if rt \<noteq> 0 then Inl (Thrown ''pthread_join error'') else Inr (ob\<lparr>th_thread := 0\<rparr>)
      else Inr ob)"

text \<open>The thread the destructor detaches.\<close>

definition Thread_delete :: "thread_obj \<Rightarrow> nat option" where
  "Thread_delete ob = (if th_thread ob \<noteq> 0 then Some (th_thread ob) else None)"

definition Thread_fields :: "closure \<Rightarrow> string \<Rightarrow> thread_obj" where
  "Thread_fields cb name =
     \<lparr>th_id = -1, th_thread = 0, th_cb = Some cb, th_name = (if name = [] then ''UNKNOW'' else name), th_sem = 0\<rparr>"

section \<open>The handshake\<close>

datatype ctor_pc = Create | Wait | Returned | Threw
datatype run_pc = NotStarted | SetThis | SetThreadName | SetId | SetSystemName | SwapCb | Notify | Call | Finished

record handshake =
  hs_ctor :: ctor_pc
  hs_run :: run_pc
  hs_obj :: thread_obj
  hs_this :: bool
  hs_thread_name :: string
  hs_system_name :: string
  hs_cb :: "closure option"
  hs_called :: "closure list"

definition handshake_start :: "closure \<Rightarrow> string \<Rightarrow> handshake" where
  "handshake_start cb name =
     \<lparr>hs_ctor = Create, hs_run = NotStarted, hs_obj = Thread_fields cb name, hs_this = False,
      hs_thread_name = ''UNKNOW'', hs_system_name = [], hs_cb = None, hs_called = []\<rparr>"

text \<open>The constructor: \<open>created\<close> is the handle \<open>pthread_create\<close> stores, \<open>None\<close> when it fails. \<open>None\<close> as a result:
  no statement of it can run.\<close>

fun ctor_next :: "nat option \<Rightarrow> bool \<Rightarrow> handshake \<Rightarrow> handshake option" where
  "ctor_next created interrupted s =
     (case hs_ctor s of
        Create \<Rightarrow>
          (case created of
             None \<Rightarrow> Some (s\<lparr>hs_ctor := Threw\<rparr>)
           | Some h \<Rightarrow> Some (s\<lparr>hs_ctor := Wait, hs_run := SetThis, hs_obj := (hs_obj s)\<lparr>th_thread := h\<rparr>\<rparr>))
      | Wait \<Rightarrow>
          (case Semaphore_wait interrupted (th_sem (hs_obj s)) of
             None \<Rightarrow> None
           | Some (Inl e) \<Rightarrow> Some (s\<lparr>hs_ctor := Threw\<rparr>)
           | Some (Inr n) \<Rightarrow> Some (s\<lparr>hs_ctor := Returned, hs_obj := (hs_obj s)\<lparr>th_sem := n\<rparr>\<rparr>))
      | Returned \<Rightarrow> None
      | Threw \<Rightarrow> None)"

text \<open>\<open>Thread::run\<close> in the thread with the number \<open>tid\<close>.\<close>

fun run_next :: "int \<Rightarrow> handshake \<Rightarrow> handshake option" where
  "run_next tid s =
     (case hs_run s of
        NotStarted \<Rightarrow> None
      | SetThis \<Rightarrow> Some (s\<lparr>hs_run := SetThreadName, hs_this := True\<rparr>)
      | SetThreadName \<Rightarrow> Some (s\<lparr>hs_run := SetId, hs_thread_name := th_name (hs_obj s)\<rparr>)
      | SetId \<Rightarrow> Some (s\<lparr>hs_run := SetSystemName, hs_obj := (hs_obj s)\<lparr>th_id := tid\<rparr>\<rparr>)
      | SetSystemName \<Rightarrow> Some (s\<lparr>hs_run := SwapCb, hs_system_name := take 15 (th_name (hs_obj s))\<rparr>)
      | SwapCb \<Rightarrow> Some (s\<lparr>hs_run := Notify, hs_cb := th_cb (hs_obj s), hs_obj := (hs_obj s)\<lparr>th_cb := hs_cb s\<rparr>\<rparr>)
      | Notify \<Rightarrow>
          (case Semaphore_notify (th_sem (hs_obj s)) of
             Inl e \<Rightarrow> None
           | Inr n \<Rightarrow> Some (s\<lparr>hs_run := Call, hs_obj := (hs_obj s)\<lparr>th_sem := n\<rparr>\<rparr>))
      | Call \<Rightarrow> (case hs_cb s of None \<Rightarrow> None | Some cb \<Rightarrow> Some (s\<lparr>hs_run := Finished, hs_called := hs_called s @ [cb]\<rparr>))
      | Finished \<Rightarrow> None)"

inductive hs_step :: "nat option \<Rightarrow> int \<Rightarrow> handshake \<Rightarrow> handshake \<Rightarrow> bool" for created tid where
  ctor: "ctor_next created False s = Some s' \<Longrightarrow> hs_step created tid s s'"
| run: "run_next tid s = Some s' \<Longrightarrow> hs_step created tid s s'"

declare ctor_next.simps [simp del] run_next.simps [simp del]

section \<open>What the handshake guarantees\<close>

definition hs_inv :: "nat \<Rightarrow> int \<Rightarrow> closure \<Rightarrow> string \<Rightarrow> handshake \<Rightarrow> bool" where
  "hs_inv h tid cb name s \<longleftrightarrow>
     hs_ctor s \<noteq> Threw \<and> (hs_run s = NotStarted \<longleftrightarrow> hs_ctor s = Create) \<and>
     (hs_ctor s = Returned \<longrightarrow> hs_run s \<in> {Call, Finished}) \<and>
     hs_obj s =
       \<lparr>th_id = (if hs_run s \<in> {SetSystemName, SwapCb, Notify, Call, Finished} then tid else -1),
        th_thread = (if hs_run s = NotStarted then 0 else h),
        th_cb = (if hs_run s \<in> {Notify, Call, Finished} then None else Some cb),
        th_name = (if name = [] then ''UNKNOW'' else name),
        th_sem = (if hs_ctor s = Wait \<and> hs_run s \<in> {Call, Finished} then 1 else 0)\<rparr> \<and>
     hs_cb s = (if hs_run s \<in> {Notify, Call, Finished} then Some cb else None) \<and>
     hs_called s = (if hs_run s = Finished then [cb] else [])"

lemma hs_inv_start: "hs_inv h tid cb name (handshake_start cb name)"
  by (simp add: hs_inv_def handshake_start_def Thread_fields_def)

lemma hs_inv_ctor: "hs_inv h tid cb name s \<Longrightarrow> pred_option (hs_inv h tid cb name) (ctor_next (Some h) False s)"
  unfolding ctor_next.simps hs_inv_def
  by (cases "hs_ctor s") (simp_all add: Semaphore_wait_def)

lemma hs_inv_run: "hs_inv h tid cb name s \<Longrightarrow> pred_option (hs_inv h tid cb name) (run_next tid s)"
  unfolding run_next.simps hs_inv_def
  by (cases "hs_run s") (simp_all add: Semaphore_notify_def SEM_VALUE_MAX_def, metis ctor_pc.exhaust)

lemma hs_inv_reachable:
  "(hs_step (Some h) tid)\<^sup>*\<^sup>* (handshake_start cb name) s \<Longrightarrow> hs_inv h tid cb name s"
proof (induction rule: rtranclp_induct)
  case (step s s')
  then show ?case using hs_inv_ctor [of h tid cb name s] hs_inv_run [of h tid cb name s]
    by (auto elim: hs_step.cases)
qed (rule hs_inv_start)

text \<open>The statements that are left.\<close>

definition hs_left :: "handshake \<Rightarrow> nat" where
  "hs_left s =
     (case hs_ctor s of Create \<Rightarrow> 10 | Wait \<Rightarrow> 1 | Returned \<Rightarrow> 0 | Threw \<Rightarrow> 0) +
     (case hs_run s of NotStarted \<Rightarrow> 8 | SetThis \<Rightarrow> 7 | SetThreadName \<Rightarrow> 6 | SetId \<Rightarrow> 5 | SetSystemName \<Rightarrow> 4
        | SwapCb \<Rightarrow> 3 | Notify \<Rightarrow> 2 | Call \<Rightarrow> 1 | Finished \<Rightarrow> 0)"

lemma hs_step_left: "hs_step (Some h) tid s s' \<Longrightarrow> hs_left s' < hs_left s"
proof (induction rule: hs_step.induct)
  case (ctor s s')
  then show ?case
    unfolding ctor_next.simps
    by (cases "hs_ctor s"; cases "hs_run s") (auto simp: hs_left_def split: option.splits sum.splits)
next
  case (run s s')
  then show ?case
    unfolding run_next.simps
    by (cases "hs_run s") (auto simp: hs_left_def split: option.splits sum.splits)
qed

lemma hs_progress:
  assumes "hs_inv h tid cb name s" "\<not> (hs_ctor s = Returned \<and> hs_run s = Finished)"
  shows "\<exists>s'. hs_step (Some h) tid s s'"
proof (cases "hs_run s \<in> {NotStarted, Finished}")
  case True
  then have "\<exists>s'. ctor_next (Some h) False s = Some s'"
    using assms unfolding ctor_next.simps
    by (cases "hs_ctor s") (auto simp: hs_inv_def Semaphore_wait_def)
  then show ?thesis by (blast intro: hs_step.ctor)
next
  case False
  then have "\<exists>s'. run_next tid s = Some s'"
    using assms unfolding run_next.simps
    by (cases "hs_run s") (auto simp: hs_inv_def Semaphore_notify_def SEM_VALUE_MAX_def)
  then show ?thesis by (blast intro: hs_step.run)
qed

lemma hs_completes:
  "hs_inv h tid cb name s \<Longrightarrow>
     \<exists>s'. (hs_step (Some h) tid)\<^sup>*\<^sup>* s s' \<and> hs_inv h tid cb name s' \<and> hs_ctor s' = Returned \<and> hs_run s' = Finished"
proof (induction s rule: measure_induct_rule [where f = hs_left])
  case (less s)
  show ?case
  proof (cases "hs_ctor s = Returned \<and> hs_run s = Finished")
    case False
    from hs_progress [OF less.prems this] obtain s1 where s1: "hs_step (Some h) tid s s1" by blast
    then have "hs_inv h tid cb name s1"
      using less.prems hs_inv_ctor [of h tid cb name s] hs_inv_run [of h tid cb name s] by (auto elim: hs_step.cases)
    with less.IH [OF hs_step_left [OF s1] this] s1 show ?thesis by (meson converse_rtranclp_into_rtranclp)
  qed (use less.prems in blast)
qed

text \<open>C26. Whatever the order in which the constructor of a thread and the new thread run: when the constructor has
  returned, the object has the number and the handle of the thread and the callback has left it; the callback
  is called once at most; and from every state both come to their end, with the constructor returned and the
  callback called.\<close>

theorem constructor_handshake:
  assumes "(hs_step (Some h) tid)\<^sup>*\<^sup>* (handshake_start cb name) s"
  shows "(hs_ctor s = Returned \<longrightarrow> th_id (hs_obj s) = tid \<and> th_thread (hs_obj s) = h \<and> th_cb (hs_obj s) = None \<and> hs_cb s = Some cb) \<and>
    hs_called s \<in> {[], [cb]} \<and>
    (\<forall>s'. hs_step (Some h) tid s s' \<longrightarrow> hs_left s' < hs_left s) \<and>
    ((\<nexists>s'. hs_step (Some h) tid s s') \<longrightarrow> hs_ctor s = Returned \<and> hs_called s = [cb]) \<and>
    (\<exists>s'. (hs_step (Some h) tid)\<^sup>*\<^sup>* s s' \<and> hs_ctor s' = Returned \<and> hs_called s' = [cb])"
proof -
  note inv = hs_inv_reachable [OF assms]
  have "hs_ctor s = Returned \<and> hs_called s = [cb]" if "\<nexists>s'. hs_step (Some h) tid s s'"
    using hs_progress [OF inv] that inv by (auto simp: hs_inv_def)
  moreover have "\<exists>s'. (hs_step (Some h) tid)\<^sup>*\<^sup>* s s' \<and> hs_ctor s' = Returned \<and> hs_called s' = [cb]"
    using hs_completes [OF inv] by (auto simp: hs_inv_def)
  moreover have "hs_ctor s = Returned \<longrightarrow>
      th_id (hs_obj s) = tid \<and> th_thread (hs_obj s) = h \<and> th_cb (hs_obj s) = None \<and> hs_cb s = Some cb"
    using inv by (auto simp: hs_inv_def)
  moreover have "hs_called s \<in> {[], [cb]}" using inv by (auto simp: hs_inv_def)
  ultimately show ?thesis using hs_step_left by blast
qed

theorem constructor_handshake_witness:
  "\<exists>s'. (hs_step (Some 5) 100)\<^sup>*\<^sup>* (handshake_start (UserFn 0) ''worker'') s' \<and>
     hs_ctor s' = Returned \<and> hs_called s' = [UserFn 0]"
  using constructor_handshake [where h = 5 and tid = 100 and cb = "UserFn 0" and name = "''worker''", OF rtranclp.rtrancl_refl] by blast

section \<open>Error paths\<close>

text \<open>A signal while the constructor waits makes \<open>Semaphore::wait\<close> throw: the constructor leaves by an exception, and
  the object is gone, with the new thread still to read its name and callback.\<close>

lemma interrupted_constructor_throws:
  assumes "hs_ctor s = Wait" "th_sem (hs_obj s) = 0"
  shows "ctor_next created True s = Some (s\<lparr>hs_ctor := Threw\<rparr>)"
  using assms by (simp add: ctor_next.simps Semaphore_wait_def)

lemma join_once:
  assumes "Thread_join 0 ob = Inr ob'"
  shows "Thread_join rt ob' = Inr ob' \<and> Thread_delete ob' = None"
  using assms by (auto simp: Thread_join_def Thread_delete_def split: if_splits)

lemma SetName_renames:
  assumes "name \<noteq> []"
  shows "Thread_SetName name (Some ob, n) = (Some (ob\<lparr>th_name := name\<rparr>), name)"
    and "Thread_SetName name (None, n) = (None, name)"
  using assms by (simp_all add: Thread_SetName_def)

end
