(* ===== verification/SysUtil.thy ===== *)
theory SysUtil
  imports StringUtil
begin

unbundle bit_operations_syntax

text \<open>
  The helpers of \<open>sylar/util.h\<close> and \<open>sylar/util.cpp\<close> that ask the system: backtraces, calendar time, formatted text,
  names and addresses of the host; and the templates that read and write values and vectors. What the C and
  C++ libraries answer is an argument: the symbols of a backtrace, the demangled form of a name, the text of
  \<open>strftime\<close>, \<open>vasprintf\<close> and \<open>gethostname\<close>.
\<close>

section \<open>Backtraces\<close>

text \<open>The scans of \<open>demangle\<close>. The first has three parts, none of which may be empty: up to an opening bracket, up to
  an underscore, and at most 255 characters up to a closing bracket or a plus sign, which are kept.\<close>

definition scan_symbol :: "string \<Rightarrow> string option" where
  "scan_symbol str =
     (let a = takeWhile (\<lambda>c. c \<noteq> CHR ''('') str; str1 = dropWhile (\<lambda>c. c \<noteq> CHR ''('') str;
          b = takeWhile (\<lambda>c. c \<noteq> CHR ''_'') str1; str2 = dropWhile (\<lambda>c. c \<noteq> CHR ''_'') str1;
          w = take 255 (takeWhile (\<lambda>c. c \<noteq> CHR '')'' \<and> c \<noteq> CHR ''+'') str2)
      in if a = [] \<or> b = [] \<or> w = [] then None else Some w)"

definition scan_word :: "string \<Rightarrow> string option" where
  "scan_word str =
     (let w = take 255 (takeWhile (\<lambda>c. \<not> isspace c) (dropWhile isspace str)) in if w = [] then None else Some w)"

text \<open>Writing a C string over the start of a \<open>std::string\<close>.\<close>

definition write_c_string :: "string \<Rightarrow> string \<Rightarrow> string" where
  "write_c_string w rt = w @ [CHR 0x00] @ drop (length w + 1) rt"

definition demangle :: "(string \<Rightarrow> string option) \<Rightarrow> string \<Rightarrow> string" where
  "demangle cxa_demangle str =
     (let rt = replicate 256 (CHR 0x00);
          word = (\<lambda>rt. case scan_word str of Some w \<Rightarrow> write_c_string w rt | None \<Rightarrow> str)
      in case scan_symbol str of
           Some w \<Rightarrow> (case cxa_demangle w of Some v \<Rightarrow> v | None \<Rightarrow> word (write_c_string w rt))
         | None \<Rightarrow> word rt)"

text \<open>\<open>symbols\<close> is what \<open>backtrace_symbols\<close> gives for the frames, \<open>None\<close> when it fails. \<open>skip\<close> becomes a \<open>size_t\<close>, so
  that a negative one is larger than every index.\<close>

definition Backtrace :: "(string \<Rightarrow> string option) \<Rightarrow> string list option \<Rightarrow> int \<Rightarrow> string list \<Rightarrow> string list" where
  "Backtrace cxa_demangle symbols skip bt =
     (case symbols of
        None \<Rightarrow> bt
      | Some strings \<Rightarrow> bt @ map (demangle cxa_demangle) (if skip < 0 then [] else drop (nat skip) strings))"

definition BacktraceToString :: "(string \<Rightarrow> string option) \<Rightarrow> string list option \<Rightarrow> int \<Rightarrow> string \<Rightarrow> string" where
  "BacktraceToString cxa_demangle symbols skip prefix =
     concat (map (\<lambda>s. prefix @ s @ [CHR 0x0A]) (Backtrace cxa_demangle symbols skip []))"

lemma takeWhile_zero: "takeWhile (\<lambda>c. c \<noteq> z) (w @ z # r) = takeWhile (\<lambda>c. c \<noteq> z) w"
  by (induction w) auto

text \<open>A symbol that is not demangled comes back with the length of the buffer, padded with zero bytes.\<close>

lemma demangle_padded:
  assumes "\<And>w. scan_symbol str = Some w \<Longrightarrow> cxa_demangle w = None" and "scan_word str = Some w"
  shows "length (demangle cxa_demangle str) = 256 \<and> takeWhile (\<lambda>c. c \<noteq> CHR 0x00) (demangle cxa_demangle str) =
    takeWhile (\<lambda>c. c \<noteq> CHR 0x00) w"
proof -
  have w: "length w \<le> 255" using assms(2) by (auto simp: scan_word_def Let_def split: if_splits)
  have s: "length v \<le> 255" if "scan_symbol str = Some v" for v
    using that by (auto simp: scan_symbol_def Let_def split: if_splits)
  have written: "length (write_c_string v rt) = 256" if "length v \<le> 255" "length rt = 256" for v rt
    using that by (simp add: write_c_string_def)
  have "\<exists>rt. length rt = 256 \<and> demangle cxa_demangle str = write_c_string w rt"
  proof (cases "scan_symbol str")
    case None
    then show ?thesis using assms(2)
      by (intro exI [of _ "replicate 256 (CHR 0x00)"]) (simp add: demangle_def)
  next
    case (Some v)
    then show ?thesis using assms(1) [OF Some] assms(2) written [OF s [OF Some], of "replicate 256 (CHR 0x00)"]
      by (intro exI [of _ "write_c_string v (replicate 256 (CHR 0x00))"]) (simp add: demangle_def)
  qed
  then show ?thesis using written [OF w] by (auto simp: write_c_string_def takeWhile_zero)
qed

lemma negative_skip_empty: "skip < 0 \<Longrightarrow> Backtrace cxa_demangle symbols skip bt = bt"
  by (simp add: Backtrace_def split: option.splits)

section \<open>Text of the system\<close>

text \<open>\<open>strftime\<close> writes to a buffer of 64 bytes and leaves it undefined when the text does not fit.\<close>

definition Time2Str :: "(int \<Rightarrow> string \<Rightarrow> string) \<Rightarrow> int \<Rightarrow> string \<Rightarrow> string result" where
  "Time2Str strftime ts format =
     (let s = strftime ts format in
      if length s < 64 then Inr (takeWhile (\<lambda>c. c \<noteq> CHR 0x00) s) else Inl (Undefined ''Time2Str: buf''))"

definition Str2Time :: "(string \<Rightarrow> string \<Rightarrow> 'tm option) \<Rightarrow> ('tm \<Rightarrow> int) \<Rightarrow> string \<Rightarrow> string \<Rightarrow> int" where
  "Str2Time strptime mktime str format = (case strptime str format of None \<Rightarrow> 0 | Some t \<Rightarrow> mktime t)"

definition Formatv :: "string option \<Rightarrow> string" where
  "Formatv vasprintf = (case vasprintf of None \<Rightarrow> [] | Some ret \<Rightarrow> ret)"

definition StringUtil_Format :: "string option \<Rightarrow> string" where
  "StringUtil_Format vasprintf = Formatv vasprintf"

text \<open>
  The conversions of wide strings, with the locale of the process as the state. \<open>env_locale\<close> is what
  \<open>setlocale(LC_ALL, "")\<close> selects and returns, \<open>None\<close> when it fails and returns null; \<open>wcstombs\<close> and \<open>mbstowcs\<close>
  convert in a locale, \<open>None\<close> when a character has no counterpart. Then the size is \<open>(size_t)-1 + 1 = 0\<close> and the
  result is read from an array without elements.
\<close>

definition WStringToString :: "string option \<Rightarrow> (string \<Rightarrow> nat list \<Rightarrow> string option) \<Rightarrow> nat list \<Rightarrow> string \<Rightarrow>
    (string \<times> string) result" where
  "WStringToString env_locale wcstombs ws locale =
     (case env_locale of
        None \<Rightarrow> Inl (Undefined ''std::string(nullptr)'')
      | Some str_locale \<Rightarrow>
          (case wcstombs str_locale ws of
             None \<Rightarrow> Inl (Undefined ''ch_dest'')
           | Some bytes \<Rightarrow> Inr (takeWhile (\<lambda>c. c \<noteq> CHR 0x00) bytes, str_locale)))"

definition StringToWString :: "string option \<Rightarrow> (string \<Rightarrow> string \<Rightarrow> nat list option) \<Rightarrow> string \<Rightarrow> string \<Rightarrow>
    (nat list \<times> string) result" where
  "StringToWString env_locale mbstowcs s locale =
     (case env_locale of
        None \<Rightarrow> Inl (Undefined ''std::string(nullptr)'')
      | Some str_locale \<Rightarrow>
          (case mbstowcs str_locale (takeWhile (\<lambda>c. c \<noteq> CHR 0x00) s) of
             None \<Rightarrow> Inl (Undefined ''wch_dest'')
           | Some wcs \<Rightarrow> Inr (takeWhile (\<lambda>w. w \<noteq> 0) wcs, str_locale)))"

text \<open>The locale saved is the one just selected, so the old one is not restored.\<close>

lemma locale_not_restored:
  "WStringToString env_locale wcstombs ws locale = Inr (s, locale') \<Longrightarrow> env_locale = Some locale'"
  "StringToWString env_locale mbstowcs s locale = Inr (ws, locale') \<Longrightarrow> env_locale = Some locale'"
  by (auto simp: WStringToString_def StringToWString_def split: option.splits)

text \<open>Text without zero characters that converts both ways in the locale of the environment comes back.\<close>

lemma wide_string_round_trip:
  assumes "env_locale = Some l" "mbstowcs l s = Some ws" "wcstombs l ws = Some s" "CHR 0x00 \<notin> set s" "0 \<notin> set ws"
  shows "rbind (StringToWString env_locale mbstowcs s locale) (\<lambda>(w, l). WStringToString env_locale wcstombs w l) = Inr (s, l)"
proof -
  have tw: "takeWhile (\<lambda>c. c \<noteq> CHR 0x00) s = s" "takeWhile ((<) 0) ws = ws"
    using assms(4,5) by (auto simp: takeWhile_eq_all_conv intro!: gr0I)
  then show ?thesis using assms(1-3) by (simp add: StringToWString_def WStringToString_def tw)
qed

text \<open>A buffer of 512 zero bytes of which the call may fill 511.\<close>

definition GetHostName :: "string option \<Rightarrow> string" where
  "GetHostName gethostname =
     (let host = (case gethostname of None \<Rightarrow> [] | Some name \<Rightarrow> take 511 name);
          buf = host @ replicate (512 - length host) (CHR 0x00)
      in takeWhile (\<lambda>c. c \<noteq> CHR 0x00) buf)"

lemma GetHostName_bounded: "length (GetHostName gethostname) < 512 \<and> CHR 0x00 \<notin> set (GetHostName gethostname)"
proof -
  have "length host \<le> 511 \<Longrightarrow>
      length (takeWhile (\<lambda>c. c \<noteq> CHR 0x00) (host @ replicate (512 - length host) (CHR 0x00))) \<le> length host" for host
    by (cases "\<forall>c \<in> set host. c \<noteq> CHR 0x00")
      (auto simp: takeWhile_append takeWhile_replicate length_takeWhile_le)
  from this [of "case gethostname of None \<Rightarrow> [] | Some name \<Rightarrow> take 511 name"]
  show ?thesis by (auto simp: GetHostName_def Let_def dest: set_takeWhileD split: option.splits)
qed

text \<open>\<open>inet_ntop\<close> of an address in network order on a little-endian machine.\<close>

definition GetIPv4_text :: "ifaddrs list option \<Rightarrow> string" where
  "GetIPv4_text ifas =
     (let ia = GetIPv4Inet ifas;
          octet = (\<lambda>i. show_nat (unat (drop_bit (8 * i) ia AND 0xFF)))
      in octet 0 @ ''.'' @ octet 1 @ ''.'' @ octet 2 @ ''.'' @ octet 3)"

section \<open>Pointers to text\<close>

definition ToChar_ptr :: "string option \<Rightarrow> int" where
  "ToChar_ptr str = (case str of None \<Rightarrow> 0 | Some s \<Rightarrow> if s = [] then 0 else sint (byte_of (hd s)))"

definition Atoi_ptr :: "string option \<Rightarrow> int" where
  "Atoi_ptr str = (case str of None \<Rightarrow> 0 | Some s \<Rightarrow> sint (strtoull s))"

definition Atof :: "(string \<Rightarrow> 'd::zero) \<Rightarrow> string \<Rightarrow> 'd" where
  "Atof atof str = (if str = [] then 0 else atof str)"

definition Atof_ptr :: "(string \<Rightarrow> 'd::zero) \<Rightarrow> string option \<Rightarrow> 'd" where
  "Atof_ptr atof str = (case str of None \<Rightarrow> 0 | Some s \<Rightarrow> atof s)"

section \<open>Values and vectors on streams\<close>

text \<open>A vector is the list of the bytes of its elements, which all have the size of their type. The address of
  its first element is undefined when it has none.\<close>

definition ReadFromStream :: "nat \<Rightarrow> istream \<Rightarrow> bool \<times> u8 list \<times> istream" where
  "ReadFromStream type_size is = ReadFixFromStream type_size is"

definition ReadFromStream_vector :: "nat \<Rightarrow> nat \<Rightarrow> istream \<Rightarrow> (bool \<times> u8 list \<times> istream) result" where
  "ReadFromStream_vector type_size n is =
     (if n = 0 then Inl (Undefined ''&v[0]'') else Inr (ReadFixFromStream (type_size * n) is))"

definition WriteToStream_vector :: "u8 list list \<Rightarrow> ostream \<Rightarrow> (bool \<times> ostream) result" where
  "WriteToStream_vector v os =
     (if \<not> os_good os then Inr (False, os)
      else if v = [] then Inl (Undefined ''&v[0]'')
      else (let os' = stream_write (concat v) os in Inr (os_good os', os')))"

definition WriteToStreamWithSpeed :: "nat \<Rightarrow> u8 list \<Rightarrow> ostream \<Rightarrow> bool \<times> ostream" where
  "WriteToStreamWithSpeed step v os = (if os_good os then WriteFixToStreamWithSpeed step v os else (False, os))"

definition WriteToStreamWithSpeed_vector :: "nat \<Rightarrow> u8 list list \<Rightarrow> ostream \<Rightarrow> (bool \<times> ostream) result" where
  "WriteToStreamWithSpeed_vector step v os =
     (if os_good os then (if v = [] then Inl (Undefined ''&v[0]'') else Inr (WriteFixToStreamWithSpeed step (concat v) os))
      else Inr (False, os))"

definition ReadFromStreamWithSpeed :: "(u32 \<Rightarrow> u32 \<Rightarrow> int) \<Rightarrow> (nat \<Rightarrow> u64) \<Rightarrow> nat \<Rightarrow> bool \<Rightarrow> u64 \<Rightarrow> nat \<Rightarrow> istream \<Rightarrow>
    bool \<times> u8 list \<times> istream" where
  "ReadFromStreamWithSpeed quot clock step is_file speed type_size is =
     (if is_good is then ReadFixFromStreamWithSpeed quot clock step is_file speed type_size is else (False, [], is))"

definition ReadFromStreamWithSpeed_vector :: "(u32 \<Rightarrow> u32 \<Rightarrow> int) \<Rightarrow> (nat \<Rightarrow> u64) \<Rightarrow> nat \<Rightarrow> bool \<Rightarrow> u64 \<Rightarrow> nat \<Rightarrow> nat \<Rightarrow>
    istream \<Rightarrow> (bool \<times> u8 list \<times> istream) result" where
  "ReadFromStreamWithSpeed_vector quot clock step is_file speed type_size n is =
     (if is_good is
      then (if n = 0 then Inl (Undefined ''&v[0]'')
            else Inr (ReadFixFromStreamWithSpeed quot clock step is_file speed (type_size * n) is))
      else Inr (False, [], is))"

text \<open>A vector written to a stream with enough room is read back.\<close>

lemma vector_round_trip:
  assumes "v \<noteq> []" "\<forall>x \<in> set v. length x = type_size" "os_good os" "length (concat v) \<le> os_room os"
  shows "\<exists>os' is'. WriteToStream_vector v os = Inr (True, os') \<and> os_bytes os' = os_bytes os @ concat v \<and>
    ReadFromStream_vector type_size (length v) \<lparr>is_bytes = concat v @ rest, is_good = True\<rparr> = Inr (True, concat v, is') \<and>
    is_bytes is' = rest"
proof -
  have "length (concat v) = type_size * length v" using assms(2) by (induction v) auto
  then show ?thesis
    using assms by (simp add: WriteToStream_vector_def stream_write_def ReadFromStream_vector_def
        ReadFixFromStream_def ReadFix_loop_read stream_read_def)
qed

end
