(* ===== verification/SharedArray.thy ===== *)
theory SharedArray
  imports Prelude
begin

text \<open>
  \<open>SharedArray\<close> and \<open>delete_array\<close> of \<open>sylar/util.h\<close>. An object is a size and a shared pointer; a shared pointer is a
  control block, which has the use count and the pointer, as the standard describes them. The heap has the control
  blocks and the arrays allocated with \<open>new T[n]\<close>; address 0 is the null pointer. Deleting an array that is not
  there is undefined. A program is any sequence of allocations and operations on a list of objects.
\<close>

section \<open>Heap and shared pointers\<close>

record 'a heap =
  hp_arrays :: "nat \<rightharpoonup> 'a list"
  hp_blocks :: "nat \<rightharpoonup> nat \<times> nat"

record shared_array =
  sa_size :: u64
  sa_block :: nat

definition delete_array :: "nat \<Rightarrow> 'a heap \<Rightarrow> 'a heap result" where
  "delete_array v hp =
     (if v = 0 then Inr hp
      else if hp_arrays hp v = None then Inl (Undefined ''delete[]'')
      else Inr (hp\<lparr>hp_arrays := (hp_arrays hp)(v := None)\<rparr>))"

text \<open>One more, and one less, owner of a control block; the last one calls the deleter.\<close>

definition retain :: "nat \<Rightarrow> 'a heap \<Rightarrow> 'a heap result" where
  "retain c hp =
     (case hp_blocks hp c of
        None \<Rightarrow> Inl (Undefined ''shared_ptr'')
      | Some (n, p) \<Rightarrow> Inr (hp\<lparr>hp_blocks := (hp_blocks hp)(c \<mapsto> (n + 1, p))\<rparr>))"

definition release :: "nat \<Rightarrow> 'a heap \<Rightarrow> 'a heap result" where
  "release c hp =
     (case hp_blocks hp c of
        None \<Rightarrow> Inl (Undefined ''shared_ptr'')
      | Some (n, p) \<Rightarrow>
          if n = 1 then delete_array p (hp\<lparr>hp_blocks := (hp_blocks hp)(c := None)\<rparr>)
          else Inr (hp\<lparr>hp_blocks := (hp_blocks hp)(c \<mapsto> (n - 1, p))\<rparr>))"

definition block_ptr :: "'a heap \<Rightarrow> nat \<Rightarrow> nat" where
  "block_ptr hp c = (case hp_blocks hp c of None \<Rightarrow> 0 | Some (n, p) \<Rightarrow> p)"

section \<open>Operations\<close>

text \<open>\<open>c\<close> is the address of the new control block. The pointer may be null, with any size.\<close>

definition SharedArray_new :: "nat \<Rightarrow> u64 \<Rightarrow> nat \<Rightarrow> 'a heap \<Rightarrow> shared_array \<times> 'a heap" where
  "SharedArray_new c n p hp =
     (\<lparr>sa_size = n, sa_block = c\<rparr>, hp\<lparr>hp_blocks := (hp_blocks hp)(c \<mapsto> (1, p))\<rparr>)"

definition SharedArray_copy :: "shared_array \<Rightarrow> 'a heap \<Rightarrow> (shared_array \<times> 'a heap) result" where
  "SharedArray_copy r hp =
     rbind (retain (sa_block r) hp) (\<lambda>hp'. Inr (\<lparr>sa_size = sa_size r, sa_block = sa_block r\<rparr>, hp'))"

definition SharedArray_assign :: "shared_array \<Rightarrow> shared_array \<Rightarrow> 'a heap \<Rightarrow> (shared_array \<times> 'a heap) result" where
  "SharedArray_assign this r hp =
     rbind (retain (sa_block r) hp) (\<lambda>hp1.
     rbind (release (sa_block this) hp1) (\<lambda>hp2.
       Inr (this\<lparr>sa_size := sa_size r, sa_block := sa_block r\<rparr>, hp2)))"

definition SharedArray_delete :: "shared_array \<Rightarrow> 'a heap \<Rightarrow> 'a heap result" where
  "SharedArray_delete this hp = release (sa_block this) hp"

definition SharedArray_swap :: "shared_array \<Rightarrow> shared_array \<Rightarrow> shared_array \<times> shared_array" where
  "SharedArray_swap this b =
     (this\<lparr>sa_size := sa_size b, sa_block := sa_block b\<rparr>, b\<lparr>sa_size := sa_size this, sa_block := sa_block this\<rparr>)"

definition SharedArray_get :: "shared_array \<Rightarrow> 'a heap \<Rightarrow> nat" where
  "SharedArray_get this hp = block_ptr hp (sa_block this)"

text \<open>The index is not compared with the size.\<close>

definition SharedArray_at :: "shared_array \<Rightarrow> int \<Rightarrow> 'a heap \<Rightarrow> 'a result" where
  "SharedArray_at this i hp =
     (case hp_arrays hp (SharedArray_get this hp) of
        None \<Rightarrow> Inl (Undefined ''operator[]'')
      | Some xs \<Rightarrow> if 0 \<le> i \<and> i < int (length xs) then Inr (xs ! nat i) else Inl (Undefined ''operator[]''))"

definition SharedArray_use_count :: "shared_array \<Rightarrow> 'a heap \<Rightarrow> nat" where
  "SharedArray_use_count this hp = (case hp_blocks hp (sa_block this) of None \<Rightarrow> 0 | Some (n, p) \<Rightarrow> n)"

definition SharedArray_unique :: "shared_array \<Rightarrow> 'a heap \<Rightarrow> bool" where
  "SharedArray_unique this hp \<longleftrightarrow> SharedArray_use_count this hp = 1"

definition SharedArray_bool :: "shared_array \<Rightarrow> 'a heap \<Rightarrow> bool" where
  "SharedArray_bool this hp \<longleftrightarrow> SharedArray_get this hp \<noteq> 0"

definition SharedArray_not :: "shared_array \<Rightarrow> 'a heap \<Rightarrow> bool" where
  "SharedArray_not this hp \<longleftrightarrow> SharedArray_get this hp = 0"

section \<open>Programs\<close>

text \<open>A new object takes null or an array no other object was constructed from. An object is known by its position
  in the list.\<close>

inductive sa_step :: "'a heap \<times> shared_array list \<Rightarrow> 'a heap \<times> shared_array list \<Rightarrow> bool" where
  allocate: "p \<noteq> 0 \<Longrightarrow> hp_arrays hp p = None \<Longrightarrow> sa_step (hp, xs) (hp\<lparr>hp_arrays := (hp_arrays hp)(p \<mapsto> vs)\<rparr>, xs)"
| construct: "hp_blocks hp c = None \<Longrightarrow> p = 0 \<or> hp_arrays hp p \<noteq> None \<and> (\<forall>n d. hp_blocks hp d \<noteq> Some (n, p)) \<Longrightarrow>
     SharedArray_new c n p hp = (x, hp') \<Longrightarrow> sa_step (hp, xs) (hp', xs @ [x])"
| copy: "i < length xs \<Longrightarrow> SharedArray_copy (xs ! i) hp = Inr (x, hp') \<Longrightarrow> sa_step (hp, xs) (hp', xs @ [x])"
| assign: "i < length xs \<Longrightarrow> j < length xs \<Longrightarrow> SharedArray_assign (xs ! i) (xs ! j) hp = Inr (x, hp') \<Longrightarrow>
     sa_step (hp, xs) (hp', xs[i := x])"
| swap: "i < length xs \<Longrightarrow> j < length xs \<Longrightarrow> SharedArray_swap (xs ! i) (xs ! j) = (x, y) \<Longrightarrow>
     sa_step (hp, xs) (hp, xs[j := y, i := x])"
| destroy: "i < length xs \<Longrightarrow> SharedArray_delete (xs ! i) hp = Inr hp' \<Longrightarrow>
     sa_step (hp, xs) (hp', take i xs @ drop (Suc i) xs)"

definition no_heap :: "'a heap" where
  "no_heap = \<lparr>hp_arrays = (\<lambda>p. None), hp_blocks = (\<lambda>c. None)\<rparr>"

section \<open>Ownership\<close>

definition owners :: "shared_array list \<Rightarrow> nat multiset" where
  "owners xs = image_mset sa_block (mset xs)"

text \<open>The counts are those of the objects \<open>os\<close>, and every block that is not null has an array of its own.\<close>

definition counted :: "nat multiset \<Rightarrow> 'a heap \<Rightarrow> bool" where
  "counted os hp \<longleftrightarrow>
     (\<forall>c. hp_blocks hp c = None \<longrightarrow> c \<notin># os) \<and>
     (\<forall>c n p. hp_blocks hp c = Some (n, p) \<longrightarrow> n = count os c \<and> 0 < n \<and> (p \<noteq> 0 \<longrightarrow> hp_arrays hp p \<noteq> None)) \<and>
     (\<forall>c d n m p. hp_blocks hp c = Some (n, p) \<and> hp_blocks hp d = Some (m, p) \<and> p \<noteq> 0 \<longrightarrow> c = d)"

lemma countedD:
  assumes "counted os hp"
  shows "hp_blocks hp c = None \<Longrightarrow> count os c = 0"
    and "hp_blocks hp c = Some (n, p) \<Longrightarrow> n = count os c"
    and "hp_blocks hp c = Some (n, p) \<Longrightarrow> 0 < count os c"
    and "hp_blocks hp c = Some (n, p) \<Longrightarrow> p \<noteq> 0 \<Longrightarrow> \<exists>vs. hp_arrays hp p = Some vs"
    and "hp_blocks hp c = Some (n, p) \<Longrightarrow> hp_blocks hp d = Some (m, p) \<Longrightarrow> p \<noteq> 0 \<Longrightarrow> c = d"
  using assms unfolding counted_def by (auto simp: not_in_iff)

lemma countedI:
  assumes "\<And>c. hp_blocks hp c = None \<Longrightarrow> count os c = 0"
    and "\<And>c n p. hp_blocks hp c = Some (n, p) \<Longrightarrow> n = count os c \<and> 0 < n"
    and "\<And>c n p. hp_blocks hp c = Some (n, p) \<Longrightarrow> p \<noteq> 0 \<Longrightarrow> hp_arrays hp p \<noteq> None"
    and "\<And>c d n m p. hp_blocks hp c = Some (n, p) \<Longrightarrow> hp_blocks hp d = Some (m, p) \<Longrightarrow> p \<noteq> 0 \<Longrightarrow> c = d"
  shows "counted os hp"
  unfolding counted_def
  using assms(1) [THEN count_eq_zero_iff [THEN iffD1]] assms(2-4) by blast

lemma counted_block:
  assumes "counted os hp" "c \<in># os"
  obtains p where "hp_blocks hp c = Some (count os c, p)"
  using countedD(1,2) [OF assms(1), of c] assms(2) [folded count_greater_zero_iff]
  by (cases "hp_blocks hp c") auto

lemma retain_counted:
  assumes "counted os hp" "c \<in># os"
  shows "\<exists>hp'. retain c hp = Inr hp' \<and> counted (add_mset c os) hp'"
proof -
  note inv = countedD [OF assms(1)]
  obtain p where p: "hp_blocks hp c = Some (count os c, p)" using counted_block [OF assms] by blast
  let ?hp = "hp\<lparr>hp_blocks := (hp_blocks hp)(c \<mapsto> (count os c + 1, p))\<rparr>"
  have "counted (add_mset c os) ?hp"
  proof (rule countedI)
    show "count (add_mset c os) d = 0" if "hp_blocks ?hp d = None" for d
      using that inv(1) [of d] by (simp split: if_splits)
    show "n = count (add_mset c os) d \<and> 0 < n" if "hp_blocks ?hp d = Some (n, q)" for d n q
      using that inv(2,3) [of d n q] by (auto split: if_splits)
    show "hp_arrays ?hp q \<noteq> None" if "hp_blocks ?hp d = Some (n, q)" "q \<noteq> 0" for d n q
      using that inv(4) [of d n q] inv(4) [OF p] by (auto split: if_splits)
    show "d = e" if "hp_blocks ?hp d = Some (n, q)" "hp_blocks ?hp e = Some (m, q)" "q \<noteq> 0" for d e n m q
    proof -
      have "\<exists>i. hp_blocks hp d = Some (i, q)" using that(1) p by (auto split: if_splits)
      moreover have "\<exists>i. hp_blocks hp e = Some (i, q)" using that(2) p by (auto split: if_splits)
      ultimately show ?thesis using inv(5) that(3) by blast
    qed
  qed
  then show ?thesis using p by (simp add: retain_def)
qed

lemma release_counted:
  assumes "counted os hp" "c \<in># os"
  shows "\<exists>hp'. release c hp = Inr hp' \<and> counted (os - {#c#}) hp'"
proof -
  note inv = countedD [OF assms(1)]
  obtain p where p: "hp_blocks hp c = Some (count os c, p)" using counted_block [OF assms] by blast
  let ?os = "os - {#c#}"
  show ?thesis
  proof (cases "count os c = 1")
    case True
    define hp1 where "hp1 = hp\<lparr>hp_blocks := (hp_blocks hp)(c := None)\<rparr>"
    have counted: "counted ?os (hp1\<lparr>hp_arrays := f\<rparr>)"
      if f: "\<And>q. q \<noteq> p \<or> p = 0 \<Longrightarrow> f q = hp_arrays hp q" for f
    proof (rule countedI)
      show "count ?os d = 0" if "hp_blocks (hp1\<lparr>hp_arrays := f\<rparr>) d = None" for d
        using that inv(1) [of d] True by (auto simp: hp1_def split: if_splits)
      show "n = count ?os d \<and> 0 < n" if "hp_blocks (hp1\<lparr>hp_arrays := f\<rparr>) d = Some (n, q)" for d n q
        using that inv(2,3) [of d n q] by (auto simp: hp1_def split: if_splits)
      show "hp_arrays (hp1\<lparr>hp_arrays := f\<rparr>) q \<noteq> None"
        if "hp_blocks (hp1\<lparr>hp_arrays := f\<rparr>) d = Some (n, q)" "q \<noteq> 0" for d n q
        using that inv(4) [of d n q] inv(5) [OF p, of d n] f [of q]
        by (cases "q = p") (auto simp: hp1_def split: if_splits)
      show "d = e" if "hp_blocks (hp1\<lparr>hp_arrays := f\<rparr>) d = Some (n, q)" "hp_blocks (hp1\<lparr>hp_arrays := f\<rparr>) e = Some (m, q)"
          "q \<noteq> 0" for d e n m q
        using that inv(5) [of d n q e m] by (auto simp: hp1_def split: if_splits)
    qed
    have "\<exists>hp'. delete_array p hp1 = Inr hp' \<and> counted ?os hp'"
    proof (cases "p = 0")
      case True
      then show ?thesis using counted [of "hp_arrays hp"] by (simp add: delete_array_def hp1_def)
    next
      case False
      then show ?thesis using counted [of "(hp_arrays hp)(p := None)"] inv(4) [OF p] by (auto simp: delete_array_def hp1_def)
    qed
    then show ?thesis using p True by (simp add: release_def hp1_def)
  next
    case False
    then have n: "0 < count os c - 1" using assms(2) [folded count_greater_zero_iff] by linarith
    let ?hp = "hp\<lparr>hp_blocks := (hp_blocks hp)(c \<mapsto> (count os c - 1, p))\<rparr>"
    have "counted ?os ?hp"
    proof (rule countedI)
      show "count ?os d = 0" if "hp_blocks ?hp d = None" for d
        using that inv(1) [of d] by (simp split: if_splits)
      show "m = count ?os d \<and> 0 < m" if "hp_blocks ?hp d = Some (m, q)" for d m q
        using that inv(2,3) [of d m q] n by (auto split: if_splits)
      show "hp_arrays ?hp q \<noteq> None" if "hp_blocks ?hp d = Some (m, q)" "q \<noteq> 0" for d m q
        using that inv(4) [of d m q] inv(4) [OF p] by (auto split: if_splits)
      show "d = e" if "hp_blocks ?hp d = Some (k, q)" "hp_blocks ?hp e = Some (m, q)" "q \<noteq> 0" for d e k m q
      proof -
        have "\<exists>i. hp_blocks hp d = Some (i, q)" using that(1) p by (auto split: if_splits)
        moreover have "\<exists>i. hp_blocks hp e = Some (i, q)" using that(2) p by (auto split: if_splits)
        ultimately show ?thesis using inv(5) that(3) by blast
      qed
    qed
    then show ?thesis using p False by (auto simp: release_def)
  qed
qed

lemma construct_counted:
  assumes "counted os hp" "hp_blocks hp c = None"
    and "p = 0 \<or> hp_arrays hp p \<noteq> None \<and> (\<forall>n d. hp_blocks hp d \<noteq> Some (n, p))"
  shows "counted (add_mset c os) (hp\<lparr>hp_blocks := (hp_blocks hp)(c \<mapsto> (1, p))\<rparr>)"
proof (rule countedI)
  note inv = countedD [OF assms(1)]
  let ?hp = "hp\<lparr>hp_blocks := (hp_blocks hp)(c \<mapsto> (1, p))\<rparr>"
  show "count (add_mset c os) d = 0" if "hp_blocks ?hp d = None" for d
    using that inv(1) [of d] by (simp split: if_splits)
  show "n = count (add_mset c os) d \<and> 0 < n" if "hp_blocks ?hp d = Some (n, q)" for d n q
    using that inv(2,3) [of d n q] inv(1) [OF assms(2)] by (auto split: if_splits)
  show "hp_arrays ?hp q \<noteq> None" if "hp_blocks ?hp d = Some (n, q)" "q \<noteq> 0" for d n q
    using that inv(4) [of d n q] assms(3) by (auto split: if_splits)
  show "d = e" if "hp_blocks ?hp d = Some (n, q)" "hp_blocks ?hp e = Some (m, q)" "q \<noteq> 0" for d e n m q
    using that inv(5) [of d n q e m] assms(3) by (auto split: if_splits)
qed

definition sa_inv :: "'a heap \<times> shared_array list \<Rightarrow> bool" where
  "sa_inv s \<longleftrightarrow> counted (owners (snd s)) (fst s)"

lemma owners_nth: "i < length xs \<Longrightarrow> sa_block (xs ! i) \<in># owners xs"
  by (auto simp: owners_def)

lemma owners_update: "i < length xs \<Longrightarrow> owners (xs[i := x]) = add_mset (sa_block x) (owners xs - {#sa_block (xs ! i)#})"
  by (simp add: owners_def mset_update image_mset_Diff)

lemma owners_remove: "i < length xs \<Longrightarrow> owners (take i xs @ drop (Suc i) xs) = owners xs - {#sa_block (xs ! i)#}"
proof -
  assume "i < length xs"
  then have "mset xs = add_mset (xs ! i) (mset (take i xs @ drop (Suc i) xs))"
    by (metis id_take_nth_drop mset_append mset.simps(2) union_mset_add_mset_right)
  then show ?thesis by (simp add: owners_def)
qed

lemma copy_ok:
  assumes "counted (owners xs) hp" "i < length xs"
  shows "\<exists>hp'. SharedArray_copy (xs ! i) hp = Inr (xs ! i, hp') \<and> counted (add_mset (sa_block (xs ! i)) (owners xs)) hp'"
  using retain_counted [OF assms(1) owners_nth [OF assms(2)]] by (auto simp: SharedArray_copy_def)

lemma assign_ok:
  assumes "counted (owners xs) hp" "i < length xs" "j < length xs"
  shows "\<exists>x hp'. SharedArray_assign (xs ! i) (xs ! j) hp = Inr (x, hp') \<and> counted (owners (xs[i := x])) hp'"
proof -
  obtain hp1 where hp1: "retain (sa_block (xs ! j)) hp = Inr hp1" "counted (add_mset (sa_block (xs ! j)) (owners xs)) hp1"
    using retain_counted [OF assms(1) owners_nth [OF assms(3)]] by blast
  have i: "sa_block (xs ! i) \<in># owners xs" using owners_nth [OF assms(2)] .
  then obtain hp2 where "release (sa_block (xs ! i)) hp1 = Inr hp2"
      "counted (add_mset (sa_block (xs ! j)) (owners xs) - {#sa_block (xs ! i)#}) hp2"
    using release_counted [OF hp1(2), of "sa_block (xs ! i)"] by auto
  with hp1(1) i show ?thesis
    using owners_update [OF assms(2)] by (simp add: SharedArray_assign_def)
qed

lemma delete_ok:
  assumes "counted (owners xs) hp" "i < length xs"
  shows "\<exists>hp'. SharedArray_delete (xs ! i) hp = Inr hp' \<and> counted (owners (take i xs @ drop (Suc i) xs)) hp'"
  using release_counted [OF assms(1) owners_nth [OF assms(2)]] unfolding SharedArray_delete_def owners_remove [OF assms(2)] .

lemma swap_owners:
  assumes "i < length xs" "j < length xs" "SharedArray_swap (xs ! i) (xs ! j) = (x, y)"
  shows "owners (xs[j := y, i := x]) = owners xs"
proof -
  have "x = xs ! j" "y = xs ! i" using assms(3) by (auto simp: SharedArray_swap_def)
  then show ?thesis using mset_swap [OF assms(1,2)] by (simp add: owners_def)
qed

lemma sa_step_inv: "sa_step s s' \<Longrightarrow> sa_inv s \<Longrightarrow> sa_inv s'"
proof (induction rule: sa_step.induct)
  case (allocate p hp xs vs)
  then have inv: "counted (owners xs) hp" by (simp add: sa_inv_def)
  have "counted (owners xs) (hp\<lparr>hp_arrays := (hp_arrays hp)(p \<mapsto> vs)\<rparr>)"
  proof (rule countedI)
    let ?hp = "hp\<lparr>hp_arrays := (hp_arrays hp)(p \<mapsto> vs)\<rparr>"
    show "count (owners xs) c = 0" if "hp_blocks ?hp c = None" for c
      using that countedD(1) [OF inv] by simp
    show "n = count (owners xs) c \<and> 0 < n" if "hp_blocks ?hp c = Some (n, q)" for c n q
      using that countedD(2,3) [OF inv, of c n q] by simp
    show "hp_arrays ?hp q \<noteq> None" if "hp_blocks ?hp c = Some (n, q)" "q \<noteq> 0" for c n q
      using that countedD(4) [OF inv, of c n q] by auto
    show "c = d" if "hp_blocks ?hp c = Some (n, q)" "hp_blocks ?hp d = Some (m, q)" "q \<noteq> 0" for c d n m q
      using that countedD(5) [OF inv, of c n q d m] by simp
  qed
  then show ?case by (simp add: sa_inv_def)
next
  case (construct hp c p n x hp' xs)
  then show ?case
    using construct_counted [of "owners xs" hp c p] by (auto simp: sa_inv_def SharedArray_new_def owners_def)
next
  case (copy i xs hp x hp')
  then show ?case using copy_ok [of xs hp i] by (auto simp: sa_inv_def owners_def)
next
  case (assign i xs j hp x hp')
  then show ?case using assign_ok [of xs hp i j] by (auto simp: sa_inv_def)
next
  case (swap i xs j x y hp)
  then show ?case by (simp add: sa_inv_def swap_owners)
next
  case (destroy i xs hp hp')
  then show ?case using delete_ok [of xs hp i] by (auto simp: sa_inv_def)
qed

lemma sa_reachable_inv: "sa_step\<^sup>*\<^sup>* (no_heap, []) s \<Longrightarrow> sa_inv s"
proof (induction rule: rtranclp_induct)
  case base
  show ?case by (simp add: sa_inv_def counted_def no_heap_def owners_def)
qed (rule sa_step_inv)

lemma count_owners: "count (owners xs) c = length (filter (\<lambda>x. sa_block x = c) xs)"
  by (induction xs) (auto simp: owners_def)



end
