(* ===== verification/Spec2Isabelle.thy ===== *)
theory Spec2Isabelle
  imports Socket Loggers Env PbJson Thread SysUtil SharedArray
begin

text \<open>
  Sylar is a C++ server framework: coroutines (fibers) scheduled on a pool of threads, an event loop on epoll,
  timers, system calls hooked so that they suspend the fiber instead of the thread, sockets, configuration, logging
  and utilities. This development models the library under \<open>src/sylar\<close> and proves what makes its components
  correct. All file names below are relative to that directory.

  \<^bold>\<open>How the parts interact.\<close> A worker thread runs \<open>Scheduler::run\<close>, takes tasks from the queue and switches to
  their fibers. A fiber that calls a hooked function on a socket that is not ready registers itself with
  \<open>IOManager::addEvent\<close>, arms a timer when the socket has a timeout, and yields. The idle fiber of a worker waits in
  \<open>IOManager::idle\<close> for events and for the next timer, and schedules the fibers and callbacks that became ready. The
  table of descriptors tells the hooks which descriptors they manage. Sockets own descriptors and call the hooked
  functions. Configuration variables are loaded from YAML files below a path of the environment; the variable \<open>logs\<close>
  has a listener that rebuilds the loggers.

  \<^bold>\<open>Theories and sources.\<close> Each theory has its records and datatypes, one definition per function of the source
  under its name (a method with the name of its class in front), then its lemmas and properties.
  \<^item> \<open>Prelude\<close>: machine integers, C division, errors (failed assertions, undefined behaviour and exceptions are
    values of a sum), closures, decimal numbers. \<open>OrderedSet\<close>: \<open>std::set\<close> over a comparator, with locales for what a
    comparator has to satisfy.
  \<^item> \<open>Timer\<close> (\<open>timer.h\<close>, \<open>timer.cpp\<close>): timers in a store, the manager's set of pointers to them. The set is
    ordered in every reachable state whatever the handles are used for; expiry is exact and refines an abstract
    queue of deadlines (locale \<open>timer_queue\<close>); a cancelled timer stays so; waiting as long as announced is enough.
  \<^item> \<open>Fiber\<close> (\<open>fiber.h\<close>, \<open>fiber.cpp\<close>): fibers in a store, contexts as what a switch saves and restores, one
    thread. Reachable states keep one running fiber; states change along the life cycle only.
  \<^item> \<open>Scheduler\<close> (\<open>scheduler.h\<close>, \<open>scheduler.cpp\<close>): the queue and the worker loop, and any interleaving of workers
    and clients as a step relation in which a section under the lock is one step. No step aborts, no fiber runs
    on two workers, the counters are exact, and the state changes of the fibers are those of \<open>Fiber\<close> (locale
    \<open>coroutine\<close> with both models as instances).
  \<^item> \<open>IOManager\<close> (\<open>iomanager.h\<close>, \<open>iomanager.cpp\<close>): contexts per descriptor and the kernel's interest set, which
    agree in every reachable state; what is woken and when; the composition with timers and scheduler.
  \<^item> \<open>FdManager\<close> (\<open>fd_manager.h\<close>, \<open>fd_manager.cpp\<close>) and \<open>Hook\<close> (\<open>hook.h\<close>, \<open>hook.cpp\<close>): the table of descriptors
    and the hooked calls over it, the event loop and the timers; timeouts, retries, closing, the blocking mode.
  \<^item> \<open>Socket\<close> (\<open>socket.h\<close>, \<open>socket.cpp\<close>): sockets and SSL sockets over those calls. No descriptor is shared by
    two sockets or closed twice (locale \<open>socket_operation\<close>).
  \<^item> \<open>Mutex\<close> (\<open>mutex.h\<close>, \<open>mutex.cpp\<close>) and \<open>Thread\<close> (\<open>thread.h\<close>, \<open>thread.cpp\<close>): locks as values, scoped locks over
    them, threads that use them in any order (locale \<open>exclusive_lock\<close> with three instances), readers and writers, and
    the handshake between the constructor of a thread and the thread. Sections of statements under a scoped lock are
    atomic in every interleaving, which is why an operation that runs under a lock is one step in the other theories.
  \<^item> \<open>Address\<close> (\<open>address.h\<close>, \<open>address.cpp\<close>, \<open>byte_sequence.h\<close>): the socket address classes as records and
    bytes; masks, order, lookup.
  \<^item> \<open>StringUtil\<close>, \<open>FileSystem\<close> and \<open>Json\<close> (\<open>util.h\<close>, \<open>util.cpp\<close>, \<open>util/json_util.cpp\<close>): strings, numbers and
    streams; files and directories (locale \<open>directories\<close>); escapes, members and the conversions between YAML and JSON.
  \<^item> \<open>SysUtil\<close> and \<open>SharedArray\<close> (\<open>util.h\<close>, \<open>util.cpp\<close>): backtraces, times, wide strings, host names and the stream
    templates; arrays with shared owners, whose counts are exact and which are deleted once.
  \<^item> \<open>PbJson\<close> (\<open>util.cpp\<close>): protocol buffer messages as JSON. A message is serialised without failing and within the
    depth, and its members are those of its fields and unknown fields.
  \<^item> \<open>Env\<close> (\<open>env.h\<close>, \<open>env.cpp\<close>): command line, help texts, variables and paths.
  \<^item> \<open>Config\<close> (\<open>config.h\<close>, \<open>config.cpp\<close>), \<open>LogFormat\<close>, \<open>Log\<close> and \<open>Loggers\<close> (\<open>log.h\<close>, \<open>log.cpp\<close>): variables,
    conversions, loading and listeners; formatters, appenders, loggers and their configuration.
  \<^item> This theory: the listener of \<open>logs\<close> on the variable it listens to, \<open>LoadFromConfDir\<close> over environment, file
    listing and variables, and the timeout of the hooked \<open>connect\<close> as a copy of a variable.

  \<^bold>\<open>What is an argument.\<close> The clock, the addresses \<open>new\<close> returns, answers of the kernel and of the resolver, the
  YAML, JSON and SSL libraries and \<open>boost::lexical_cast\<close>. Where a property needs something of them it is a named
  hypothesis or the assumption of a locale, taken from their documentation.

  \<^bold>\<open>Bounds and loops.\<close> Loops are structural recursions or functions with a termination proof. \<open>Logger::log\<close> calls
  itself on the root logger, which has no root itself, so two levels of recursion are enough and running out
  is proved not to happen. A hooked call that waits several times runs along a script with an entry for each round,
  and is suspended when the script ends. Unknown fields of a message may hold messages in turn; the depth of the
  serialiser has to be larger than the longest of them, since a nested one is shorter than the bytes it is parsed
  from. Unsigned integers have their width where the code depends on it; lengths of
  strings and containers are natural numbers.

  \<^bold>\<open>Not modelled.\<close> Memory orders weaker than sequential consistency; log messages the components write themselves.
  \<open>FiberSemaphore\<close> is declared and has no definitions. \<open>Slice\<close> calls \<open>pop_back\<close> with an argument, so that no instance of
  it compiles. \<open>singleton.h\<close>, \<open>noncopyable.h\<close> and \<open>macro.h\<close> have no state. The libraries under \<open>deps\<close> and the tests,
  which print and check nothing, are left out.
\<close>

section \<open>The configuration of the loggers\<close>

text \<open>
  The variable \<open>logs\<close> (\<open>g_log_defines\<close>) holds a set of definitions of loggers ordered by name; its text is
  converted element by element, and its listener applies the change to the loggers.
\<close>

definition logs_from_string :: "(string \<Rightarrow> yaml option) \<Rightarrow> (yaml \<Rightarrow> string) \<Rightarrow> (yaml \<Rightarrow> nat \<Rightarrow> yaml) \<Rightarrow>
    (yaml \<Rightarrow> string option) \<Rightarrow> string \<Rightarrow> string \<Rightarrow> log_define list option" where
  "logs_from_string load emit idx as_string type v =
     ordered_set_from_string LogDefine_less load emit idx
       (\<lambda>s. Option.bind (load s) (LogDefine_from_yaml as_string idx)) v"

fun run_log_listener :: "(string \<Rightarrow> bool) \<Rightarrow> bool \<Rightarrow> (nat \<times> log_define list \<times> log_define list) list \<Rightarrow> nat \<times> log_sys \<Rightarrow>
    (nat \<times> log_sys) result" where
  "run_log_listener writable daemon [] st = Inr st"
| "run_log_listener writable daemon ((cb, old_value, new_value) # calls) st =
     rbind (on_logger_conf_changed writable daemon old_value new_value st) (run_log_listener writable daemon calls)"

lemma fold_set_insert:
  "sorted_wrt LogDefine_less ys \<Longrightarrow> sorted_wrt LogDefine_less (fold (set_insert LogDefine_less) xs ys) \<and>
   set (fold (set_insert LogDefine_less) xs ys) \<subseteq> set xs \<union> set ys"
proof (induction xs arbitrary: ys)
  case (Cons x xs)
  from Cons.IH [OF defs.sorted_set_insert [OF Cons.prems, of x]] defs.set_insert_subset [of x ys]
  show ?case by auto
qed simp

lemma cast_all_set: "cast_all f ss = Some xs \<Longrightarrow> x \<in> set xs \<Longrightarrow> \<exists>s. f s = Some x"
  by (induction f ss arbitrary: xs rule: cast_all.induct) (auto split: option.splits)

lemma appenders_from_yaml_types:
  "appenders_from_yaml as_string ns = Some ds \<Longrightarrow> d \<in> set ds \<Longrightarrow> ad_type d \<in> {1, 2}"
proof (induction ns arbitrary: ds)
  case (Cons n ns)
  obtain x xs where x: "appender_from_yaml as_string n = Some x" "appenders_from_yaml as_string ns = Some xs"
      "ds = (case x of None \<Rightarrow> [] | Some y \<Rightarrow> [y]) @ xs"
    using Cons.prems(1) by (auto split: option.splits)
  have "ad_type y \<in> {1, 2}" if "x = Some y" for y
    using x(1) that by (auto simp: appender_from_yaml_def split: option.splits if_splits)
  then show ?case using x Cons by (auto split: option.splits)
qed simp

lemma define_from_yaml_types:
  "LogDefine_from_yaml as_string idx node = Some i \<Longrightarrow> d \<in> set (ld_appenders i) \<Longrightarrow> ad_type d \<in> {1, 2}"
  unfolding LogDefine_from_yaml_def
  by (auto split: option.splits dest: appenders_from_yaml_types)

lemma logs_from_string_sound:
  assumes "logs_from_string load emit idx as_string type v = Some new_value"
  shows "sorted_wrt LogDefine_less new_value \<and> (\<forall>i \<in> set new_value. \<forall>d \<in> set (ld_appenders i). ad_type d \<in> {1, 2})"
proof -
  obtain node xs where "new_value = fold (set_insert LogDefine_less) xs []"
      and xs: "cast_all (\<lambda>s. Option.bind (load s) (LogDefine_from_yaml as_string idx))
        (map (\<lambda>i. emit (yaml_at idx node i)) [0..<yaml_size node]) = Some xs"
    using assms by (auto simp: logs_from_string_def ordered_set_from_string_def split: option.splits)
  then show ?thesis
    using fold_set_insert [of "[]" xs] cast_all_set [OF xs] define_from_yaml_types
    by (fastforce simp: bind_eq_Some_conv)
qed


text \<open>A document with one definition.\<close>

definition sample_node :: yaml where
  "sample_node = YMap [(''name'', YScalar ''system''), (''level'', YScalar ''warn''),
     (''appenders'', YSeq [YMap [(''type'', YScalar ''StdoutLogAppender'')]])]"

definition sample_define :: log_define where
  "sample_define = \<lparr>ld_name = ''system'', ld_level = WARN, ld_formatter = [],
     ld_appenders = [\<lparr>ad_type = 2, ad_level = UNKNOW, ad_formatter = [], ad_file = []\<rparr>]\<rparr>"

definition sample_logs :: "log_define list config_var" where
  "sample_logs = \<lparr>cv_name = ''logs'', cv_description = [], cv_type = ''std::set<LogDefine>'', cv_val = [], cv_cbs = [(1, 0)]\<rparr>"

abbreviation sample_from_string :: "string \<Rightarrow> string \<Rightarrow> log_define list option" where
  "sample_from_string \<equiv> logs_from_string (\<lambda>s. if s = ''item'' then Some sample_node else Some (YSeq [sample_node]))
     (\<lambda>n. ''item'') (\<lambda>n i. YNull) (\<lambda>n. case n of YScalar s \<Rightarrow> Some s | _ \<Rightarrow> None)"

lemma sample_converts: "sample_from_string type ''all'' = Some [sample_define]"
  by (simp add: logs_from_string_def ordered_set_from_string_def yaml_size_def yaml_at_def sample_node_def
      LogDefine_from_yaml_def yaml_get_def get_string_def appender_from_yaml_def sample_define_def
      LogLevel_FromString_def)


section \<open>Loading a directory of configuration files\<close>

text \<open>
  \<open>Config::LoadFromConfDir\<close> as a whole: the path is made absolute by the environment, the files come from the listing
  of the directory. \<open>dir_at\<close> is what the file system has under a path, \<open>mtime\<close> the time \<open>lstat\<close> gives for a file and
  \<open>content\<close> the document in it.
\<close>

definition conf_files :: "env \<Rightarrow> (string \<Rightarrow> fnode option) \<Rightarrow> (string \<Rightarrow> bool) \<Rightarrow> string \<Rightarrow> string list" where
  "conf_files e dir_at openable path =
     (let absoulte_path = Env_getAbsolutePath path e in
      case dir_at absoulte_path of
        None \<Rightarrow> []
      | Some n \<Rightarrow> ListAllFile openable ''.yml'' absoulte_path n [])"

definition LoadFromConfDir :: "(yaml \<Rightarrow> string) \<Rightarrow> (string \<Rightarrow> string \<Rightarrow> 'v option) \<Rightarrow> (nat \<Rightarrow> bool) \<Rightarrow> env \<Rightarrow>
    (string \<Rightarrow> fnode option) \<Rightarrow> (string \<Rightarrow> bool) \<Rightarrow> (string \<Rightarrow> u64) \<Rightarrow> (string \<Rightarrow> yaml option) \<Rightarrow> string \<Rightarrow> bool \<Rightarrow>
    (string \<Rightarrow> u64) \<times> 'v config_map \<times> (nat \<times> 'v \<times> 'v) list \<Rightarrow>
    (string \<Rightarrow> u64) \<times> 'v config_map \<times> (nat \<times> 'v \<times> 'v) list" where
  "LoadFromConfDir emit from_str throws e dir_at openable mtime content path force st =
     Config_LoadFromConfDir emit from_str throws force
       (map (\<lambda>f. (f, mtime f, content f)) (conf_files e dir_at openable path)) st"

lemma load_named_files_times:
  "fst (Config_LoadFromConfDir emit from_str throws force (map (\<lambda>f. (f, mtime f, content f)) names) st) f =
     (if f \<in> set names then mtime f else fst st f)"
proof (induction names arbitrary: st)
  case (Cons n names)
  show ?case
    using Cons [of "load_file emit from_str throws force (n, mtime n, content n) st"]
      load_file_times(1) [of emit from_str throws force n "mtime n" "content n" st]
      load_file_times(2) [of f n emit from_str throws force "mtime n" "content n" st]
    by (cases "f = n") (simp_all add: Config_LoadFromConfDir_def)
qed (simp add: Config_LoadFromConfDir_def)

lemma load_known_files:
  assumes "\<And>f. f \<in> set names \<Longrightarrow> fst st f = mtime f"
  shows "Config_LoadFromConfDir emit from_str throws False (map (\<lambda>f. (f, mtime f, content f)) names) st = st"
  using assms
proof (induction names)
  case (Cons n names)
  then have "load_file emit from_str throws False (n, mtime n, content n) st = st"
    by (cases st) (simp add: load_file_def)
  then show ?case using Cons by (simp add: Config_LoadFromConfDir_def)
qed (simp add: Config_LoadFromConfDir_def)

lemma conf_files_listed:
  "set (conf_files e dir_at openable path) =
     {p. \<exists>n. dir_at (Env_getAbsolutePath path e) = Some n \<and> listed openable ''.yml'' (Env_getAbsolutePath path e) n p}"
proof (cases "dir_at (Env_getAbsolutePath path e)")
  case (Some n)
  then show ?thesis
    using ListAllFile_extends(1) [of "[]" openable "''.yml''" "Env_getAbsolutePath path e" n]
    by (simp add: conf_files_def extends_def)
qed (simp add: conf_files_def)

text \<open>C40. Loading a directory records the time of exactly the files below the absolute path whose names end in
  .yml, and loading it again, unless forced, while no file has changed does nothing: no variable takes a value and
  no listener is called.\<close>

theorem conf_dir_reload:
  "let st' = LoadFromConfDir emit from_str throws e dir_at openable mtime content path force st in
   (\<forall>f. fst st' f =
      (if \<exists>n. dir_at (Env_getAbsolutePath path e) = Some n \<and> listed openable ''.yml'' (Env_getAbsolutePath path e) n f
       then mtime f else fst st f)) \<and>
   LoadFromConfDir emit from_str throws e dir_at openable mtime content path False st' = st'"
  unfolding LoadFromConfDir_def Let_def
  by (auto simp: load_named_files_times conf_files_listed intro!: load_known_files)

section \<open>The timeout of connect\<close>

text \<open>
  \<open>hook.cpp\<close> copies the variable \<open>tcp.connect.timeout\<close> to \<open>s_connect_timeout\<close> when it is loaded and in a listener, here
  with the number \<open>cb\<close>; the hooked \<open>connect\<close> uses the copy.
\<close>

definition HookIniter :: "nat \<Rightarrow> u64 \<Rightarrow> u32 config_var \<Rightarrow> u64 \<times> u64 \<times> u32 config_var" where
  "HookIniter cb s_fun_id var =
     (let (key, s_fun_id', var') = ConfigVar_addListener cb s_fun_id var
      in (connect_timeout_of (cv_val var), s_fun_id', var'))"

fun run_connect_listener :: "nat \<Rightarrow> (nat \<times> u32 \<times> u32) list \<Rightarrow> u64 \<Rightarrow> u64" where
  "run_connect_listener cb [] s_connect_timeout = s_connect_timeout"
| "run_connect_listener cb ((cb', old_value, new_value) # calls) s_connect_timeout =
     run_connect_listener cb calls (if cb' = cb then connect_timeout_of new_value else s_connect_timeout)"

definition hook_connect :: "bool \<Rightarrow> 'k libc \<Rightarrow> (ctl_op \<Rightarrow> int \<Rightarrow> bool) \<Rightarrow> u64 \<Rightarrow> nat \<Rightarrow> nat \<Rightarrow> nat \<times> fiber_state \<Rightarrow>
    int \<Rightarrow> u64 \<Rightarrow> int \<times> int \<Rightarrow> fd_table \<Rightarrow> 'k \<Rightarrow> iomanager \<Rightarrow> connect_start result" where
  "hook_connect hook_enable lc fault now a winfo this_fiber fd s_connect_timeout direct ds k io =
     connect_begin hook_enable lc fault now a winfo this_fiber fd s_connect_timeout direct ds k io"

definition load_connect_timeout :: "(string \<Rightarrow> string \<Rightarrow> u32 option) \<Rightarrow> (nat \<Rightarrow> bool) \<Rightarrow> nat \<Rightarrow> string \<Rightarrow>
    u64 \<times> u32 config_var \<Rightarrow> u64 \<times> u32 config_var" where
  "load_connect_timeout from_str throws cb val st =
     (case st of (s_connect_timeout, var) \<Rightarrow>
        let (b, calls, var') = ConfigVar_fromString from_str throws val var
        in (run_connect_listener cb calls s_connect_timeout, var'))"

lemma run_connect_listener_same:
  "run_connect_listener cb (map (\<lambda>(k, cb'). (cb', old_value, new_value)) cbs) t =
     (if cb \<in> snd ` set cbs then connect_timeout_of new_value else t)"
  by (induction cbs arbitrary: t) (auto simp: image_iff Bex_def)

text \<open>As long as no listener throws, the copy is the variable after any number of loads; in particular \<open>-1\<close> in the
  configuration is no timeout.\<close>

lemma connect_timeout_tracks:
  assumes "t = connect_timeout_of (cv_val var)" "cb \<in> snd ` set (cv_cbs var)" "\<forall>cb \<in> snd ` set (cv_cbs var). \<not> throws cb"
    and "fold (load_connect_timeout from_str throws cb) inputs (t, var) = (t', var')"
  shows "t' = connect_timeout_of (cv_val var')"
  using assms
proof (induction inputs arbitrary: t var)
  case (Cons val inputs)
  obtain t1 var1 where one: "load_connect_timeout from_str throws cb val (t, var) = (t1, var1)" by fastforce
  have "t1 = connect_timeout_of (cv_val var1) \<and> cv_cbs var1 = cv_cbs var"
    using one Cons.prems(1,2)
    by (auto simp: notify_quiet [OF Cons.prems(3)] load_connect_timeout_def ConfigVar_fromString_def ConfigVar_setValue_def run_connect_listener_same
        split: option.splits if_splits)
  then show ?case using Cons.IH [of t1 var1] Cons.prems one by simp
qed simp

lemma no_connect_timeout: "connect_timeout_of (- 1) = - 1"
  by (simp add: connect_timeout_of_def)

end
